(* ===== verification/Prelude.thy ===== *)
theory Prelude
  imports Main "HOL-Library.Word"
begin

unbundle bit_operations_syntax

section \<open>Shared types, C arithmetic and byte buffers\<close>

text \<open>
  What every theory of the development shares: the machine integers the C code uses, the
  \<open>errno\<close> values of Linux that the library returns (always negated), the C conversion to
  \<open>int\<close>, and buffers as byte lists with the two ways the code touches them: \<open>poke\<close> is
  \<open>memcpy\<close> into a buffer at an offset, \<open>peek\<close> is a read of some bytes at an offset.
  The collection \<open>frame\<close> gathers the facts that an operation leaves a part of the state
  alone, \<open>wire\<close> the lengths and positions of encoded data.
\<close>

named_theorems frame \<open>an operation leaves a part of the state unchanged\<close>
named_theorems wire \<open>lengths and byte positions of encoded data\<close>

type_synonym byte = "8 word"
type_synonym u16 = "16 word"
type_synonym u32 = "32 word"
type_synonym u64 = "64 word"

text \<open>
  Signed fields of the wire structures keep their width; they are read with \<^const>\<open>sint\<close>.
  A \<open>float\<close> is only copied by the library (and compared once, in the force sensor), so it
  is kept as its 32 bits.
\<close>

type_synonym i16 = "16 word"
type_synonym i32 = "32 word"
type_synonym float_bits = "32 word"

subsection \<open>errno values (Linux)\<close>

abbreviation EINTR :: int where "EINTR \<equiv> 4"
abbreviation EIO :: int where "EIO \<equiv> 5"
abbreviation EAGAIN :: int where "EAGAIN \<equiv> 11"
abbreviation ENOMEM :: int where "ENOMEM \<equiv> 12"
abbreviation EBUSY :: int where "EBUSY \<equiv> 16"
abbreviation ENODEV :: int where "ENODEV \<equiv> 19"
abbreviation EINVAL :: int where "EINVAL \<equiv> 22"
abbreviation ENOTTY :: int where "ENOTTY \<equiv> 25"
abbreviation EPIPE :: int where "EPIPE \<equiv> 32"
abbreviation ENOMSG :: int where "ENOMSG \<equiv> 42"
abbreviation EPROTO :: int where "EPROTO \<equiv> 71"
abbreviation EBADMSG :: int where "EBADMSG \<equiv> 74"
abbreviation EMSGSIZE :: int where "EMSGSIZE \<equiv> 90"
abbreviation EPROTONOSUPPORT :: int where "EPROTONOSUPPORT \<equiv> 93"
abbreviation ENOBUFS :: int where "ENOBUFS \<equiv> 105"
abbreviation ENOTCONN :: int where "ENOTCONN \<equiv> 107"
abbreviation ETIMEDOUT :: int where "ETIMEDOUT \<equiv> 110"
abbreviation ESTALE :: int where "ESTALE \<equiv> 116"

subsection \<open>C integer conversions\<close>

text \<open>\<open>(int) x\<close> of a wider signed value, two's complement.\<close>

definition c_int :: "int \<Rightarrow> int" where
  "c_int x = signed_take_bit 31 x"

lemma c_int_small: "- (2 ^ 31) \<le> x \<Longrightarrow> x < 2 ^ 31 \<Longrightarrow> c_int x = x"
  by (simp add: c_int_def signed_take_bit_int_eq_self)

lemma c_int_0 [simp]: "c_int 0 = 0"
  by (simp add: c_int_def)

text \<open>The results of a call, split into the returned value and the rest.\<close>

lemma call_result: "fst p = r \<Longrightarrow> p = (r, snd p)"
  by (cases p) simp

text \<open>Division and remainder of C truncate towards zero.\<close>

definition c_div :: "int \<Rightarrow> int \<Rightarrow> int" where
  "c_div a b = sgn a * sgn b * (\<bar>a\<bar> div \<bar>b\<bar>)"

definition c_mod :: "int \<Rightarrow> int \<Rightarrow> int" where
  "c_mod a b = a - c_div a b * b"

lemma c_div_nonneg: "0 \<le> a \<Longrightarrow> 0 < b \<Longrightarrow> c_div a b = a div b"
  by (cases "a = 0") (simp_all add: c_div_def)

lemma c_mod_nonneg: "0 \<le> a \<Longrightarrow> 0 < b \<Longrightarrow> c_mod a b = a mod b"
  by (simp add: c_mod_def c_div_nonneg minus_div_mult_eq_mod)

subsection \<open>Buffers\<close>

definition poke :: "nat \<Rightarrow> 'a list \<Rightarrow> 'a list \<Rightarrow> 'a list" where
  "poke off src dst = take off dst @ src @ drop (off + length src) dst"

definition peek :: "nat \<Rightarrow> nat \<Rightarrow> 'a list \<Rightarrow> 'a list" where
  "peek off n xs = take n (drop off xs)"

lemma length_poke [simp]:
  "off + length src \<le> length dst \<Longrightarrow> length (poke off src dst) = length dst"
  by (simp add: poke_def)

lemma length_peek [simp]: "off + n \<le> length xs \<Longrightarrow> length (peek off n xs) = n"
  by (simp add: peek_def)

lemma peek_poke_same [simp]:
  "off + length src \<le> length dst \<Longrightarrow> peek off (length src) (poke off src dst) = src"
  by (simp add: poke_def peek_def)

lemma nth_poke:
  assumes "off + length src \<le> length dst" "i < length dst"
  shows "poke off src dst ! i =
    (if off \<le> i \<and> i < off + length src then src ! (i - off) else dst ! i)"
  using assms by (auto simp: poke_def nth_append min_def)

lemma take_poke_end: "off \<le> length dst \<Longrightarrow>
    take (off + length src) (poke off src dst) = take off dst @ src"
  by (simp add: poke_def min_def)

lemma take_poke_before: "n \<le> off \<Longrightarrow> off \<le> length dst \<Longrightarrow> take n (poke off src dst) = take n dst"
  by (simp add: poke_def min_def)

lemma poke_nil [simp]: "off \<le> length dst \<Longrightarrow> poke off [] dst = dst"
  by (simp add: poke_def)

lemma nth_peek: "i < n \<Longrightarrow> off + n \<le> length xs \<Longrightarrow> peek off n xs ! i = xs ! (off + i)"
  by (simp add: peek_def)

text \<open>A read at an offset sees only the bytes it covers.\<close>

lemma peek_poke_disjoint:
  assumes "off + length src \<le> length dst" "p + n \<le> length dst"
    and "p + n \<le> off \<or> off + length src \<le> p"
  shows "peek p n (poke off src dst) = peek p n dst"
proof (rule nth_equalityI)
  show "length (peek p n (poke off src dst)) = length (peek p n dst)"
    using assms by simp
next
  fix i
  assume "i < length (peek p n (poke off src dst))"
  then have "i < n"
    using assms by simp
  with assms show "peek p n (poke off src dst) ! i = peek p n dst ! i"
    by (auto simp: nth_peek nth_poke)
qed

end
