(* ===== verification/Wire.thy ===== *)
theory Wire
  imports Prelude
begin

section \<open>The wire format (\<^verbatim>\<open>src/raspike_protocol_com.h\<close>)\<close>

text \<open>
  The constants of protocol version 2 and of the legacy frames, the command identifiers, the
  little-endian accessors, the CRC, and the packed structures that travel as payloads, each with
  its byte layout. A C pointer into a buffer is the buffer and an offset. Structures are read
  and written with \<^verbatim>\<open>memcpy\<close> on a little-endian host (the Raspberry Pi), so their
  images are the little-endian encodings of their fields in order.
\<close>

subsection \<open>Frame constants\<close>

definition RP_CMD_INIT :: byte where [simp]: "RP_CMD_INIT = 0xAE"
definition RP_CMD_START :: byte where [simp]: "RP_CMD_START = 0xEA"
definition RP_CMD_INIT_MAGIC :: byte where [simp]: "RP_CMD_INIT_MAGIC = 0xCE"

definition RP_V2_START :: byte where [simp]: "RP_V2_START = 0xEB"
definition RP_V2_VERSION :: byte where [simp]: "RP_V2_VERSION = 2"
definition RP_V2_HEADER_SIZE :: nat where [simp]: "RP_V2_HEADER_SIZE = 14"
definition RP_V2_CRC_SIZE :: nat where [simp]: "RP_V2_CRC_SIZE = 2"
definition RP_V2_FRAME_OVERHEAD :: nat where
  [simp]: "RP_V2_FRAME_OVERHEAD = RP_V2_HEADER_SIZE + RP_V2_CRC_SIZE"
definition RP_V2_MAX_PAYLOAD :: nat where [simp]: "RP_V2_MAX_PAYLOAD = 240"

definition RP_V2_OFFSET_VERSION :: nat where [simp]: "RP_V2_OFFSET_VERSION = 1"
definition RP_V2_OFFSET_FLAGS :: nat where [simp]: "RP_V2_OFFSET_FLAGS = 2"
definition RP_V2_OFFSET_CMD :: nat where [simp]: "RP_V2_OFFSET_CMD = 3"
definition RP_V2_OFFSET_PORT :: nat where [simp]: "RP_V2_OFFSET_PORT = 4"
definition RP_V2_OFFSET_SIZE :: nat where [simp]: "RP_V2_OFFSET_SIZE = 5"
definition RP_V2_OFFSET_SEQUENCE :: nat where [simp]: "RP_V2_OFFSET_SEQUENCE = 6"
definition RP_V2_OFFSET_SESSION :: nat where [simp]: "RP_V2_OFFSET_SESSION = 10"
definition RP_V2_OFFSET_PAYLOAD :: nat where [simp]: "RP_V2_OFFSET_PAYLOAD = 14"

definition RP_V2_FLAG_ACK :: byte where [simp]: "RP_V2_FLAG_ACK = 1"
definition RP_V2_FLAG_ERROR :: byte where [simp]: "RP_V2_FLAG_ERROR = 2"
definition RP_V2_FLAG_HIGH_PRIORITY :: byte where [simp]: "RP_V2_FLAG_HIGH_PRIORITY = 4"
definition RP_V2_FLAG_TELEMETRY :: byte where [simp]: "RP_V2_FLAG_TELEMETRY = 8"

definition RP_V2_CAP_FRAMING :: u32 where [simp]: "RP_V2_CAP_FRAMING = 1"
definition RP_V2_CAP_SEQUENCE :: u32 where [simp]: "RP_V2_CAP_SEQUENCE = 2"
definition RP_V2_CAP_SESSION :: u32 where [simp]: "RP_V2_CAP_SESSION = 4"
definition RP_V2_CAP_CRC16 :: u32 where [simp]: "RP_V2_CAP_CRC16 = 8"
definition RP_V2_CAP_IDEMPOTENT_CONFIG :: u32 where [simp]: "RP_V2_CAP_IDEMPOTENT_CONFIG = 16"
definition RP_V2_CAP_SOFT_RESET :: u32 where [simp]: "RP_V2_CAP_SOFT_RESET = 32"
definition RP_V2_CAP_BATCHED_TX :: u32 where [simp]: "RP_V2_CAP_BATCHED_TX = 64"
definition RP_V2_CAP_LINK_STATS :: u32 where [simp]: "RP_V2_CAP_LINK_STATS = 128"
definition RP_V2_CAPABILITIES :: u32 where
  "RP_V2_CAPABILITIES = RP_V2_CAP_FRAMING OR RP_V2_CAP_SEQUENCE OR RP_V2_CAP_SESSION OR
     RP_V2_CAP_CRC16 OR RP_V2_CAP_IDEMPOTENT_CONFIG OR RP_V2_CAP_SOFT_RESET OR
     RP_V2_CAP_BATCHED_TX OR RP_V2_CAP_LINK_STATS"

definition RP_V2_HELLO_PAYLOAD_SIZE :: nat where [simp]: "RP_V2_HELLO_PAYLOAD_SIZE = 12"
definition RP_V2_STATS_PAYLOAD_SIZE :: nat where [simp]: "RP_V2_STATS_PAYLOAD_SIZE = 32"

text \<open>The codes a hub reports; none is looked at by the library.\<close>

definition RP_LINK_OK :: int where [simp]: "RP_LINK_OK = 0"
definition RP_LINK_ERR_INVALID_PORT :: int where [simp]: "RP_LINK_ERR_INVALID_PORT = -1"
definition RP_LINK_ERR_INVALID_SIZE :: int where [simp]: "RP_LINK_ERR_INVALID_SIZE = -2"
definition RP_LINK_ERR_CRC :: int where [simp]: "RP_LINK_ERR_CRC = -3"
definition RP_LINK_ERR_SESSION :: int where [simp]: "RP_LINK_ERR_SESSION = -4"
definition RP_LINK_ERR_UNSUPPORTED :: int where [simp]: "RP_LINK_ERR_UNSUPPORTED = -5"
definition RP_LINK_ERR_DEVICE_CONFLICT :: int where [simp]: "RP_LINK_ERR_DEVICE_CONFLICT = -6"
definition RP_LINK_ERR_TIMEOUT :: int where [simp]: "RP_LINK_ERR_TIMEOUT = -7"

text \<open>The capabilities fill the byte of the hello that carries them, and each has a bit of its own.\<close>

lemma capabilities_byte:
  "RP_V2_CAPABILITIES = 0xFF"
  "ucast (ucast RP_V2_CAPABILITIES :: byte) = RP_V2_CAPABILITIES"
  "RP_V2_CAPABILITIES AND RP_V2_CAP_FRAMING \<noteq> 0"
  by (simp_all add: RP_V2_CAPABILITIES_def)

subsection \<open>Command identifiers\<close>

text \<open>\<^verbatim>\<open>MAKE_CMD\<close>: the device type in the upper three bits, the index in the lower five.\<close>

definition MAKE_CMD :: "byte \<Rightarrow> byte \<Rightarrow> byte" where
  "MAKE_CMD t i = push_bit 5 t OR i"

definition GET_CMD_TYPE :: "byte \<Rightarrow> byte" where "GET_CMD_TYPE cmd = drop_bit 5 cmd"
definition GET_CMD_INDEX :: "byte \<Rightarrow> byte" where "GET_CMD_INDEX cmd = cmd AND 0x1f"

definition RP_CMD_TYPE_SYS :: byte where "RP_CMD_TYPE_SYS = 0"
definition RP_CMD_TYPE_COLOR :: byte where "RP_CMD_TYPE_COLOR = 1"
definition RP_CMD_TYPE_FORCE :: byte where "RP_CMD_TYPE_FORCE = 2"
definition RP_CMD_TYPE_MOTOR :: byte where "RP_CMD_TYPE_MOTOR = 3"
definition RP_CMD_TYPE_US :: byte where "RP_CMD_TYPE_US = 4"
definition RP_CMD_TYPE_HUB :: byte where "RP_CMD_TYPE_HUB = 5"

lemmas cmd_type_defs =
  RP_CMD_TYPE_SYS_def RP_CMD_TYPE_COLOR_def RP_CMD_TYPE_FORCE_def
  RP_CMD_TYPE_MOTOR_def RP_CMD_TYPE_US_def RP_CMD_TYPE_HUB_def

definition RP_PORT_NONE :: byte where [simp]: "RP_PORT_NONE = 255"

definition RP_CMD_ID_LINK_HELLO :: byte where "RP_CMD_ID_LINK_HELLO = MAKE_CMD RP_CMD_TYPE_SYS 0x8"
definition RP_CMD_ID_LINK_PING :: byte where "RP_CMD_ID_LINK_PING = MAKE_CMD RP_CMD_TYPE_SYS 0x9"
definition RP_CMD_ID_LINK_STATS :: byte where "RP_CMD_ID_LINK_STATS = MAKE_CMD RP_CMD_TYPE_SYS 0xA"
definition RP_CMD_ID_DRIVE_TELEMETRY :: byte where "RP_CMD_ID_DRIVE_TELEMETRY = MAKE_CMD RP_CMD_TYPE_SYS 0xC"
definition RP_CMD_ID_RUNTIME_FAULT :: byte where "RP_CMD_ID_RUNTIME_FAULT = MAKE_CMD RP_CMD_TYPE_SYS 0xD"
definition RP_CMD_ID_RUNTIME_TELEMETRY :: byte where "RP_CMD_ID_RUNTIME_TELEMETRY = MAKE_CMD RP_CMD_TYPE_SYS 0xE"
definition RP_CMD_ID_ALL_STATUS :: byte where "RP_CMD_ID_ALL_STATUS = MAKE_CMD RP_CMD_TYPE_SYS 0x1"
definition RP_CMD_ID_ACK :: byte where "RP_CMD_ID_ACK = MAKE_CMD RP_CMD_TYPE_SYS 0x2"
definition RP_CMD_ID_SHT_DWN :: byte where "RP_CMD_ID_SHT_DWN = MAKE_CMD RP_CMD_TYPE_SYS 0x3"
definition RP_CMD_ID_SOFT_RST :: byte where "RP_CMD_ID_SOFT_RST = MAKE_CMD RP_CMD_TYPE_SYS 0x4"
definition RP_CMD_ID_UPDATE_MODE :: byte where "RP_CMD_ID_UPDATE_MODE = MAKE_CMD RP_CMD_TYPE_SYS 0xB"
definition RP_CMD_ID_DRIVE_CONFIG :: byte where "RP_CMD_ID_DRIVE_CONFIG = MAKE_CMD RP_CMD_TYPE_SYS 0x5"
definition RP_CMD_ID_DRIVE_COMMAND :: byte where "RP_CMD_ID_DRIVE_COMMAND = MAKE_CMD RP_CMD_TYPE_SYS 0x6"
definition RP_CMD_ID_COL_CFG :: byte where "RP_CMD_ID_COL_CFG = MAKE_CMD RP_CMD_TYPE_COLOR 0x0"
definition RP_CMD_ID_COL_RGB :: byte where "RP_CMD_ID_COL_RGB = MAKE_CMD RP_CMD_TYPE_COLOR 0x1"
definition RP_CMD_ID_COL_COL :: byte where "RP_CMD_ID_COL_COL = MAKE_CMD RP_CMD_TYPE_COLOR 0x2"
definition RP_CMD_ID_COL_COL_SUR_OFF :: byte where "RP_CMD_ID_COL_COL_SUR_OFF = MAKE_CMD RP_CMD_TYPE_COLOR 0x3"
definition RP_CMD_ID_COL_HSV :: byte where "RP_CMD_ID_COL_HSV = MAKE_CMD RP_CMD_TYPE_COLOR 0x4"
definition RP_CMD_ID_COL_HSV_SUR_OFF :: byte where "RP_CMD_ID_COL_HSV_SUR_OFF = MAKE_CMD RP_CMD_TYPE_COLOR 0x5"
definition RP_CMD_ID_COL_REF :: byte where "RP_CMD_ID_COL_REF = MAKE_CMD RP_CMD_TYPE_COLOR 0x6"
definition RP_CMD_ID_COL_AMB :: byte where "RP_CMD_ID_COL_AMB = MAKE_CMD RP_CMD_TYPE_COLOR 0x7"
definition RP_CMD_ID_COL_LIGHT_SET :: byte where "RP_CMD_ID_COL_LIGHT_SET = MAKE_CMD RP_CMD_TYPE_COLOR 0x8"
definition RP_CMD_ID_COL_LIGHT_ON :: byte where "RP_CMD_ID_COL_LIGHT_ON = MAKE_CMD RP_CMD_TYPE_COLOR 0x9"
definition RP_CMD_ID_COL_LIGHT_OFF :: byte where "RP_CMD_ID_COL_LIGHT_OFF = MAKE_CMD RP_CMD_TYPE_COLOR 0xa"
definition RP_CMD_ID_COL_DETECTABLE_COL :: byte where "RP_CMD_ID_COL_DETECTABLE_COL = MAKE_CMD RP_CMD_TYPE_COLOR 0xb"
definition RP_CMD_ID_FRC_CFG :: byte where "RP_CMD_ID_FRC_CFG = MAKE_CMD RP_CMD_TYPE_FORCE 0x0"
definition RP_CMD_ID_FRC_FRC :: byte where "RP_CMD_ID_FRC_FRC = MAKE_CMD RP_CMD_TYPE_FORCE 0x1"
definition RP_CMD_ID_FRC_DST :: byte where "RP_CMD_ID_FRC_DST = MAKE_CMD RP_CMD_TYPE_FORCE 0x2"
definition RP_CMD_ID_FRC_PRS :: byte where "RP_CMD_ID_FRC_PRS = MAKE_CMD RP_CMD_TYPE_FORCE 0x3"
definition RP_CMD_ID_FRC_TCH :: byte where "RP_CMD_ID_FRC_TCH = MAKE_CMD RP_CMD_TYPE_FORCE 0x4"
definition RP_CMD_ID_MOT_CFG :: byte where "RP_CMD_ID_MOT_CFG = MAKE_CMD RP_CMD_TYPE_MOTOR 0x0"
definition RP_CMD_ID_MOT_STU :: byte where "RP_CMD_ID_MOT_STU = MAKE_CMD RP_CMD_TYPE_MOTOR 0x1"
definition RP_CMD_ID_MOT_RST :: byte where "RP_CMD_ID_MOT_RST = MAKE_CMD RP_CMD_TYPE_MOTOR 0x2"
definition RP_CMD_ID_MOT_SPD :: byte where "RP_CMD_ID_MOT_SPD = MAKE_CMD RP_CMD_TYPE_MOTOR 0x3"
definition RP_CMD_ID_MOT_POW :: byte where "RP_CMD_ID_MOT_POW = MAKE_CMD RP_CMD_TYPE_MOTOR 0x4"
definition RP_CMD_ID_MOT_STP :: byte where "RP_CMD_ID_MOT_STP = MAKE_CMD RP_CMD_TYPE_MOTOR 0x5"
definition RP_CMD_ID_MOT_STP_BRK :: byte where "RP_CMD_ID_MOT_STP_BRK = MAKE_CMD RP_CMD_TYPE_MOTOR 0x6"
definition RP_CMD_ID_MOT_STP_HLD :: byte where "RP_CMD_ID_MOT_STP_HLD = MAKE_CMD RP_CMD_TYPE_MOTOR 0x7"
definition RP_CMD_ID_MOT_SET_DTY :: byte where "RP_CMD_ID_MOT_SET_DTY = MAKE_CMD RP_CMD_TYPE_MOTOR 0x8"
definition RP_CMD_ID_MOT_RST_DTY :: byte where "RP_CMD_ID_MOT_RST_DTY = MAKE_CMD RP_CMD_TYPE_MOTOR 0x9"
definition RP_CMD_ID_US_CFG :: byte where "RP_CMD_ID_US_CFG = MAKE_CMD RP_CMD_TYPE_US 0x0"
definition RP_CMD_ID_US_DST :: byte where "RP_CMD_ID_US_DST = MAKE_CMD RP_CMD_TYPE_US 0x1"
definition RP_CMD_ID_US_PRC :: byte where "RP_CMD_ID_US_PRC = MAKE_CMD RP_CMD_TYPE_US 0x2"
definition RP_CMD_ID_US_LGT_SET :: byte where "RP_CMD_ID_US_LGT_SET = MAKE_CMD RP_CMD_TYPE_US 0x3"
definition RP_CMD_ID_US_LGT_ON :: byte where "RP_CMD_ID_US_LGT_ON = MAKE_CMD RP_CMD_TYPE_US 0x4"
definition RP_CMD_ID_US_LGT_OFF :: byte where "RP_CMD_ID_US_LGT_OFF = MAKE_CMD RP_CMD_TYPE_US 0x5"
definition RP_CMD_ID_HUB_DISP_ORI :: byte where "RP_CMD_ID_HUB_DISP_ORI = MAKE_CMD RP_CMD_TYPE_HUB 0x1"
definition RP_CMD_ID_HUB_DISP_OFF :: byte where "RP_CMD_ID_HUB_DISP_OFF = MAKE_CMD RP_CMD_TYPE_HUB 0x2"
definition RP_CMD_ID_HUB_DISP_PIX :: byte where "RP_CMD_ID_HUB_DISP_PIX = MAKE_CMD RP_CMD_TYPE_HUB 0x3"
definition RP_CMD_ID_HUB_DISP_IMG :: byte where "RP_CMD_ID_HUB_DISP_IMG = MAKE_CMD RP_CMD_TYPE_HUB 0x4"
definition RP_CMD_ID_HUB_DISP_NUM :: byte where "RP_CMD_ID_HUB_DISP_NUM = MAKE_CMD RP_CMD_TYPE_HUB 0x5"
definition RP_CMD_ID_HUB_DISP_CHR :: byte where "RP_CMD_ID_HUB_DISP_CHR = MAKE_CMD RP_CMD_TYPE_HUB 0x6"
definition RP_CMD_ID_HUB_DISP_TXT :: byte where "RP_CMD_ID_HUB_DISP_TXT = MAKE_CMD RP_CMD_TYPE_HUB 0x7"
definition RP_CMD_ID_HUB_DISP_TXT_SCR :: byte where "RP_CMD_ID_HUB_DISP_TXT_SCR = MAKE_CMD RP_CMD_TYPE_HUB 0x8"
definition RP_CMD_ID_HUB_LGT_ON_HSV :: byte where "RP_CMD_ID_HUB_LGT_ON_HSV = MAKE_CMD RP_CMD_TYPE_HUB 0xa"
definition RP_CMD_ID_HUB_LGT_ON_COL :: byte where "RP_CMD_ID_HUB_LGT_ON_COL = MAKE_CMD RP_CMD_TYPE_HUB 0xb"
definition RP_CMD_ID_HUB_LGT_OFF :: byte where "RP_CMD_ID_HUB_LGT_OFF = MAKE_CMD RP_CMD_TYPE_HUB 0xc"
definition RP_CMD_ID_HUB_SPK_SET_VOL :: byte where "RP_CMD_ID_HUB_SPK_SET_VOL = MAKE_CMD RP_CMD_TYPE_HUB 0x11"
definition RP_CMD_ID_HUB_SPK_PLY_TON :: byte where "RP_CMD_ID_HUB_SPK_PLY_TON = MAKE_CMD RP_CMD_TYPE_HUB 0x12"
definition RP_CMD_ID_HUB_SPK_STP :: byte where "RP_CMD_ID_HUB_SPK_STP = MAKE_CMD RP_CMD_TYPE_HUB 0x13"
definition RP_CMD_ID_HUB_IMU_SET_TLT :: byte where "RP_CMD_ID_HUB_IMU_SET_TLT = MAKE_CMD RP_CMD_TYPE_HUB 0x14"
definition RP_CMD_ID_HUB_IMU_RST_HDG :: byte where "RP_CMD_ID_HUB_IMU_RST_HDG = MAKE_CMD RP_CMD_TYPE_HUB 0x15"

lemmas cmd_id_defs =
  RP_CMD_ID_LINK_HELLO_def RP_CMD_ID_LINK_PING_def RP_CMD_ID_LINK_STATS_def
  RP_CMD_ID_DRIVE_TELEMETRY_def RP_CMD_ID_RUNTIME_FAULT_def RP_CMD_ID_RUNTIME_TELEMETRY_def
  RP_CMD_ID_ALL_STATUS_def RP_CMD_ID_ACK_def RP_CMD_ID_SHT_DWN_def RP_CMD_ID_SOFT_RST_def
  RP_CMD_ID_UPDATE_MODE_def RP_CMD_ID_DRIVE_CONFIG_def RP_CMD_ID_DRIVE_COMMAND_def
  RP_CMD_ID_COL_CFG_def RP_CMD_ID_COL_RGB_def RP_CMD_ID_COL_COL_def
  RP_CMD_ID_COL_COL_SUR_OFF_def RP_CMD_ID_COL_HSV_def RP_CMD_ID_COL_HSV_SUR_OFF_def
  RP_CMD_ID_COL_REF_def RP_CMD_ID_COL_AMB_def RP_CMD_ID_COL_LIGHT_SET_def
  RP_CMD_ID_COL_LIGHT_ON_def RP_CMD_ID_COL_LIGHT_OFF_def RP_CMD_ID_COL_DETECTABLE_COL_def
  RP_CMD_ID_FRC_CFG_def RP_CMD_ID_FRC_FRC_def RP_CMD_ID_FRC_DST_def RP_CMD_ID_FRC_PRS_def
  RP_CMD_ID_FRC_TCH_def RP_CMD_ID_MOT_CFG_def RP_CMD_ID_MOT_STU_def RP_CMD_ID_MOT_RST_def
  RP_CMD_ID_MOT_SPD_def RP_CMD_ID_MOT_POW_def RP_CMD_ID_MOT_STP_def RP_CMD_ID_MOT_STP_BRK_def
  RP_CMD_ID_MOT_STP_HLD_def RP_CMD_ID_MOT_SET_DTY_def RP_CMD_ID_MOT_RST_DTY_def
  RP_CMD_ID_US_CFG_def RP_CMD_ID_US_DST_def RP_CMD_ID_US_PRC_def RP_CMD_ID_US_LGT_SET_def
  RP_CMD_ID_US_LGT_ON_def RP_CMD_ID_US_LGT_OFF_def RP_CMD_ID_HUB_DISP_ORI_def
  RP_CMD_ID_HUB_DISP_OFF_def RP_CMD_ID_HUB_DISP_PIX_def RP_CMD_ID_HUB_DISP_IMG_def
  RP_CMD_ID_HUB_DISP_NUM_def RP_CMD_ID_HUB_DISP_CHR_def RP_CMD_ID_HUB_DISP_TXT_def
  RP_CMD_ID_HUB_DISP_TXT_SCR_def RP_CMD_ID_HUB_LGT_ON_HSV_def RP_CMD_ID_HUB_LGT_ON_COL_def
  RP_CMD_ID_HUB_LGT_OFF_def RP_CMD_ID_HUB_SPK_SET_VOL_def RP_CMD_ID_HUB_SPK_PLY_TON_def
  RP_CMD_ID_HUB_SPK_STP_def RP_CMD_ID_HUB_IMU_SET_TLT_def RP_CMD_ID_HUB_IMU_RST_HDG_def

lemma cmd_id_values [simp]:
  "RP_CMD_ID_LINK_HELLO = 0x8"
  "RP_CMD_ID_LINK_PING = 0x9"
  "RP_CMD_ID_LINK_STATS = 0xa"
  "RP_CMD_ID_DRIVE_TELEMETRY = 0xc"
  "RP_CMD_ID_RUNTIME_FAULT = 0xd"
  "RP_CMD_ID_RUNTIME_TELEMETRY = 0xe"
  "RP_CMD_ID_ALL_STATUS = 0x1"
  "RP_CMD_ID_ACK = 0x2"
  "RP_CMD_ID_SHT_DWN = 0x3"
  "RP_CMD_ID_SOFT_RST = 0x4"
  "RP_CMD_ID_UPDATE_MODE = 0xb"
  "RP_CMD_ID_DRIVE_CONFIG = 0x5"
  "RP_CMD_ID_DRIVE_COMMAND = 0x6"
  "RP_CMD_ID_COL_CFG = 0x20"
  "RP_CMD_ID_COL_RGB = 0x21"
  "RP_CMD_ID_COL_COL = 0x22"
  "RP_CMD_ID_COL_COL_SUR_OFF = 0x23"
  "RP_CMD_ID_COL_HSV = 0x24"
  "RP_CMD_ID_COL_HSV_SUR_OFF = 0x25"
  "RP_CMD_ID_COL_REF = 0x26"
  "RP_CMD_ID_COL_AMB = 0x27"
  "RP_CMD_ID_COL_LIGHT_SET = 0x28"
  "RP_CMD_ID_COL_LIGHT_ON = 0x29"
  "RP_CMD_ID_COL_LIGHT_OFF = 0x2a"
  "RP_CMD_ID_COL_DETECTABLE_COL = 0x2b"
  "RP_CMD_ID_FRC_CFG = 0x40"
  "RP_CMD_ID_FRC_FRC = 0x41"
  "RP_CMD_ID_FRC_DST = 0x42"
  "RP_CMD_ID_FRC_PRS = 0x43"
  "RP_CMD_ID_FRC_TCH = 0x44"
  "RP_CMD_ID_MOT_CFG = 0x60"
  "RP_CMD_ID_MOT_STU = 0x61"
  "RP_CMD_ID_MOT_RST = 0x62"
  "RP_CMD_ID_MOT_SPD = 0x63"
  "RP_CMD_ID_MOT_POW = 0x64"
  "RP_CMD_ID_MOT_STP = 0x65"
  "RP_CMD_ID_MOT_STP_BRK = 0x66"
  "RP_CMD_ID_MOT_STP_HLD = 0x67"
  "RP_CMD_ID_MOT_SET_DTY = 0x68"
  "RP_CMD_ID_MOT_RST_DTY = 0x69"
  "RP_CMD_ID_US_CFG = 0x80"
  "RP_CMD_ID_US_DST = 0x81"
  "RP_CMD_ID_US_PRC = 0x82"
  "RP_CMD_ID_US_LGT_SET = 0x83"
  "RP_CMD_ID_US_LGT_ON = 0x84"
  "RP_CMD_ID_US_LGT_OFF = 0x85"
  "RP_CMD_ID_HUB_DISP_ORI = 0xa1"
  "RP_CMD_ID_HUB_DISP_OFF = 0xa2"
  "RP_CMD_ID_HUB_DISP_PIX = 0xa3"
  "RP_CMD_ID_HUB_DISP_IMG = 0xa4"
  "RP_CMD_ID_HUB_DISP_NUM = 0xa5"
  "RP_CMD_ID_HUB_DISP_CHR = 0xa6"
  "RP_CMD_ID_HUB_DISP_TXT = 0xa7"
  "RP_CMD_ID_HUB_DISP_TXT_SCR = 0xa8"
  "RP_CMD_ID_HUB_LGT_ON_HSV = 0xaa"
  "RP_CMD_ID_HUB_LGT_ON_COL = 0xab"
  "RP_CMD_ID_HUB_LGT_OFF = 0xac"
  "RP_CMD_ID_HUB_SPK_SET_VOL = 0xb1"
  "RP_CMD_ID_HUB_SPK_PLY_TON = 0xb2"
  "RP_CMD_ID_HUB_SPK_STP = 0xb3"
  "RP_CMD_ID_HUB_IMU_SET_TLT = 0xb4"
  "RP_CMD_ID_HUB_IMU_RST_HDG = 0xb5"
  by (simp_all add: cmd_id_defs MAKE_CMD_def cmd_type_defs)

text \<open>All command identifiers, for the statement that no two coincide.\<close>

definition all_cmd_ids :: "byte list" where
  "all_cmd_ids =
    [RP_CMD_ID_LINK_HELLO, RP_CMD_ID_LINK_PING, RP_CMD_ID_LINK_STATS,
     RP_CMD_ID_DRIVE_TELEMETRY, RP_CMD_ID_RUNTIME_FAULT, RP_CMD_ID_RUNTIME_TELEMETRY,
     RP_CMD_ID_ALL_STATUS, RP_CMD_ID_ACK, RP_CMD_ID_SHT_DWN, RP_CMD_ID_SOFT_RST,
     RP_CMD_ID_UPDATE_MODE, RP_CMD_ID_DRIVE_CONFIG, RP_CMD_ID_DRIVE_COMMAND,
     RP_CMD_ID_COL_CFG, RP_CMD_ID_COL_RGB, RP_CMD_ID_COL_COL, RP_CMD_ID_COL_COL_SUR_OFF,
     RP_CMD_ID_COL_HSV, RP_CMD_ID_COL_HSV_SUR_OFF, RP_CMD_ID_COL_REF, RP_CMD_ID_COL_AMB,
     RP_CMD_ID_COL_LIGHT_SET, RP_CMD_ID_COL_LIGHT_ON, RP_CMD_ID_COL_LIGHT_OFF,
     RP_CMD_ID_COL_DETECTABLE_COL, RP_CMD_ID_FRC_CFG, RP_CMD_ID_FRC_FRC, RP_CMD_ID_FRC_DST,
     RP_CMD_ID_FRC_PRS, RP_CMD_ID_FRC_TCH, RP_CMD_ID_MOT_CFG, RP_CMD_ID_MOT_STU,
     RP_CMD_ID_MOT_RST, RP_CMD_ID_MOT_SPD, RP_CMD_ID_MOT_POW, RP_CMD_ID_MOT_STP,
     RP_CMD_ID_MOT_STP_BRK, RP_CMD_ID_MOT_STP_HLD, RP_CMD_ID_MOT_SET_DTY,
     RP_CMD_ID_MOT_RST_DTY, RP_CMD_ID_US_CFG, RP_CMD_ID_US_DST, RP_CMD_ID_US_PRC,
     RP_CMD_ID_US_LGT_SET, RP_CMD_ID_US_LGT_ON, RP_CMD_ID_US_LGT_OFF,
     RP_CMD_ID_HUB_DISP_ORI, RP_CMD_ID_HUB_DISP_OFF, RP_CMD_ID_HUB_DISP_PIX,
     RP_CMD_ID_HUB_DISP_IMG, RP_CMD_ID_HUB_DISP_NUM, RP_CMD_ID_HUB_DISP_CHR,
     RP_CMD_ID_HUB_DISP_TXT, RP_CMD_ID_HUB_DISP_TXT_SCR, RP_CMD_ID_HUB_LGT_ON_HSV,
     RP_CMD_ID_HUB_LGT_ON_COL, RP_CMD_ID_HUB_LGT_OFF, RP_CMD_ID_HUB_SPK_SET_VOL,
     RP_CMD_ID_HUB_SPK_PLY_TON, RP_CMD_ID_HUB_SPK_STP, RP_CMD_ID_HUB_IMU_SET_TLT,
     RP_CMD_ID_HUB_IMU_RST_HDG]"

subsection \<open>Little-endian accessors\<close>

definition rp_v2_get_u16 :: "byte list \<Rightarrow> nat \<Rightarrow> u16" where
  "rp_v2_get_u16 buf p = ucast (buf ! p) OR push_bit 8 (ucast (buf ! (p + 1)))"

definition rp_v2_get_u32 :: "byte list \<Rightarrow> nat \<Rightarrow> u32" where
  "rp_v2_get_u32 buf p =
     ucast (buf ! p) OR push_bit 8 (ucast (buf ! (p + 1)))
     OR push_bit 16 (ucast (buf ! (p + 2)))
     OR push_bit 24 (ucast (buf ! (p + 3)))"

definition rp_v2_put_u16 :: "nat \<Rightarrow> u16 \<Rightarrow> byte list \<Rightarrow> byte list" where
  "rp_v2_put_u16 p value buf =
     buf[p := ucast (value AND 0xff),
         p + 1 := ucast (drop_bit 8 value AND 0xff)]"

definition rp_v2_put_u32 :: "nat \<Rightarrow> u32 \<Rightarrow> byte list \<Rightarrow> byte list" where
  "rp_v2_put_u32 p value buf =
     buf[p := ucast (value AND 0xff),
         p + 1 := ucast (drop_bit 8 value AND 0xff),
         p + 2 := ucast (drop_bit 16 value AND 0xff),
         p + 3 := ucast (drop_bit 24 value AND 0xff)]"

text \<open>The bytes of a value in memory, and the specification of the accessors by them.\<close>

definition le16 :: "u16 \<Rightarrow> byte list" where
  "le16 w = [ucast w, ucast (drop_bit 8 w)]"

definition le32 :: "u32 \<Rightarrow> byte list" where
  "le32 w = [ucast w, ucast (drop_bit 8 w),
             ucast (drop_bit 16 w), ucast (drop_bit 24 w)]"

lemma length_le16 [simp, wire]: "length (le16 w) = 2"
  by (simp add: le16_def)

lemma length_le32 [simp, wire]: "length (le32 w) = 4"
  by (simp add: le32_def)

lemma mask_byte: "(255 :: 'a::len word) = mask 8"
  by (simp add: mask_eq_exp_minus_1)

lemma ucast_and_ff [simp]: "(ucast (w AND 255 :: 'a::len word) :: byte) = ucast w"
  by (rule bit_word_eqI) (auto simp: bit_simps mask_byte dest: bit_imp_le_length)

lemma put_u16_poke [wire]: "p + 2 \<le> length buf \<Longrightarrow> rp_v2_put_u16 p w buf = poke p (le16 w) buf"
  by (rule nth_equalityI)
    (auto simp: rp_v2_put_u16_def le16_def nth_poke nth_list_update nth_Cons')

lemma put_u32_poke [wire]: "p + 4 \<le> length buf \<Longrightarrow> rp_v2_put_u32 p w buf = poke p (le32 w) buf"
  by (rule nth_equalityI)
    (auto simp: rp_v2_put_u32_def le32_def nth_poke nth_list_update nth_Cons')

lemma get_u16_bytes [simp, wire]: "rp_v2_get_u16 (xs @ le16 w @ ys) (length xs) = w"
  by (rule bit_word_eqI) (auto simp: rp_v2_get_u16_def le16_def nth_append bit_simps)

lemma join_bytes16:
  "ucast (ucast w :: byte) OR push_bit 8 (ucast (ucast (drop_bit 8 w) :: byte)) = (w :: u16)"
  by (rule bit_word_eqI) (auto simp: bit_simps)

lemma join_bytes32:
  "ucast (ucast w :: byte) OR push_bit 8 (ucast (ucast (drop_bit 8 w) :: byte))
   OR push_bit 16 (ucast (ucast (drop_bit 16 w) :: byte))
   OR push_bit 24 (ucast (ucast (drop_bit 24 w) :: byte)) = (w :: u32)"
proof (rule bit_word_eqI)
  fix n
  assume "n < LENGTH(32)"
  then consider "n < 8" | "8 \<le> n" "n < 16" | "16 \<le> n" "n < 24" | "24 \<le> n" "n < 32"
    by fastforce
  then show "bit ((ucast (ucast w :: byte) :: u32) OR push_bit 8 (ucast (ucast (drop_bit 8 w) :: byte))
      OR push_bit 16 (ucast (ucast (drop_bit 16 w) :: byte))
      OR push_bit 24 (ucast (ucast (drop_bit 24 w) :: byte))) n = bit w n"
    by cases (auto simp: bit_simps)
qed

lemma get_u32_bytes [simp, wire]: "rp_v2_get_u32 (xs @ le32 w @ ys) (length xs) = w"
  by (simp add: rp_v2_get_u32_def le32_def nth_append join_bytes32)

lemma bit_byte_high [simp]:
  "\<not> bit (b :: byte) (8 + n)" "\<not> bit (b :: byte) (16 + n)" "\<not> bit (b :: byte) (24 + n)"
  using bit_imp_le_length [of b] by fastforce+

lemma le16_get: "p + 2 \<le> length buf \<Longrightarrow> le16 (rp_v2_get_u16 buf p) = [buf ! p, buf ! (p + 1)]"
  by (auto simp: le16_def rp_v2_get_u16_def bit_simps intro!: bit_word_eqI
      dest: bit_imp_le_length)

lemma le32_get: "p + 4 \<le> length buf \<Longrightarrow>
    le32 (rp_v2_get_u32 buf p) = [buf ! p, buf ! (p + 1), buf ! (p + 2), buf ! (p + 3)]"
  by (auto simp: le32_def rp_v2_get_u32_def bit_simps intro!: bit_word_eqI
      dest: bit_imp_le_length)

text \<open>A get sees what was put at the same place, whatever the buffer held.\<close>

lemma get_put_u16: "p + 2 \<le> length buf \<Longrightarrow> rp_v2_get_u16 (rp_v2_put_u16 p w buf) p = w"
  using get_u16_bytes [of "take p buf" w "drop (p + 2) buf"]
  by (simp add: put_u16_poke poke_def min_def)

lemma get_put_u32: "p + 4 \<le> length buf \<Longrightarrow> rp_v2_get_u32 (rp_v2_put_u32 p w buf) p = w"
  using get_u32_bytes [of "take p buf" w "drop (p + 4) buf"]
  by (simp add: put_u32_poke poke_def min_def)

subsection \<open>CRC-16\<close>

definition crc16_bit :: "u16 \<Rightarrow> u16" where
  "crc16_bit crc = (if crc AND 0x8000 \<noteq> 0 then push_bit 1 crc XOR 0x1021 else push_bit 1 crc)"

definition crc16_byte :: "u16 \<Rightarrow> byte \<Rightarrow> u16" where
  "crc16_byte crc d = (crc16_bit ^^ 8) (crc XOR push_bit 8 (ucast d))"

definition rp_v2_crc16 :: "byte list \<Rightarrow> u16" where
  "rp_v2_crc16 data = foldl crc16_byte 0xffff data"

subsection \<open>The drive extension\<close>

text \<open>Modes and flags of a drive command, and the bits of a runtime status, as the caller and the hub use
  them.\<close>

definition RP_DRIVE_MODE_SAFE_STOP :: byte where [simp]: "RP_DRIVE_MODE_SAFE_STOP = 0"
definition RP_DRIVE_MODE_PI_CONTROL :: byte where [simp]: "RP_DRIVE_MODE_PI_CONTROL = 1"
definition RP_DRIVE_MODE_HOST_CONTROL :: byte where [simp]: "RP_DRIVE_MODE_HOST_CONTROL = RP_DRIVE_MODE_PI_CONTROL"
definition RP_DRIVE_MODE_HUB_CONTROL :: byte where [simp]: "RP_DRIVE_MODE_HUB_CONTROL = 2"
definition RP_DRIVE_MODE_MANUAL_PWM :: byte where [simp]: "RP_DRIVE_MODE_MANUAL_PWM = 3"
definition RP_DRIVE_MODE_YAW_RATE :: byte where [simp]: "RP_DRIVE_MODE_YAW_RATE = 4"

definition RP_DRIVE_FLAG_ARM :: byte where [simp]: "RP_DRIVE_FLAG_ARM = 1"
definition RP_DRIVE_FLAG_START :: byte where [simp]: "RP_DRIVE_FLAG_START = 2"
definition RP_DRIVE_FLAG_STOP :: byte where [simp]: "RP_DRIVE_FLAG_STOP = 4"

definition RP_DRIVE_STATUS_ARMED :: u32 where [simp]: "RP_DRIVE_STATUS_ARMED = 1"
definition RP_DRIVE_STATUS_RUNNING :: u32 where [simp]: "RP_DRIVE_STATUS_RUNNING = 2"
definition RP_DRIVE_STATUS_WATCHDOG_STOP :: u32 where [simp]: "RP_DRIVE_STATUS_WATCHDOG_STOP = 4"
definition RP_DRIVE_STATUS_PERIOD_OVERRUN :: u32 where [simp]: "RP_DRIVE_STATUS_PERIOD_OVERRUN = 8"
definition RP_DRIVE_STATUS_SENSOR_ERROR :: u32 where [simp]: "RP_DRIVE_STATUS_SENSOR_ERROR = 16"
definition RP_DRIVE_STATUS_TX_RECOVERED :: u32 where [simp]: "RP_DRIVE_STATUS_TX_RECOVERED = 32"

end
