(* ===== verification/Payloads.thy ===== *)
theory Payloads
  imports Wire
begin

section \<open>Payload structures (\<^verbatim>\<open>src/raspike_protocol_com.h\<close>)\<close>

text \<open>
  Each structure the two sides exchange is a record, with the function that lays it out in
  memory (\<open>encode\<close>) and the one that reads it back (\<open>decode\<close>, the \<^verbatim>\<open>memcpy\<close> into a
  structure). A C array of fixed length is a list; the \<open>wf\<close> predicates state the lengths. The
  theorems give the sizes the code compares payload sizes with, and both round trips.
\<close>

subsection \<open>Hub and port status\<close>

definition RASPIKE_PORT_DATA_SIZE :: nat where [simp]: "RASPIKE_PORT_DATA_SIZE = 12"

record port_status =
  ps_port :: byte
  ps_cmd :: byte
  ps_padding :: "byte list"
  ps_data :: "byte list"

record spike_status =
  voltage :: u16
  current :: u16
  acceleration :: "float_bits list"
  angular_velocity :: "float_bits list"
  heading :: float_bits
  is_ready :: u16
  is_statinary :: u16
  button :: u32
  ports :: "port_status list"

definition wf_port_status :: "port_status \<Rightarrow> bool" where
  "wf_port_status p \<longleftrightarrow> length (ps_padding p) = 2 \<and> length (ps_data p) = RASPIKE_PORT_DATA_SIZE"

definition wf_status :: "spike_status \<Rightarrow> bool" where
  "wf_status s \<longleftrightarrow> length (acceleration s) = 3 \<and> length (angular_velocity s) = 3 \<and>
     length (ports s) = 6 \<and> list_all wf_port_status (ports s)"

definition sizeof_port_status :: nat where [simp]: "sizeof_port_status = 16"
definition sizeof_status :: nat where [simp]: "sizeof_status = 136"

definition encode_port :: "port_status \<Rightarrow> byte list" where
  "encode_port p = [ps_port p, ps_cmd p] @ ps_padding p @ ps_data p"

definition decode_port :: "byte list \<Rightarrow> port_status" where
  "decode_port bs = \<lparr>ps_port = bs ! 0, ps_cmd = bs ! 1, ps_padding = peek 2 2 bs,
     ps_data = peek 4 RASPIKE_PORT_DATA_SIZE bs\<rparr>"

definition encode_status :: "spike_status \<Rightarrow> byte list" where
  "encode_status s =
     le16 (voltage s) @ le16 (current s) @ concat (map le32 (acceleration s)) @
     concat (map le32 (angular_velocity s)) @ le32 (heading s) @ le16 (is_ready s) @
     le16 (is_statinary s) @ le32 (button s) @ concat (map encode_port (ports s))"

definition decode_status :: "byte list \<Rightarrow> spike_status" where
  "decode_status bs =
     \<lparr>voltage = rp_v2_get_u16 bs 0, current = rp_v2_get_u16 bs 2,
      acceleration = map (\<lambda>i. rp_v2_get_u32 bs (4 + 4 * i)) [0..<3],
      angular_velocity = map (\<lambda>i. rp_v2_get_u32 bs (16 + 4 * i)) [0..<3],
      heading = rp_v2_get_u32 bs 28, is_ready = rp_v2_get_u16 bs 32,
      is_statinary = rp_v2_get_u16 bs 34, button = rp_v2_get_u32 bs 36,
      ports = map (\<lambda>i. decode_port (peek (40 + 16 * i) 16 bs)) [0..<6]\<rparr>"

text \<open>\<^verbatim>\<open>memset(status, 0, sizeof(*status))\<close> and \<^verbatim>\<open>calloc\<close>.\<close>

definition zero_port :: port_status where
  "zero_port = \<lparr>ps_port = 0, ps_cmd = 0, ps_padding = replicate 2 0,
     ps_data = replicate RASPIKE_PORT_DATA_SIZE 0\<rparr>"

definition zero_status :: spike_status where
  "zero_status = \<lparr>voltage = 0, current = 0, acceleration = replicate 3 0,
     angular_velocity = replicate 3 0, heading = 0, is_ready = 0, is_statinary = 0, button = 0,
     ports = replicate 6 zero_port\<rparr>"

lemma length_encode_port [wire]: "wf_port_status p \<Longrightarrow> length (encode_port p) = sizeof_port_status"
  by (simp add: encode_port_def wf_port_status_def)

lemma decode_encode_port: "wf_port_status p \<Longrightarrow> decode_port (encode_port p) = p"
  by (simp add: decode_port_def encode_port_def wf_port_status_def peek_def)

lemma encode_decode_port:
  assumes "length bs = sizeof_port_status"
  shows "encode_port (decode_port bs) = bs"
proof -
  from assms obtain a b cs where "bs = a # b # cs" and "length cs = 14"
    by (auto simp: length_Suc_conv numeral_eq_Suc)
  then show ?thesis
    by (simp add: decode_port_def encode_port_def peek_def) 
qed

lemma wf_decode_port: "length bs = sizeof_port_status \<Longrightarrow> wf_port_status (decode_port bs)"
  by (simp add: wf_port_status_def decode_port_def)

lemma wf_decode_status: "length bs = sizeof_status \<Longrightarrow> wf_status (decode_status bs)"
  by (simp add: wf_status_def decode_status_def list_all_iff wf_decode_port)

lemma wf_zero_port [simp]: "wf_port_status zero_port"
  by (simp add: wf_port_status_def zero_port_def)

lemma wf_zero_status [simp]: "wf_status zero_status"
  by (simp add: wf_status_def zero_status_def list_all_iff)

lemma concat_const_length:
  "(\<And>x. x \<in> set xs \<Longrightarrow> length (f x) = n) \<Longrightarrow> length (concat (map f xs)) = n * length xs"
  by (induction xs) auto

lemma peek_concat:
  assumes "\<And>x. x \<in> set xs \<Longrightarrow> length (f x) = n" "i < length xs"
  shows "peek (n * i) n (concat (map f xs)) = f (xs ! i)"
  using assms
proof (induction xs arbitrary: i)
  case Nil
  then show ?case by simp
next
  case (Cons x xs)
  have len: "length (f x) = n" using Cons.prems by simp
  show ?case
  proof (cases i)
    case 0
    with len show ?thesis by (simp add: peek_def)
  next
    case (Suc j)
    with Cons.prems have "peek (n * j) n (concat (map f xs)) = f (xs ! j)"
      by (intro Cons.IH) auto
    with Suc len show ?thesis by (simp add: peek_def)
  qed
qed

lemma peek_append_skip: "length xs \<le> p \<Longrightarrow> peek p n (xs @ ys) = peek (p - length xs) n ys"
  by (simp add: peek_def)

lemma map_nth_three: "length xs = 3 \<Longrightarrow> [xs ! 0, xs ! 1, xs ! 2] = xs"
  by (auto simp: length_Suc_conv numeral_eq_Suc)

lemma length_encode_status [wire]:
  assumes "wf_status s"
  shows "length (encode_status s) = sizeof_status"
proof -
  have "length (concat (map encode_port (ports s))) = 16 * 6"
    using assms length_encode_port
    by (subst concat_const_length [of _ _ 16]) (auto simp: wf_status_def list_all_iff)
  with assms show ?thesis
    by (simp add: encode_status_def wf_status_def concat_const_length [of _ _ 4])
qed

lemma decode_encode_status_ports:
  assumes "wf_status s"
  shows "ports (decode_status (encode_status s)) = ports s"
proof (rule nth_equalityI)
  show "length (ports (decode_status (encode_status s))) = length (ports s)"
    using assms by (simp add: decode_status_def wf_status_def)
next
  fix i
  assume "i < length (ports (decode_status (encode_status s)))"
  then have i: "i < 6" by (simp add: decode_status_def)
  let ?head = "le16 (voltage s) @ le16 (current s) @ concat (map le32 (acceleration s)) @
     concat (map le32 (angular_velocity s)) @ le32 (heading s) @ le16 (is_ready s) @
     le16 (is_statinary s) @ le32 (button s)"
  have head: "length ?head = 40"
    using assms by (simp add: wf_status_def concat_const_length [of _ _ 4])
  have split: "encode_status s = ?head @ concat (map encode_port (ports s))"
    by (simp add: encode_status_def)
  have wfp: "wf_port_status (ports s ! i)" and len: "length (ports s) = 6"
    using assms i by (auto simp: wf_status_def list_all_length)
  have "peek (40 + 16 * i) 16 (encode_status s) =
      peek (16 * i) 16 (concat (map encode_port (ports s)))"
    unfolding split using head by (subst peek_append_skip) simp_all
  also have "\<dots> = encode_port (ports s ! i)"
    using assms i len length_encode_port
    by (intro peek_concat) (auto simp: wf_status_def list_all_iff)
  finally show "ports (decode_status (encode_status s)) ! i = ports s ! i"
    using i wfp by (simp add: decode_status_def decode_encode_port)
qed

lemma decode_encode_status_head:
  assumes "wf_status s"
  shows "decode_status (encode_status s)\<lparr>ports := ps\<rparr> = s\<lparr>ports := ps\<rparr>"
proof -
  from assms obtain a b c d e f where
    acc: "acceleration s = [a, b, c]" "angular_velocity s = [d, e, f]"
    by (auto simp: wf_status_def length_Suc_conv numeral_eq_Suc)
  show ?thesis
    by (cases s, insert acc)
      (simp add: decode_status_def encode_status_def le16_def le32_def
        rp_v2_get_u32_def rp_v2_get_u16_def upt_rec join_bytes16 join_bytes32)
qed

lemma decode_encode_status:
  assumes "wf_status s"
  shows "decode_status (encode_status s) = s"
proof -
  let ?d = "decode_status (encode_status s)"
  have "?d = ?d\<lparr>ports := ports s\<rparr>"
    using decode_encode_status_ports [OF assms] by simp
  also have "\<dots> = s\<lparr>ports := ports s\<rparr>"
    by (rule decode_encode_status_head [OF assms])
  finally show ?thesis by simp
qed

subsection \<open>Telemetry\<close>

record runtime_telemetry =
  rt_sequence :: u32
  rt_hub_time_us :: u32
  rt_sample_sequence :: u32
  rt_control_period_us :: u32
  rt_execution_time_us :: u32
  rt_overrun_count :: u32
  rt_transition_sequence :: u32
  rt_runtime_status_flags :: u32
  rt_active_fault_mask :: u32
  rt_left_count_deg :: i32
  rt_right_count_deg :: i32
  rt_left_speed_deg_s :: i32
  rt_right_speed_deg_s :: i32
  rt_gyro_rate_mdeg_s :: i32
  rt_reflection :: i16
  rt_line_error :: i16
  rt_left_pwm :: i16
  rt_right_pwm :: i16
  rt_runtime_state :: byte
  rt_transition_reason :: byte
  rt_active_mode :: byte
  rt_motors_allowed :: byte

definition sizeof_runtime_telemetry :: nat where [simp]: "sizeof_runtime_telemetry = 68"

definition decode_runtime_telemetry :: "byte list \<Rightarrow> runtime_telemetry" where
  "decode_runtime_telemetry bs =
     \<lparr>rt_sequence = rp_v2_get_u32 bs 0, rt_hub_time_us = rp_v2_get_u32 bs 4,
      rt_sample_sequence = rp_v2_get_u32 bs 8, rt_control_period_us = rp_v2_get_u32 bs 12,
      rt_execution_time_us = rp_v2_get_u32 bs 16, rt_overrun_count = rp_v2_get_u32 bs 20,
      rt_transition_sequence = rp_v2_get_u32 bs 24,
      rt_runtime_status_flags = rp_v2_get_u32 bs 28,
      rt_active_fault_mask = rp_v2_get_u32 bs 32, rt_left_count_deg = rp_v2_get_u32 bs 36,
      rt_right_count_deg = rp_v2_get_u32 bs 40, rt_left_speed_deg_s = rp_v2_get_u32 bs 44,
      rt_right_speed_deg_s = rp_v2_get_u32 bs 48, rt_gyro_rate_mdeg_s = rp_v2_get_u32 bs 52,
      rt_reflection = rp_v2_get_u16 bs 56, rt_line_error = rp_v2_get_u16 bs 58,
      rt_left_pwm = rp_v2_get_u16 bs 60, rt_right_pwm = rp_v2_get_u16 bs 62,
      rt_runtime_state = bs ! 64, rt_transition_reason = bs ! 65, rt_active_mode = bs ! 66,
      rt_motors_allowed = bs ! 67\<rparr>"

definition encode_runtime_telemetry :: "runtime_telemetry \<Rightarrow> byte list" where
  "encode_runtime_telemetry t =
     concat (map le32 [rt_sequence t, rt_hub_time_us t, rt_sample_sequence t,
       rt_control_period_us t, rt_execution_time_us t, rt_overrun_count t,
       rt_transition_sequence t, rt_runtime_status_flags t, rt_active_fault_mask t,
       rt_left_count_deg t, rt_right_count_deg t, rt_left_speed_deg_s t,
       rt_right_speed_deg_s t, rt_gyro_rate_mdeg_s t]) @
     concat (map le16 [rt_reflection t, rt_line_error t, rt_left_pwm t, rt_right_pwm t]) @
     [rt_runtime_state t, rt_transition_reason t, rt_active_mode t, rt_motors_allowed t]"

definition zero_runtime_telemetry :: runtime_telemetry where
  "zero_runtime_telemetry =
     \<lparr>rt_sequence = 0, rt_hub_time_us = 0, rt_sample_sequence = 0, rt_control_period_us = 0,
      rt_execution_time_us = 0, rt_overrun_count = 0, rt_transition_sequence = 0,
      rt_runtime_status_flags = 0, rt_active_fault_mask = 0, rt_left_count_deg = 0,
      rt_right_count_deg = 0, rt_left_speed_deg_s = 0, rt_right_speed_deg_s = 0,
      rt_gyro_rate_mdeg_s = 0, rt_reflection = 0, rt_line_error = 0, rt_left_pwm = 0,
      rt_right_pwm = 0, rt_runtime_state = 0, rt_transition_reason = 0, rt_active_mode = 0,
      rt_motors_allowed = 0\<rparr>"

definition RP_DRIVE_TELEMETRY_MOTOR_SLOTS :: nat where
  [simp]: "RP_DRIVE_TELEMETRY_MOTOR_SLOTS = 2"
definition RP_DRIVE_TELEMETRY_MOTOR0_VALID :: byte where [simp]: "RP_DRIVE_TELEMETRY_MOTOR0_VALID = 1"
definition RP_DRIVE_TELEMETRY_MOTOR1_VALID :: byte where [simp]: "RP_DRIVE_TELEMETRY_MOTOR1_VALID = 2"
definition RP_DRIVE_TELEMETRY_COLOR_VALID :: byte where
  [simp]: "RP_DRIVE_TELEMETRY_COLOR_VALID = 4"

record drive_telemetry =
  dt_sequence :: u32
  dt_hub_time_us :: u32
  dt_motor_count_deg :: "i32 list"
  dt_motor_speed_deg_s :: "i32 list"
  dt_motor_power :: "i16 list"
  dt_reflection :: i16
  dt_motor_port :: "byte list"
  dt_color_port :: byte
  dt_flags :: byte

definition wf_drive_telemetry :: "drive_telemetry \<Rightarrow> bool" where
  "wf_drive_telemetry t \<longleftrightarrow>
     length (dt_motor_count_deg t) = RP_DRIVE_TELEMETRY_MOTOR_SLOTS \<and>
     length (dt_motor_speed_deg_s t) = RP_DRIVE_TELEMETRY_MOTOR_SLOTS \<and>
     length (dt_motor_power t) = RP_DRIVE_TELEMETRY_MOTOR_SLOTS \<and>
     length (dt_motor_port t) = RP_DRIVE_TELEMETRY_MOTOR_SLOTS"

definition sizeof_drive_telemetry :: nat where [simp]: "sizeof_drive_telemetry = 34"

definition decode_drive_telemetry :: "byte list \<Rightarrow> drive_telemetry" where
  "decode_drive_telemetry bs =
     \<lparr>dt_sequence = rp_v2_get_u32 bs 0, dt_hub_time_us = rp_v2_get_u32 bs 4,
      dt_motor_count_deg = [rp_v2_get_u32 bs 8, rp_v2_get_u32 bs 12],
      dt_motor_speed_deg_s = [rp_v2_get_u32 bs 16, rp_v2_get_u32 bs 20],
      dt_motor_power = [rp_v2_get_u16 bs 24, rp_v2_get_u16 bs 26],
      dt_reflection = rp_v2_get_u16 bs 28, dt_motor_port = [bs ! 30, bs ! 31],
      dt_color_port = bs ! 32, dt_flags = bs ! 33\<rparr>"

definition encode_drive_telemetry :: "drive_telemetry \<Rightarrow> byte list" where
  "encode_drive_telemetry t =
     le32 (dt_sequence t) @ le32 (dt_hub_time_us t) @ concat (map le32 (dt_motor_count_deg t)) @
     concat (map le32 (dt_motor_speed_deg_s t)) @ concat (map le16 (dt_motor_power t)) @
     le16 (dt_reflection t) @ dt_motor_port t @ [dt_color_port t, dt_flags t]"

lemmas decode_bytes = le16_def le32_def rp_v2_get_u32_def rp_v2_get_u16_def
  join_bytes16 join_bytes32

lemma length_encode_runtime_telemetry [wire]:
  "length (encode_runtime_telemetry t) = sizeof_runtime_telemetry"
  by (simp add: encode_runtime_telemetry_def)

lemma decode_encode_runtime_telemetry:
  "decode_runtime_telemetry (encode_runtime_telemetry t) = t"
  by (cases t) (simp add: decode_runtime_telemetry_def encode_runtime_telemetry_def decode_bytes)

lemma wf_decode_drive_telemetry [simp]: "wf_drive_telemetry (decode_drive_telemetry bs)"
  by (simp add: wf_drive_telemetry_def decode_drive_telemetry_def)

lemma length_encode_drive_telemetry [wire]:
  "wf_drive_telemetry t \<Longrightarrow> length (encode_drive_telemetry t) = sizeof_drive_telemetry"
  by (simp add: encode_drive_telemetry_def wf_drive_telemetry_def
      concat_const_length [of _ _ 4] concat_const_length [of _ _ 2])

lemma decode_encode_drive_telemetry:
  assumes "wf_drive_telemetry t"
  shows "decode_drive_telemetry (encode_drive_telemetry t) = t"
proof -
  from assms obtain a b c d e f g h where
    "dt_motor_count_deg t = [a, b]" "dt_motor_speed_deg_s t = [c, d]"
    "dt_motor_power t = [e, f]" "dt_motor_port t = [g, h]"
    by (auto simp: wf_drive_telemetry_def length_Suc_conv numeral_eq_Suc)
  then show ?thesis
    by (cases t) (simp add: decode_drive_telemetry_def encode_drive_telemetry_def decode_bytes)
qed

subsection \<open>Commands\<close>

record realtime_drive_command =
  rc_sequence :: u32
  rc_sent_time_us :: u32
  rc_mode :: byte
  rc_flags :: byte
  rc_target_speed_mm_s :: i16
  rc_target_reflection :: i16
  rc_kp_milli :: i16
  rc_ki_milli :: i16
  rc_kd_milli :: i16
  rc_left_pwm :: i16
  rc_right_pwm :: i16
  rc_control_period_us :: u16
  rc_reserved0 :: u16
  rc_source_telemetry_sequence :: u32
  rc_curvature_per_mm_e9 :: i32

definition sizeof_realtime_drive_command :: nat where
  [simp]: "sizeof_realtime_drive_command = 36"

definition encode_realtime_drive_command :: "realtime_drive_command \<Rightarrow> byte list" where
  "encode_realtime_drive_command c =
     le32 (rc_sequence c) @ le32 (rc_sent_time_us c) @ [rc_mode c, rc_flags c] @
     concat (map le16 [rc_target_speed_mm_s c, rc_target_reflection c, rc_kp_milli c,
       rc_ki_milli c, rc_kd_milli c, rc_left_pwm c, rc_right_pwm c, rc_control_period_us c,
       rc_reserved0 c]) @
     le32 (rc_source_telemetry_sequence c) @ le32 (rc_curvature_per_mm_e9 c)"

record runtime_fault_command =
  fc_fault_mask :: u32
  fc_duration_cycles :: u32

definition sizeof_runtime_fault_command :: nat where [simp]: "sizeof_runtime_fault_command = 8"

definition encode_runtime_fault_command :: "runtime_fault_command \<Rightarrow> byte list" where
  "encode_runtime_fault_command c = le32 (fc_fault_mask c) @ le32 (fc_duration_cycles c)"

lemma length_encode_realtime_drive_command [simp, wire]:
  "length (encode_realtime_drive_command c) = sizeof_realtime_drive_command"
  by (simp add: encode_realtime_drive_command_def)

lemma length_encode_runtime_fault_command [simp, wire]:
  "length (encode_runtime_fault_command c) = sizeof_runtime_fault_command"
  by (simp add: encode_runtime_fault_command_def)

text \<open>The static assertions of \<^verbatim>\<open>raspike_protocol.c\<close>: every payload fits a frame.\<close>

lemma payload_sizes_fit:
  "RP_V2_FRAME_OVERHEAD + RP_V2_MAX_PAYLOAD = 256"
  "sizeof_status \<le> RP_V2_MAX_PAYLOAD" "sizeof_drive_telemetry \<le> RP_V2_MAX_PAYLOAD"
  "sizeof_runtime_telemetry \<le> RP_V2_MAX_PAYLOAD"
  "sizeof_realtime_drive_command \<le> RP_V2_MAX_PAYLOAD"
  by simp_all

end
