(* ===== verification/Posix.thy ===== *)
theory Posix
  imports Prelude
begin

section \<open>The operating system as the library sees it\<close>

text \<open>
  The system calls and C library functions the code uses, over one state \<open>os\<close>: a clock in
  nanoseconds, \<open>errno\<close>, the bytes written to the device so far, and for each call the list
  of answers it will give, in order. A theorem over all such lists is a theorem over everything
  the system can do. The answers are the documented ones: a \<^verbatim>\<open>read\<close> gives at most the
  bytes asked for and keeps the rest for the next, a \<^verbatim>\<open>write\<close> takes a prefix of what it
  is given, an \<open>errno\<close> is positive, the clock never runs backwards. When a list is used up
  the call answers as on an idle line: \<^verbatim>\<open>poll\<close> times out, \<^verbatim>\<open>read\<close> and
  \<^verbatim>\<open>write\<close> on the non-blocking descriptor fail with \<open>EAGAIN\<close>.
\<close>

record timespec =
  tv_sec :: int
  tv_nsec :: int

datatype clock_id = CLOCK_REALTIME | CLOCK_MONOTONIC | CLOCK_MONOTONIC_RAW

datatype poll_answer =
    PollEvents nat u16   \<comment> \<open>after some nanoseconds, these \<^verbatim>\<open>revents\<close>\<close>
  | PollTimeout
  | PollFail nat int     \<comment> \<open>after some nanoseconds, this \<open>errno\<close>\<close>

datatype read_answer = ReadBytes "byte list" | ReadFail int
datatype write_answer = WriteCount nat | WriteFail int
datatype flush_answer = FlushDrop nat | FlushFail int
datatype sleep_answer = SleepDone nat | SleepIntr nat nat

text \<open>The terminal settings that \<^verbatim>\<open>raspike_open_usb_communication\<close> touches.\<close>

record termios =
  c_iflag :: u32
  c_oflag :: u32
  c_cflag :: u32
  c_lflag :: u32
  c_ispeed :: nat
  c_ospeed :: nat
  c_vmin :: byte
  c_vtime :: byte

record os =
  os_now :: int
  os_realtime_offset :: int
  os_ticks :: "nat list"
  os_polls :: "poll_answer list"
  os_reads :: "read_answer list"
  os_writes :: "write_answer list"
  os_flushes :: "flush_answer list"
  os_closes :: "int list"
  os_sleeps :: "sleep_answer list"
  os_opens :: "(int + nat) list"
  os_tcgets :: "(int + termios) list"
  os_tcsets :: "int list"
  os_callocs :: "bool list"
  os_tty :: "termios option"
  os_errno :: int
  os_tx :: "byte list"

text \<open>An idle machine: nothing arrives, nothing fails.\<close>

definition idle_os :: os where
  "idle_os = \<lparr>os_now = 0, os_realtime_offset = 0, os_ticks = [], os_polls = [], os_reads = [],
     os_writes = [], os_flushes = [], os_closes = [], os_sleeps = [], os_opens = [],
     os_tcgets = [], os_tcsets = [], os_callocs = [], os_tty = None, os_errno = 0, os_tx = []\<rparr>"

definition legal_errno :: "int \<Rightarrow> int" where
  "legal_errno e = (if 0 < e then e else EIO)"

lemma legal_errno_pos [simp]: "0 < legal_errno e"
  by (simp add: legal_errno_def)

lemma legal_errno_neg [simp]: "\<not> legal_errno e < 0" "\<not> legal_errno e \<le> 0" "legal_errno e \<noteq> 0"
  "0 \<noteq> legal_errno e"
  using legal_errno_pos [of e] by linarith+

lemma legal_errno_id [simp]: "0 < e \<Longrightarrow> legal_errno e = e"
  by (simp add: legal_errno_def)

subsection \<open>Clocks and sleeping\<close>

definition timespec_of :: "int \<Rightarrow> timespec" where
  "timespec_of ns = \<lparr>tv_sec = ns div 10 ^ 9, tv_nsec = ns mod 10 ^ 9\<rparr>"

text \<open>Reading a clock takes some time of its own: the next tick.\<close>

definition tick :: "os \<Rightarrow> os" where
  "tick w = (case os_ticks w of [] \<Rightarrow> w
     | t # ts \<Rightarrow> w\<lparr>os_now := os_now w + int t, os_ticks := ts\<rparr>)"

definition clock_gettime :: "clock_id \<Rightarrow> os \<Rightarrow> timespec \<times> os" where
  "clock_gettime clk w =
     (let w' = tick w in
      (timespec_of (os_now w' + (if clk = CLOCK_REALTIME then os_realtime_offset w' else 0)), w'))"

text \<open>\<^verbatim>\<open>nanosleep\<close>: the result, the time that was left if a signal ended it, the state. A sleep
  lasts at least as long as asked, an interrupted one at least the part that is not left: the last
  number of an answer is the excess, which nothing bounds.\<close>

definition sys_nanosleep :: "timespec \<Rightarrow> os \<Rightarrow> int \<times> timespec \<times> os" where
  "sys_nanosleep req w =
     (let total = tv_sec req * 10 ^ 9 + tv_nsec req in
      case os_sleeps w of
        SleepIntr left excess # rest \<Rightarrow>
          let remaining = min (int left) total in
          (-1, timespec_of remaining,
           w\<lparr>os_now := os_now w + (total - remaining) + int excess, os_sleeps := rest, os_errno := EINTR\<rparr>)
      | SleepDone excess # rest \<Rightarrow>
          (0, timespec_of 0, w\<lparr>os_now := os_now w + total + int excess, os_sleeps := rest\<rparr>)
      | [] \<Rightarrow> (0, timespec_of 0, w\<lparr>os_now := os_now w + total\<rparr>))"

subsection \<open>Input and output\<close>

definition POLLIN :: u16 where [simp]: "POLLIN = 0x01"
definition POLLOUT :: u16 where [simp]: "POLLOUT = 0x04"
definition POLLERR :: u16 where [simp]: "POLLERR = 0x08"
definition POLLHUP :: u16 where [simp]: "POLLHUP = 0x10"
definition POLLNVAL :: u16 where [simp]: "POLLNVAL = 0x20"

definition sys_poll :: "int \<Rightarrow> os \<Rightarrow> int \<times> u16 \<times> os" where
  "sys_poll timeout_ms w =
     (case os_polls w of
        PollEvents dt ev # rest \<Rightarrow> (1, ev, w\<lparr>os_now := os_now w + int dt, os_polls := rest\<rparr>)
      | PollTimeout # rest \<Rightarrow>
          (0, 0, w\<lparr>os_now := os_now w + max 0 timeout_ms * 10 ^ 6, os_polls := rest\<rparr>)
      | PollFail dt e # rest \<Rightarrow>
          (-1, 0, w\<lparr>os_now := os_now w + int dt, os_polls := rest, os_errno := legal_errno e\<rparr>)
      | [] \<Rightarrow> (0, 0, w\<lparr>os_now := os_now w + max 0 timeout_ms * 10 ^ 6\<rparr>))"

definition sys_read :: "nat \<Rightarrow> os \<Rightarrow> int \<times> byte list \<times> os" where
  "sys_read n w =
     (case os_reads w of
        ReadBytes bs # rest \<Rightarrow>
          (int (min n (length bs)), take n bs,
           w\<lparr>os_reads := (if drop n bs = [] then rest else ReadBytes (drop n bs) # rest)\<rparr>)
      | ReadFail e # rest \<Rightarrow> (-1, [], w\<lparr>os_reads := rest, os_errno := legal_errno e\<rparr>)
      | [] \<Rightarrow> (-1, [], w\<lparr>os_errno := EAGAIN\<rparr>))"

text \<open>The bytes still to come, in order, whatever the chunks and the failures between them.\<close>

fun rx_bytes :: "read_answer list \<Rightarrow> byte list" where
  "rx_bytes [] = []"
| "rx_bytes (ReadBytes bs # rest) = bs @ rx_bytes rest"
| "rx_bytes (ReadFail e # rest) = rx_bytes rest"

definition sys_write :: "byte list \<Rightarrow> os \<Rightarrow> int \<times> os" where
  "sys_write bs w =
     (case os_writes w of
        WriteCount n # rest \<Rightarrow>
          (int (min n (length bs)), w\<lparr>os_writes := rest, os_tx := os_tx w @ take n bs\<rparr>)
      | WriteFail e # rest \<Rightarrow> (-1, w\<lparr>os_writes := rest, os_errno := legal_errno e\<rparr>)
      | [] \<Rightarrow> (-1, w\<lparr>os_errno := EAGAIN\<rparr>))"

text \<open>\<^verbatim>\<open>tcflush(fd, TCIFLUSH)\<close> drops the chunks that have arrived and were not read.\<close>

definition sys_tcflush_input :: "os \<Rightarrow> int \<times> os" where
  "sys_tcflush_input w =
     (case os_flushes w of
        FlushDrop n # rest \<Rightarrow> (0, w\<lparr>os_flushes := rest, os_reads := drop n (os_reads w)\<rparr>)
      | FlushFail e # rest \<Rightarrow> (-1, w\<lparr>os_flushes := rest, os_errno := legal_errno e\<rparr>)
      | [] \<Rightarrow> (0, w))"

definition sys_close :: "os \<Rightarrow> int \<times> os" where
  "sys_close w =
     (case os_closes w of
        e # rest \<Rightarrow> if 0 < e then (-1, w\<lparr>os_closes := rest, os_errno := e\<rparr>)
                     else (0, w\<lparr>os_closes := rest\<rparr>)
      | [] \<Rightarrow> (0, w))"

subsection \<open>Opening and configuring the device\<close>

definition sys_open :: "os \<Rightarrow> int \<times> os" where
  "sys_open w =
     (case os_opens w of
        Inr fd # rest \<Rightarrow> (int fd, w\<lparr>os_opens := rest\<rparr>)
      | Inl e # rest \<Rightarrow> (-1, w\<lparr>os_opens := rest, os_errno := legal_errno e\<rparr>)
      | [] \<Rightarrow> (-1, w\<lparr>os_errno := 2\<rparr>))"

definition sys_tcgetattr :: "termios \<Rightarrow> os \<Rightarrow> int \<times> termios \<times> os" where
  "sys_tcgetattr t0 w =
     (case os_tcgets w of
        Inr t # rest \<Rightarrow> (0, t, w\<lparr>os_tcgets := rest\<rparr>)
      | Inl e # rest \<Rightarrow> (-1, t0, w\<lparr>os_tcgets := rest, os_errno := legal_errno e\<rparr>)
      | [] \<Rightarrow> (-1, t0, w\<lparr>os_errno := ENOTTY\<rparr>))"

definition sys_tcsetattr :: "termios \<Rightarrow> os \<Rightarrow> int \<times> os" where
  "sys_tcsetattr t w =
     (case os_tcsets w of
        e # rest \<Rightarrow> if 0 < e then (-1, w\<lparr>os_tcsets := rest, os_errno := e\<rparr>)
                     else (0, w\<lparr>os_tcsets := rest, os_tty := Some t\<rparr>)
      | [] \<Rightarrow> (0, w\<lparr>os_tty := Some t\<rparr>))"

definition sys_calloc :: "os \<Rightarrow> bool \<times> os" where
  "sys_calloc w = (case os_callocs w of [] \<Rightarrow> (True, w) | b # rest \<Rightarrow> (b, w\<lparr>os_callocs := rest\<rparr>))"

definition CS8 :: u32 where [simp]: "CS8 = 0x30"
definition CSIZE :: u32 where [simp]: "CSIZE = 0x30"
definition CSTOPB :: u32 where [simp]: "CSTOPB = 0x40"
definition CREAD :: u32 where [simp]: "CREAD = 0x80"
definition PARENB :: u32 where [simp]: "PARENB = 0x100"
definition CLOCAL :: u32 where [simp]: "CLOCAL = 0x800"
definition CRTSCTS :: u32 where [simp]: "CRTSCTS = 0x80000000"

text \<open>\<^verbatim>\<open>cfmakeraw\<close> as documented: no input or output processing, no line discipline, eight
  bits without parity.\<close>

definition cfmakeraw :: "termios \<Rightarrow> termios" where
  "cfmakeraw t = t\<lparr>c_iflag := c_iflag t AND NOT 0x5EB, c_oflag := c_oflag t AND NOT 1,
     c_lflag := c_lflag t AND NOT 0x804B, c_cflag := c_cflag t AND NOT (CSIZE OR PARENB) OR CS8,
     c_vmin := 1, c_vtime := 0\<rparr>"

subsection \<open>What a call leaves alone\<close>

lemma tick_frame [simp, frame]:
  "os_polls (tick w) = os_polls w" "os_reads (tick w) = os_reads w"
  "os_writes (tick w) = os_writes w" "os_flushes (tick w) = os_flushes w"
  "os_tx (tick w) = os_tx w" "os_errno (tick w) = os_errno w"
  by (simp_all add: tick_def split: list.split)

lemma tick_forward: "os_now w \<le> os_now (tick w)"
  by (simp add: tick_def split: list.split)

lemma sys_poll_frame [frame]:
  assumes "sys_poll timeout w = (r, ev, w')"
  shows "os_reads w' = os_reads w" "os_writes w' = os_writes w" "os_tx w' = os_tx w"
    "os_flushes w' = os_flushes w" "os_ticks w' = os_ticks w" "os_now w \<le> os_now w'"
  using assms by (auto simp: sys_poll_def split: list.splits poll_answer.splits)

lemma sys_poll_consumes:
  "sys_poll timeout w = (r, ev, w') \<Longrightarrow> r \<noteq> 0 \<Longrightarrow> length (os_polls w') < length (os_polls w)"
  by (auto simp: sys_poll_def split: list.splits poll_answer.splits)

lemma sys_poll_errno: "sys_poll timeout w = (r, ev, w') \<Longrightarrow> r < 0 \<Longrightarrow> 0 < os_errno w'"
  by (auto simp: sys_poll_def split: list.splits poll_answer.splits)

lemma sys_read_frame [frame]:
  assumes "sys_read n w = (r, bs, w')"
  shows "os_polls w' = os_polls w" "os_writes w' = os_writes w" "os_tx w' = os_tx w"
    "os_now w' = os_now w" "os_ticks w' = os_ticks w"
  using assms by (auto simp: sys_read_def split: list.splits read_answer.splits)

lemma sys_read_errno: "sys_read n w = (r, bs, w') \<Longrightarrow> r < 0 \<Longrightarrow> 0 < os_errno w'"
  by (auto simp: sys_read_def split: list.splits read_answer.splits)

lemma sys_read_length: "sys_read n w = (r, bs, w') \<Longrightarrow> 0 \<le> r \<Longrightarrow> r = int (length bs) \<and> length bs \<le> n"
  by (auto simp: sys_read_def split: list.splits read_answer.splits)

lemma sys_read_nothing: "sys_read n w = (r, bs, w') \<Longrightarrow> r \<le> 0 \<Longrightarrow> bs = []"
  by (auto simp: sys_read_def min_def split: list.splits read_answer.splits if_splits)

text \<open>A read takes the next bytes of the stream and loses none.\<close>

lemma sys_read_stream: "sys_read n w = (r, bs, w') \<Longrightarrow> rx_bytes (os_reads w) = bs @ rx_bytes (os_reads w')"
  by (auto simp: sys_read_def split: list.splits read_answer.splits if_splits)

lemma sys_write_frame [frame]:
  assumes "sys_write bs w = (r, w')"
  shows "os_polls w' = os_polls w" "os_reads w' = os_reads w" "os_now w' = os_now w"
    "os_ticks w' = os_ticks w"
  using assms by (auto simp: sys_write_def split: list.splits write_answer.splits)

lemma sys_write_errno: "sys_write bs w = (r, w') \<Longrightarrow> r < 0 \<Longrightarrow> 0 < os_errno w'"
  by (auto simp: sys_write_def split: list.splits write_answer.splits)

lemma sys_write_tx:
  assumes "sys_write bs w = (r, w')"
  shows "os_tx w' = os_tx w @ take (nat r) bs" "r \<le> int (length bs)"
  using assms by (auto simp: sys_write_def min_def split: list.splits write_answer.splits)

end
