(* ===== verification/Interfaces.thy ===== *)
theory Interfaces
  imports Prelude
begin

section \<open>Contracts between the components\<close>

text \<open>
  The interfaces the components rely on, as locales: the operations a client calls, the laws
  their provider promises, and what the client gets from them, proved once. Each is interpreted
  on the model's own definitions in the theory of the component that provides it.
\<close>

subsection \<open>A source of bytes\<close>

text \<open>
  \<open>recv n\<close> asks for \<open>n\<close> elements; the result is a count or a negative error, what was stored,
  and the new state. Nothing is lost, invented or reordered.
\<close>

locale byte_source =
  fixes recv :: "nat \<Rightarrow> 's \<Rightarrow> int \<times> 'a list \<times> 's"
    and upcoming :: "'s \<Rightarrow> 'a list"
  assumes recv_stream: "recv n s = (r, bs, s') \<Longrightarrow> upcoming s = bs @ upcoming s'"
    and recv_count: "recv n s = (r, bs, s') \<Longrightarrow> 0 \<le> r \<Longrightarrow> r = int (length bs)"
    and recv_bound: "recv n s = (r, bs, s') \<Longrightarrow> length bs \<le> n"
begin

lemma recv_prefix:
  assumes "recv n s = (r, bs, s')"
  shows "bs = take (length bs) (upcoming s)" "upcoming s' = drop (length bs) (upcoming s)"
  unfolding recv_stream [OF assms] by simp_all

lemma recv_shrinks: "recv n s = (r, bs, s') \<Longrightarrow> length (upcoming s') \<le> length (upcoming s)"
  by (auto dest: recv_stream)

end

text \<open>A source that succeeds only with everything that was asked for.\<close>

locale exact_source = byte_source +
  assumes recv_exact: "recv n s = (r, bs, s') \<Longrightarrow> 0 \<le> r \<Longrightarrow> length bs = n"
begin

lemma recv_take:
  assumes "recv n s = (r, bs, s')" "0 \<le> r"
  shows "bs = take n (upcoming s)" "upcoming s' = drop n (upcoming s)" "n \<le> length (upcoming s)"
proof -
  have whole: "upcoming s = bs @ upcoming s'" and len: "length bs = n"
    using recv_stream [OF assms(1)] recv_exact [OF assms] by blast+
  show "bs = take n (upcoming s)" "upcoming s' = drop n (upcoming s)" "n \<le> length (upcoming s)"
    unfolding whole using len by simp_all
qed

text \<open>Two reads in a row are one read of both lengths.\<close>

lemma recv_twice:
  assumes "recv m s = (r1, bs1, s1)" "0 \<le> r1" and "recv n s1 = (r2, bs2, s2)" "0 \<le> r2"
  shows "bs1 @ bs2 = take (m + n) (upcoming s)" "upcoming s2 = drop (m + n) (upcoming s)"
proof -
  note first = recv_take [OF assms(1,2)] and second = recv_take [OF assms(3,4)]
  show "bs1 @ bs2 = take (m + n) (upcoming s)"
    unfolding take_add first(2) [symmetric] second(1) [symmetric] first(1) [symmetric] ..
  show "upcoming s2 = drop (m + n) (upcoming s)"
    unfolding second(2) first(2) by (simp add: add.commute)
qed

end

subsection \<open>A bounded queue in front of a line\<close>

locale line_queue =
  fixes put :: "'a list \<Rightarrow> 's \<Rightarrow> int \<times> 's"
    and drain :: "'s \<Rightarrow> int \<times> 's"
    and content :: "'s \<Rightarrow> 'a list"
    and sent :: "'s \<Rightarrow> 'a list"
    and invar :: "'s \<Rightarrow> bool"
    and capacity :: nat
  assumes put_invar: "invar s \<Longrightarrow> put bs s = (r, s') \<Longrightarrow> invar s'"
    and put_ok: "invar s \<Longrightarrow> put bs s = (r, s') \<Longrightarrow> 0 \<le> r \<Longrightarrow>
      content s' = content s @ bs \<and> sent s' = sent s \<and> r = int (length bs)"
    and put_full: "invar s \<Longrightarrow> put bs s = (r, s') \<Longrightarrow> r < 0 \<longleftrightarrow>
      capacity < length (content s) + length bs"
    and put_fail: "put bs s = (r, s') \<Longrightarrow> r < 0 \<Longrightarrow> s' = s"
    and drain_invar: "invar s \<Longrightarrow> drain s = (r, s') \<Longrightarrow> invar s'"
    and drain_ok: "invar s \<Longrightarrow> drain s = (r, s') \<Longrightarrow> 0 \<le> r \<Longrightarrow>
      content s' = [] \<and> sent s' = sent s @ content s"
    and drain_fail: "invar s \<Longrightarrow> drain s = (r, s') \<Longrightarrow> r < 0 \<Longrightarrow>
      content s' = content s \<and> (\<exists>k. sent s' = sent s @ take k (content s))"
begin

primrec put_all :: "'a list list \<Rightarrow> 's \<Rightarrow> 's" where
  "put_all [] s = s"
| "put_all (m # ms) s = put_all ms (snd (put m s))"

lemma put_fits:
  assumes "invar s" "length (content s) + length bs \<le> capacity"
  shows "content (snd (put bs s)) = content s @ bs \<and> sent (snd (put bs s)) = sent s \<and>
    invar (snd (put bs s))"
proof -
  obtain r s' where call: "put bs s = (r, s')" by (cases "put bs s")
  with put_full [OF assms(1) call] assms(2) have "0 \<le> r" by linarith
  with put_ok [OF assms(1) call] put_invar [OF assms(1) call] call show ?thesis by simp
qed

lemma put_all_fits:
  assumes "invar s" "length (content s) + length (concat ms) \<le> capacity"
  shows "content (put_all ms s) = content s @ concat ms \<and> sent (put_all ms s) = sent s \<and>
    invar (put_all ms s)"
  using assms
proof (induction ms arbitrary: s)
  case Nil
  then show ?case by simp
next
  case (Cons m ms)
  then have "length (content s) + length m \<le> capacity" by simp
  from put_fits [OF Cons.prems(1) this] Cons.prems Cons.IH [of "snd (put m s)"]
  show ?case by simp
qed

text \<open>Messages leave in the order they were put, each whole and once.\<close>

lemma put_all_drain:
  assumes "invar s" "length (content s) + length (concat ms) \<le> capacity"
    and "drain (put_all ms s) = (r, s')" "0 \<le> r"
  shows "sent s' = sent s @ content s @ concat ms \<and> content s' = []"
  using put_all_fits [OF assms(1,2)] drain_ok [OF _ assms(3,4)] by simp

end

subsection \<open>A code for messages on a byte stream\<close>

text \<open>
  \<open>enc\<close> writes a message, \<open>dec\<close> takes one message off the front of a stream.
\<close>

locale stream_code =
  fixes enc :: "'m \<Rightarrow> 'a list"
    and dec :: "'a list \<Rightarrow> ('m \<times> 'a list) option"
    and valid :: "'m \<Rightarrow> bool"
  assumes dec_enc: "valid m \<Longrightarrow> dec (enc m @ rest) = Some (m, rest)"
    and dec_nil: "dec [] = None"
begin

inductive decodes :: "'a list \<Rightarrow> 'm list \<Rightarrow> bool" where
  decodes_nil: "decodes [] []"
| decodes_cons: "dec bs = Some (m, rest) \<Longrightarrow> decodes rest ms \<Longrightarrow> decodes bs (m # ms)"

lemma decodes_concat: "list_all valid ms \<Longrightarrow> decodes (concat (map enc ms)) ms"
  by (induction ms) (auto intro: decodes.intros simp: dec_enc)

lemma decodes_unique: "decodes bs ms \<Longrightarrow> decodes bs ms' \<Longrightarrow> ms = ms'"
proof (induction arbitrary: ms' rule: decodes.induct)
  case decodes_nil
  then show ?case by (auto elim: decodes.cases simp: dec_nil)
next
  case (decodes_cons bs m rest ms)
  from decodes_cons.prems decodes_cons.hyps(1) show ?case
    by cases (auto simp: dec_nil intro: decodes_cons.IH)
qed

text \<open>A stream of messages has one reading, the messages that were written.\<close>

lemma concat_unambiguous:
  assumes "list_all valid ms" "list_all valid ms'" "concat (map enc ms) = concat (map enc ms')"
  shows "ms = ms'"
  using decodes_concat [OF assms(1)] decodes_concat [OF assms(2)] assms(3) decodes_unique by simp

end

end
