(* ===== verification/Com.thy ===== *)
theory Com
  imports Posix Interfaces
begin

section \<open>The serial link (\<^verbatim>\<open>src/raspike_com.c\<close>)\<close>

text \<open>
  The descriptor, the module's static send buffer and mode, and the operations on them. The
  state \<open>com\<close> holds the operating system and the three static variables; the mutex
  \<^verbatim>\<open>fg_send_mutex\<close> makes each of the sections it guards one step, so it is not a field.
  A pointer that may be \<^verbatim>\<open>NULL\<close> is an option. The loops recurse on the system's answer
  lists: each turn uses up an answer of \<^verbatim>\<open>poll\<close>, or the call ends.
\<close>

definition RP_COM_TYPE_USB :: int where [simp]: "RP_COM_TYPE_USB = 1"
definition RP_SEND_BUFFER_SIZE :: nat where [simp]: "RP_SEND_BUFFER_SIZE = 4096"
definition RP_DEFAULT_IO_TIMEOUT_MS :: int where [simp]: "RP_DEFAULT_IO_TIMEOUT_MS = 1000"
definition RASPIKE_USB_MODE_NORMAL :: int where [simp]: "RASPIKE_USB_MODE_NORMAL = 0"
definition RASPIKE_USB_MODE_BUFFERED :: int where [simp]: "RASPIKE_USB_MODE_BUFFERED = 1"

text \<open>
  The four function pointers of the descriptor hold \<^verbatim>\<open>rp_usb_send\<close>,
  \<^verbatim>\<open>rp_usb_receive\<close>, \<^verbatim>\<open>rp_usb_close\<close> and \<^verbatim>\<open>rp_usb_flush\<close> or \<^verbatim>\<open>NULL\<close>; a
  flag says that they are set.
\<close>

record com_desc =
  d_type :: int
  d_desc :: int
  d_io_timeout_ms :: int
  d_send_set :: bool
  d_receive_set :: bool
  d_close_set :: bool
  d_flush_set :: bool

record com =
  com_os :: os
  fg_send_buffer :: "byte list"
  fg_send_buffer_size :: nat
  fg_send_mode :: int

definition initial_com :: "os \<Rightarrow> com" where
  "initial_com w = \<lparr>com_os = w, fg_send_buffer = replicate RP_SEND_BUFFER_SIZE 0,
     fg_send_buffer_size = 0, fg_send_mode = RASPIKE_USB_MODE_NORMAL\<rparr>"

text \<open>The bytes behind a pointer; the callers pass \<^verbatim>\<open>NULL\<close> only with size 0.\<close>

definition bytes_at :: "byte list option \<Rightarrow> nat \<Rightarrow> byte list" where
  "bytes_at buf n = (case buf of None \<Rightarrow> [] | Some bs \<Rightarrow> take n bs)"

subsection \<open>Waiting, writing and reading\<close>

definition monotonic_ms :: "os \<Rightarrow> int \<times> os" where
  "monotonic_ms w =
     (let (now, w') = clock_gettime CLOCK_MONOTONIC w
      in (tv_sec now * 1000 + tv_nsec now div 1000000, w'))"

definition get_usb_fd :: "com_desc option \<Rightarrow> int" where
  "get_usb_fd desc =
     (case desc of None \<Rightarrow> -1
      | Some d \<Rightarrow> if d_type d \<noteq> RP_COM_TYPE_USB then -1 else d_desc d)"

function poll_retry :: "int \<Rightarrow> os \<Rightarrow> int \<times> u16 \<times> os" where
  "poll_retry timeout_ms w =
     (let (ret, ev, w') = sys_poll timeout_ms w
      in if ret < 0 \<and> os_errno w' = EINTR then poll_retry timeout_ms w' else (ret, ev, w'))"
  by pat_completeness auto
termination
  by (relation "measure (\<lambda>(t, w). length (os_polls w))")
    (auto dest!: sym [of _ "sys_poll _ _"] dest: sys_poll_consumes)

declare poll_retry.simps [simp del]

definition wait_fd :: "int \<Rightarrow> os \<Rightarrow> int \<times> os" where
  "wait_fd timeout_ms w =
     (let (ret, revents, w') = poll_retry timeout_ms w
      in if ret = 0 then (- ETIMEDOUT, w')
         else if ret < 0 then (- os_errno w', w')
         else if revents AND (POLLERR OR POLLHUP OR POLLNVAL) \<noteq> 0 then (- EIO, w')
         else (0, w'))"

lemma poll_retry_props:
  assumes "poll_retry t w = (r, ev, w')"
  shows "os_reads w' = os_reads w \<and> os_writes w' = os_writes w \<and> os_tx w' = os_tx w \<and>
    os_flushes w' = os_flushes w \<and> os_ticks w' = os_ticks w \<and> os_now w \<le> os_now w' \<and>
    (r \<noteq> 0 \<longrightarrow> length (os_polls w') < length (os_polls w)) \<and> (r < 0 \<longrightarrow> 0 < os_errno w')"
  using assms
proof (induction t w rule: poll_retry.induct)
  case (1 t w)
  obtain ret ev1 w1 where call: "sys_poll t w = (ret, ev1, w1)"
    by (cases "sys_poll t w") auto
  show ?case
  proof (cases "ret < 0 \<and> os_errno w1 = EINTR")
    case True
    with "1.prems" call have "poll_retry t w1 = (r, ev, w')"
      by (simp add: poll_retry.simps [of t w])
    with "1.IH" [OF call [symmetric] refl refl True] sys_poll_frame [OF call] sys_poll_consumes [OF call] True
    show ?thesis by auto
  next
    case False
    with "1.prems" call have "ret = r" "w1 = w'"
      by (auto simp: poll_retry.simps [of t w])
    with sys_poll_frame [OF call] sys_poll_consumes [OF call] sys_poll_errno [OF call]
    show ?thesis by auto
  qed
qed

lemma wait_fd_frame [frame]:
  assumes "wait_fd t w = (r, w')"
  shows "os_reads w' = os_reads w" "os_writes w' = os_writes w" "os_tx w' = os_tx w"
    "os_ticks w' = os_ticks w"
  using assms poll_retry_props [of t w]
  by (auto simp: wait_fd_def split: prod.splits if_splits)

lemma wait_fd_consumes:
  "wait_fd t w = (r, w') \<Longrightarrow> r = - ETIMEDOUT \<or> length (os_polls w') < length (os_polls w)"
  using poll_retry_props [of t w]
  by (auto simp: wait_fd_def split: prod.splits if_splits)

lemma wait_fd_nonpos: "wait_fd t w = (r, w') \<Longrightarrow> r \<le> 0"
  using poll_retry_props [of t w]
  by (auto simp: wait_fd_def split: prod.splits if_splits)

lemma monotonic_ms_frame [frame]:
  assumes "monotonic_ms w = (t, w')"
  shows "os_polls w' = os_polls w" "os_reads w' = os_reads w" "os_writes w' = os_writes w"
    "os_tx w' = os_tx w"
  using assms by (auto simp: monotonic_ms_def clock_gettime_def Let_def)

function write_loop :: "byte list \<Rightarrow> int \<Rightarrow> nat \<Rightarrow> os \<Rightarrow> int \<times> os" where
  "write_loop bs deadline written w =
     (if written < length bs then
        let (now, w1) = monotonic_ms w;
            remaining_ms = c_int (deadline - now)
        in if remaining_ms \<le> 0 then (- ETIMEDOUT, w1) else
        let (ready, w2) = wait_fd remaining_ms w1
        in if ready < 0 then (ready, w2) else
        let (len, w3) = sys_write (drop written bs) w2
        in if len > 0 then write_loop bs deadline (written + nat len) w3
           else if len < 0 \<and> (os_errno w3 = EINTR \<or> os_errno w3 = EAGAIN)
             then write_loop bs deadline written w3
           else (if len = 0 then - EIO else - os_errno w3, w3)
      else (int written, w))"
  by pat_completeness auto

termination
proof (relation "measure (\<lambda>(bs, d, n, w). length (os_polls w))", goal_cases)
  case (2 bs deadline written w p now w1 remaining q ready w2 s len w3)
  then show ?case
    using wait_fd_consumes [of remaining w1 ready w2] monotonic_ms_frame [of w now w1]
      sys_write_frame [of "drop written bs" w2 len w3] by simp
next
  case (3 bs deadline written w p now w1 remaining q ready w2 s len w3)
  then show ?case
    using wait_fd_consumes [of remaining w1 ready w2] monotonic_ms_frame [of w now w1]
      sys_write_frame [of "drop written bs" w2 len w3] by simp
qed simp

declare write_loop.simps [simp del]

definition write_all_fd :: "byte list option \<Rightarrow> nat \<Rightarrow> int \<Rightarrow> os \<Rightarrow> int \<times> os" where
  "write_all_fd buf n timeout_ms w =
     (if buf = None \<and> n \<noteq> 0 then (- EINVAL, w)
      else let (now, w1) = monotonic_ms w;
               deadline = now + (if timeout_ms > 0 then timeout_ms else RP_DEFAULT_IO_TIMEOUT_MS)
           in write_loop (bytes_at buf n) deadline 0 w1)"

function read_loop :: "nat \<Rightarrow> os \<Rightarrow> int \<times> byte list \<times> os" where
  "read_loop n w =
     (let (len, bs, w') = sys_read n w
      in if len > 0 then (len, bs, w')
         else if len = 0 then (- EPIPE, [], w')
         else if os_errno w' = EINTR then read_loop n w'
         else if os_errno w' = EAGAIN then (- EAGAIN, [], w')
         else (- os_errno w', [], w'))"
  by pat_completeness auto
termination
  by (relation "measure (\<lambda>(n, w). length (os_reads w))")
    (auto simp: sys_read_def split: list.splits read_answer.splits if_splits)

declare read_loop.simps [simp del]

text \<open>The result is the return value, the bytes stored at \<^verbatim>\<open>buf\<close>, and the state.\<close>

definition read_some_fd :: "bool \<Rightarrow> nat \<Rightarrow> int \<Rightarrow> os \<Rightarrow> int \<times> byte list \<times> os" where
  "read_some_fd buf n timeout_ms w =
     (if \<not> buf \<or> n = 0 then (- EINVAL, [], w)
      else let (ready, w1) = wait_fd timeout_ms w
           in if ready < 0 then (ready, [], w1) else read_loop n w1)"

subsection \<open>The send buffer\<close>

definition buffered_write :: "byte list option \<Rightarrow> nat \<Rightarrow> com \<Rightarrow> int \<times> com" where
  "buffered_write buf n c =
     (if (buf = None \<and> n \<noteq> 0) \<or> n > RP_SEND_BUFFER_SIZE then (- EINVAL, c)
      else if fg_send_buffer_size c + n > RP_SEND_BUFFER_SIZE then (- ENOBUFS, c)
      else (int n, c\<lparr>fg_send_buffer := poke (fg_send_buffer_size c) (bytes_at buf n) (fg_send_buffer c),
                      fg_send_buffer_size := fg_send_buffer_size c + n\<rparr>))"

definition flush_buffer_locked :: "com_desc option \<Rightarrow> com \<Rightarrow> int \<times> com" where
  "flush_buffer_locked desc c =
     (if fg_send_buffer_size c = 0 then (0, c)
      else if get_usb_fd desc < 0 then (- EINVAL, c)
      else let (ret, w) = write_all_fd (Some (fg_send_buffer c)) (fg_send_buffer_size c)
                            (d_io_timeout_ms (the desc)) (com_os c);
               c' = c\<lparr>com_os := w\<rparr>
           in if ret < 0 then (ret, c') else (ret, c'\<lparr>fg_send_buffer_size := 0\<rparr>))"

definition raspike_usb_buffer_flush :: "com_desc option \<Rightarrow> com \<Rightarrow> com" where
  "raspike_usb_buffer_flush desc c = snd (flush_buffer_locked desc c)"

definition raspike_usb_set_mode :: "int \<Rightarrow> com \<Rightarrow> com" where
  "raspike_usb_set_mode mode c =
     c\<lparr>fg_send_mode := (if mode = RASPIKE_USB_MODE_BUFFERED then RASPIKE_USB_MODE_BUFFERED
                        else RASPIKE_USB_MODE_NORMAL)\<rparr>"

subsection \<open>The USB descriptor's operations\<close>

definition rp_usb_send :: "com_desc option \<Rightarrow> byte list option \<Rightarrow> int \<Rightarrow> com \<Rightarrow> int \<times> com" where
  "rp_usb_send desc buf n c =
     (if n < 0 then (- EINVAL, c)
      else if fg_send_mode c = RASPIKE_USB_MODE_BUFFERED then buffered_write buf (nat n) c
      else if get_usb_fd desc < 0 then (- EINVAL, c)
      else let (ret, w) = write_all_fd buf (nat n) (d_io_timeout_ms (the desc)) (com_os c)
           in (ret, c\<lparr>com_os := w\<rparr>))"

definition rp_usb_receive :: "com_desc option \<Rightarrow> bool \<Rightarrow> int \<Rightarrow> int \<Rightarrow> os \<Rightarrow> int \<times> byte list \<times> os" where
  "rp_usb_receive desc buf n timeout_ms w =
     (if n \<le> 0 then (- EINVAL, [], w)
      else if get_usb_fd desc < 0 then (- EINVAL, [], w)
      else read_some_fd buf (nat n) timeout_ms w)"

text \<open>Closing sets the descriptor's number to -1, so the descriptor is part of the result.\<close>

definition rp_usb_close :: "com_desc option \<Rightarrow> com \<Rightarrow> int \<times> com_desc option \<times> com" where
  "rp_usb_close desc c =
     (if get_usb_fd desc < 0 then (- EINVAL, desc, c)
      else let (ret, w) = sys_close (com_os c)
           in (if ret = 0 then 0 else - os_errno w,
               map_option (\<lambda>d. d\<lparr>d_desc := -1\<rparr>) desc, c\<lparr>com_os := w\<rparr>))"

definition rp_usb_flush :: "com_desc option \<Rightarrow> com \<Rightarrow> int \<times> com" where
  "rp_usb_flush desc c =
     (let (ret, c') = flush_buffer_locked desc c in (if ret < 0 then ret else 0, c'))"

definition B115200 :: nat where "B115200 = 0x1002"

definition raspike_open_usb_communication :: "string option \<Rightarrow> com \<Rightarrow> com_desc option \<times> com" where
  "raspike_open_usb_communication device_name c =
     (if device_name = None then (None, c)
      else let (fd, w1) = sys_open (com_os c) in
      if fd < 0 then (None, c\<lparr>com_os := w1\<rparr>)
      else let t0 = \<lparr>c_iflag = 0, c_oflag = 0, c_cflag = 0, c_lflag = 0, c_ispeed = 0, c_ospeed = 0,
                     c_vmin = 0, c_vtime = 0\<rparr>;
               (got, tio, w2) = sys_tcgetattr t0 w1 in
      if got \<noteq> 0 then
        let saved = os_errno w2; (_, w3) = sys_close w2
        in (None, c\<lparr>com_os := w3\<lparr>os_errno := saved\<rparr>\<rparr>)
      else let tio1 = cfmakeraw tio;
               tio2 = tio1\<lparr>c_ispeed := B115200, c_ospeed := B115200\<rparr>;
               tio3 = tio2\<lparr>c_cflag := c_cflag tio2 OR (CLOCAL OR CREAD OR CS8)\<rparr>;
               tio4 = tio3\<lparr>c_cflag := c_cflag tio3 AND NOT (CSTOPB OR PARENB OR CRTSCTS)\<rparr>;
               tio5 = tio4\<lparr>c_vmin := 0, c_vtime := 0\<rparr>;
               (set, w3) = sys_tcsetattr tio5 w2 in
      if set \<noteq> 0 then
        let saved = os_errno w3; (_, w4) = sys_close w3
        in (None, c\<lparr>com_os := w4\<lparr>os_errno := saved\<rparr>\<rparr>)
      else let (_, w4) = sys_tcflush_input w3;
               (ok, w5) = sys_calloc w4 in
      if \<not> ok then let (_, w6) = sys_close w5 in (None, c\<lparr>com_os := w6\<rparr>)
      else (Some \<lparr>d_type = RP_COM_TYPE_USB, d_desc = fd,
                  d_io_timeout_ms = RP_DEFAULT_IO_TIMEOUT_MS, d_send_set = True,
                  d_receive_set = True, d_close_set = True, d_flush_set = True\<rparr>,
            c\<lparr>com_os := w5\<rparr>))"

subsection \<open>The interface of the layer\<close>

definition raspike_com_discard_input :: "com_desc option \<Rightarrow> com \<Rightarrow> int \<times> com" where
  "raspike_com_discard_input desc c =
     (if get_usb_fd desc < 0 then (- EINVAL, c)
      else let (ret, w) = sys_tcflush_input (com_os c)
           in (if ret \<noteq> 0 then - os_errno w else 0, c\<lparr>com_os := w\<rparr>))"

definition raspike_com_send :: "com_desc option \<Rightarrow> byte list option \<Rightarrow> int \<Rightarrow> com \<Rightarrow> int \<times> com" where
  "raspike_com_send desc buf n c =
     (if desc = None \<or> \<not> d_send_set (the desc) then (- EINVAL, c)
      else rp_usb_send desc buf n c)"

function receive_loop ::
  "com_desc option \<Rightarrow> int \<Rightarrow> int \<Rightarrow> byte list \<Rightarrow> os \<Rightarrow> int \<times> byte list \<times> os" where
  "receive_loop desc n deadline received w =
     (if int (length received) < n then
        let (now, w1) = monotonic_ms w;
            remaining_ms = c_int (deadline - now)
        in if remaining_ms \<le> 0 then (- ETIMEDOUT, received, w1) else
        let (len, bs, w2) = rp_usb_receive desc True (n - int (length received)) remaining_ms w1
        in if len > 0 then receive_loop desc n deadline (received @ bs) w2
           else if len = - EAGAIN \<or> len = - EINTR then receive_loop desc n deadline received w2
           else (len, received, w2)
      else (int (length received), received, w))"
  by pat_completeness auto

lemma read_loop_props:
  assumes "read_loop n w = (r, bs, w')"
  shows "os_polls w' = os_polls w \<and> os_tx w' = os_tx w \<and> os_writes w' = os_writes w \<and>
    os_ticks w' = os_ticks w \<and>
    rx_bytes (os_reads w) = bs @ rx_bytes (os_reads w') \<and> r \<noteq> 0 \<and>
    (0 < r \<longrightarrow> r = int (length bs) \<and> length bs \<le> n) \<and> (r < 0 \<longrightarrow> bs = [])"
  using assms
proof (induction n w rule: read_loop.induct)
  case (1 n w)
  obtain len got w1 where call: "sys_read n w = (len, got, w1)"
    by (cases "sys_read n w") auto
  note facts = sys_read_frame [OF call] sys_read_stream [OF call] sys_read_errno [OF call]
    sys_read_length [OF call] sys_read_nothing [OF call]
  show ?case
  proof (cases "len < 0 \<and> os_errno w1 = EINTR")
    case True
    then have "got = []"
      using facts by simp
    moreover from True "1.prems" call have "read_loop n w1 = (r, bs, w')"
      by (simp add: read_loop.simps [of n w])
    moreover from True have "\<not> 0 < len" "len \<noteq> 0" "os_errno w1 = EINTR" by auto
    note "1.IH" [OF call [symmetric] refl refl this]
    ultimately show ?thesis using facts by simp
  next
    case False
    then show ?thesis
      using "1.prems" call facts by (auto simp: read_loop.simps [of n w] split: if_splits)
  qed
qed

lemma rp_usb_receive_props:
  assumes "rp_usb_receive desc buf n t w = (r, bs, w')"
  shows "os_tx w' = os_tx w \<and> os_writes w' = os_writes w \<and>
    rx_bytes (os_reads w) = bs @ rx_bytes (os_reads w') \<and> r \<noteq> 0 \<and>
    (0 < r \<longrightarrow> r = int (length bs) \<and> r \<le> n) \<and> (r < 0 \<longrightarrow> bs = [])"
  using assms read_loop_props wait_fd_frame wait_fd_nonpos
  by (fastforce simp: rp_usb_receive_def read_some_fd_def split: if_splits prod.splits)

lemma rp_usb_receive_consumes:
  assumes "rp_usb_receive desc buf n t w = (r, bs, w')"
    and "0 < r \<or> r = - EAGAIN \<or> r = - EINTR"
  shows "length (os_polls w') < length (os_polls w)"
proof -
  from assms obtain ready w1 where wait: "wait_fd t w = (ready, w1)"
    by (cases "wait_fd t w") auto
  with assms have "ready \<noteq> - ETIMEDOUT" and "os_polls w' = os_polls w1"
    using read_loop_props [of "nat n" w1] wait_fd_nonpos [OF wait]
    by (auto simp: rp_usb_receive_def read_some_fd_def split: if_splits prod.splits)
  with wait_fd_consumes [OF wait] show ?thesis by simp
qed

termination receive_loop
proof (relation "measure (\<lambda>(d, n, dl, rs, w). length (os_polls w))", goal_cases)
  case (2 desc n deadline received w p now w1 remaining q len s bs w2)
  then show ?case
    using rp_usb_receive_consumes [of desc True "n - int (length received)" remaining w1 len bs w2]
      monotonic_ms_frame [of w now w1] by simp
next
  case (3 desc n deadline received w p now w1 remaining q len s bs w2)
  then show ?case
    using rp_usb_receive_consumes [of desc True "n - int (length received)" remaining w1 len bs w2]
      monotonic_ms_frame [of w now w1] by simp
qed simp

declare receive_loop.simps [simp del]

definition raspike_com_receive_timeout ::
  "com_desc option \<Rightarrow> bool \<Rightarrow> int \<Rightarrow> int \<Rightarrow> com \<Rightarrow> int \<times> byte list \<times> com" where
  "raspike_com_receive_timeout desc buf n timeout_ms c =
     (if desc = None \<or> \<not> d_receive_set (the desc) \<or> \<not> buf \<or> n < 0 then (- EINVAL, [], c)
      else if n = 0 then (0, [], c)
      else let (now, w1) = monotonic_ms (com_os c);
               deadline = now + (if timeout_ms > 0 then timeout_ms else RP_DEFAULT_IO_TIMEOUT_MS);
               (ret, bs, w2) = receive_loop desc n deadline [] w1
           in (ret, bs, c\<lparr>com_os := w2\<rparr>))"

definition raspike_com_receive ::
  "com_desc option \<Rightarrow> bool \<Rightarrow> int \<Rightarrow> com \<Rightarrow> int \<times> byte list \<times> com" where
  "raspike_com_receive desc buf n c =
     raspike_com_receive_timeout desc buf n RP_DEFAULT_IO_TIMEOUT_MS c"

definition raspike_com_close :: "com_desc option \<Rightarrow> com \<Rightarrow> int \<times> com_desc option \<times> com" where
  "raspike_com_close desc c =
     (if desc = None then (- EINVAL, desc, c)
      else if d_close_set (the desc) then rp_usb_close desc c
      else (0, desc, c))"

definition raspike_com_flush :: "com_desc option \<Rightarrow> com \<Rightarrow> int \<times> com" where
  "raspike_com_flush desc c =
     (if desc = None \<or> \<not> d_flush_set (the desc) then (- EINVAL, c) else rp_usb_flush desc c)"

subsection \<open>What is written\<close>

text \<open>
  The write loop puts a prefix of its buffer on the line, in order, and reports success exactly
  when the prefix is everything.
\<close>

lemma write_loop_props:
  assumes "write_loop bs deadline k w = (r, w')" "k \<le> length bs"
  shows "os_reads w' = os_reads w \<and> (\<exists>m. k \<le> m \<and> m \<le> length bs \<and>
    os_tx w' = os_tx w @ take (m - k) (drop k bs) \<and>
    (0 \<le> r \<longrightarrow> m = length bs \<and> r = int (length bs)) \<and> (r < 0 \<longrightarrow> m < length bs))"
  using assms
proof (induction bs deadline k w rule: write_loop.induct)
  case (1 bs deadline k w)
  show ?case
  proof (cases "k < length bs")
    case False
    with "1.prems" show ?thesis by (auto simp: write_loop.simps [of bs deadline k w] intro!: exI [of _ k])
  next
    case True
    obtain now w1 where mono: "monotonic_ms w = (now, w1)" by (cases "monotonic_ms w")
    let ?rem = "c_int (deadline - now)"
    obtain ready w2 where wait: "wait_fd ?rem w1 = (ready, w2)" by (cases "wait_fd ?rem w1")
    obtain len w3 where wr: "sys_write (drop k bs) w2 = (len, w3)" by (cases "sys_write (drop k bs) w2")
    note same = monotonic_ms_frame [OF mono] wait_fd_frame [OF wait] sys_write_frame [OF wr]
    note tx = sys_write_tx [OF wr] and errs = sys_write_errno [OF wr] wait_fd_nonpos [OF wait]
    note unfold = write_loop.simps [of bs deadline k w]
    show ?thesis
    proof (cases "?rem \<le> 0 \<or> ready < 0")
      case True
      with "1.prems" mono wait wr same \<open>k < length bs\<close> show ?thesis
        by (auto simp: unfold Let_def intro!: exI [of _ k] split: if_splits)
    next
      case go: False
      show ?thesis
      proof (cases "len > 0")
        case True
        with "1.prems" mono wait wr go \<open>k < length bs\<close>
        have "write_loop bs deadline (k + nat len) w3 = (r, w')"
          by (simp add: unfold Let_def)
        moreover have "k + nat len \<le> length bs" using tx(2) True by simp
        ultimately obtain m where m: "k + nat len \<le> m" "m \<le> length bs"
          "os_reads w' = os_reads w3"
          "os_tx w' = os_tx w3 @ take (m - (k + nat len)) (drop (k + nat len) bs)"
          "0 \<le> r \<longrightarrow> m = length bs \<and> r = int (length bs)" "r < 0 \<longrightarrow> m < length bs"
          using "1.IH"(1) [OF \<open>k < length bs\<close> mono [symmetric] refl refl _ wait [symmetric] refl _
              wr [symmetric] refl True] go by blast
        have "take (nat len) (drop k bs) @ take (m - (k + nat len)) (drop (k + nat len) bs) =
            take (m - k) (drop k bs)"
          using m(1) take_add [of "nat len" "m - (k + nat len)" "drop k bs"]
          by (simp add: add.commute)
        with m tx same show ?thesis by (intro conjI exI [of _ m]) auto
      next
        case notpos: False
        show ?thesis
        proof (cases "len < 0 \<and> (os_errno w3 = EINTR \<or> os_errno w3 = EAGAIN)")
          case True
          with "1.prems" mono wait wr go notpos \<open>k < length bs\<close>
          have "write_loop bs deadline k w3 = (r, w')"
            by (simp add: unfold Let_def)
          from "1.IH"(2) [OF \<open>k < length bs\<close> mono [symmetric] refl refl _ wait [symmetric] refl _
              wr [symmetric] refl notpos True this "1.prems"(2)] go same tx notpos
          show ?thesis by auto
        next
          case False
          with "1.prems" mono wait wr go notpos same tx errs \<open>k < length bs\<close> show ?thesis
            by (auto simp: unfold Let_def intro!: exI [of _ k] split: if_splits)
        qed
      qed
    qed
  qed
qed

lemma write_all_fd_props:
  assumes "write_all_fd buf n t w = (r, w')"
  shows "os_reads w' = os_reads w \<and> (\<exists>m \<le> length (bytes_at buf n).
    os_tx w' = os_tx w @ take m (bytes_at buf n) \<and>
    (0 \<le> r \<longrightarrow> m = length (bytes_at buf n) \<and> r = int m) \<and>
    (r < 0 \<and> (buf \<noteq> None \<or> n = 0) \<longrightarrow> m < length (bytes_at buf n)))"
proof (cases "buf = None \<and> n \<noteq> 0")
  case True
  with assms show ?thesis by (auto simp: write_all_fd_def)
next
  case False
  obtain now w1 where mono: "monotonic_ms w = (now, w1)" by (cases "monotonic_ms w")
  with False assms have loop: "write_loop (bytes_at buf n)
      (now + (if t > 0 then t else RP_DEFAULT_IO_TIMEOUT_MS)) 0 w1 = (r, w')"
    by (auto simp: write_all_fd_def Let_def split: if_splits)
  from write_loop_props [OF loop] monotonic_ms_frame [OF mono] show ?thesis by auto
qed

subsection \<open>What is received\<close>

lemma receive_loop_props:
  assumes "receive_loop desc n deadline rs w = (r, bs, w')" "int (length rs) \<le> n"
  shows "os_tx w' = os_tx w \<and> os_writes w' = os_writes w \<and>
    (\<exists>got. bs = rs @ got \<and> rx_bytes (os_reads w) = got @ rx_bytes (os_reads w')) \<and>
    int (length bs) \<le> n \<and> (0 \<le> r \<longrightarrow> r = n \<and> int (length bs) = n) \<and>
    (r < 0 \<longrightarrow> int (length bs) < n)"
  using assms
proof (induction desc n deadline rs w rule: receive_loop.induct)
  case (1 desc n deadline rs w)
  note unfold = receive_loop.simps [of desc n deadline rs w]
  show ?case
  proof (cases "int (length rs) < n")
    case False
    with "1.prems" show ?thesis by (auto simp: unfold)
  next
    case more: True
    obtain now w1 where mono: "monotonic_ms w = (now, w1)" by (cases "monotonic_ms w")
    let ?rem = "c_int (deadline - now)"
    obtain len got w2 where rcv: "rp_usb_receive desc True (n - int (length rs)) ?rem w1 = (len, got, w2)"
      by (cases "rp_usb_receive desc True (n - int (length rs)) ?rem w1") auto
    note facts = monotonic_ms_frame [OF mono] rp_usb_receive_props [OF rcv]
    consider "?rem \<le> 0" | "?rem > 0" "len > 0"
      | "?rem > 0" "\<not> len > 0" "len = - EAGAIN \<or> len = - EINTR"
      | "?rem > 0" "\<not> len > 0" "\<not> (len = - EAGAIN \<or> len = - EINTR)" by linarith
    then show ?thesis
    proof cases
      case 1
      with "1.prems" mono rcv more facts show ?thesis by (auto simp: unfold Let_def)
    next
      case 2
      with "1.prems" mono rcv more have "receive_loop desc n deadline (rs @ got) w2 = (r, bs, w')"
        by (simp add: unfold Let_def)
      moreover have "int (length (rs @ got)) \<le> n" using facts 2 by auto
      ultimately show ?thesis
        using "1.IH"(1) [OF more mono [symmetric] refl refl _ rcv [symmetric] refl refl \<open>len > 0\<close>]
          facts 2 by auto
    next
      case 3
      with "1.prems" mono rcv more have "receive_loop desc n deadline rs w2 = (r, bs, w')"
        by (auto simp: unfold Let_def)
      then show ?thesis
        using "1.IH"(2) [OF more mono [symmetric] refl refl _ rcv [symmetric] refl refl 3(2,3)]
          facts 3 "1.prems"(2) by auto
    next
      case 4
      with "1.prems" mono rcv more facts show ?thesis by (auto simp: unfold Let_def)
    qed
  qed
qed

lemma receive_timeout_props:
  assumes "raspike_com_receive_timeout desc buf n t c = (r, bs, c')"
  shows "\<exists>w'. c' = c\<lparr>com_os := w'\<rparr> \<and> os_tx w' = os_tx (com_os c) \<and>
    os_writes w' = os_writes (com_os c) \<and>
    rx_bytes (os_reads (com_os c)) = bs @ rx_bytes (os_reads w') \<and>
    int (length bs) \<le> max 0 n \<and> (0 \<le> r \<longrightarrow> r = n \<and> int (length bs) = n) \<and>
    (r < 0 \<and> 0 < n \<longrightarrow> int (length bs) < n)"
proof (cases "desc = None \<or> \<not> d_receive_set (the desc) \<or> \<not> buf \<or> n < 0 \<or> n = 0")
  case True
  with assms show ?thesis
    by (auto simp: raspike_com_receive_timeout_def split: if_splits intro!: exI [of _ "com_os c"])
next
  case False
  obtain now w1 where mono: "monotonic_ms (com_os c) = (now, w1)" by (cases "monotonic_ms (com_os c)")
  let ?deadline = "now + (if t > 0 then t else RP_DEFAULT_IO_TIMEOUT_MS)"
  obtain w2 where loop: "receive_loop desc n ?deadline [] w1 = (r, bs, w2)" and c': "c' = c\<lparr>com_os := w2\<rparr>"
    using False assms mono by (auto simp: raspike_com_receive_timeout_def split: prod.splits)
  from receive_loop_props [OF loop] False monotonic_ms_frame [OF mono] c' show ?thesis
    by (intro exI [of _ w2]) auto
qed

text \<open>The layer's bytes to come; the exact source the protocol layer relies on.\<close>

definition incoming :: "com \<Rightarrow> byte list" where
  "incoming c = rx_bytes (os_reads (com_os c))"

interpretation usb: byte_source
  "\<lambda>n. rp_usb_receive desc True (int n) t" "\<lambda>w. rx_bytes (os_reads w)" for desc t
  by unfold_locales (fastforce dest!: rp_usb_receive_props)+

interpretation link: exact_source
  "\<lambda>n. raspike_com_receive_timeout desc True (int n) t" incoming for desc t
  by unfold_locales (fastforce simp: incoming_def dest!: receive_timeout_props)+

subsection \<open>The send buffer is a bounded queue\<close>

definition com_wf :: "com \<Rightarrow> bool" where
  "com_wf c \<longleftrightarrow> length (fg_send_buffer c) = RP_SEND_BUFFER_SIZE \<and>
     fg_send_buffer_size c \<le> RP_SEND_BUFFER_SIZE"

definition queued :: "com \<Rightarrow> byte list" where
  "queued c = take (fg_send_buffer_size c) (fg_send_buffer c)"

definition on_line :: "com \<Rightarrow> byte list" where
  "on_line c = os_tx (com_os c)"

lemma com_wf_initial: "com_wf (initial_com w)"
  by (simp add: com_wf_def initial_com_def)

lemma length_queued: "com_wf c \<Longrightarrow> length (queued c) = fg_send_buffer_size c"
  by (simp add: com_wf_def queued_def)

lemma bytes_at_Some [simp]: "bytes_at (Some bs) (length bs) = bs"
  by (simp add: bytes_at_def)

lemma buffered_write_props:
  assumes "com_wf c" "buffered_write (Some bs) (length bs) c = (r, c')"
  shows "com_wf c'" "r < 0 \<longleftrightarrow> RP_SEND_BUFFER_SIZE < length (queued c) + length bs"
    "0 \<le> r \<Longrightarrow> queued c' = queued c @ bs \<and> on_line c' = on_line c \<and> r = int (length bs)"
  using assms length_queued [OF assms(1)]
  by (auto simp: buffered_write_def com_wf_def queued_def on_line_def take_poke_end
      split: if_splits)

lemma flush_buffer_locked_props:
  assumes "flush_buffer_locked desc c = (r, c')"
  shows "fg_send_buffer c' = fg_send_buffer c \<and> fg_send_mode c' = fg_send_mode c \<and>
    incoming c' = incoming c \<and>
    (0 \<le> r \<longrightarrow> fg_send_buffer_size c' = 0 \<and> on_line c' = on_line c @ queued c) \<and>
    (r < 0 \<longrightarrow> fg_send_buffer_size c' = fg_send_buffer_size c \<and>
       (\<exists>k. on_line c' = on_line c @ take k (queued c)))"
proof (cases "fg_send_buffer_size c = 0 \<or> get_usb_fd desc < 0")
  case True
  with assms show ?thesis
    by (auto simp: flush_buffer_locked_def queued_def split: if_splits intro!: exI [of _ 0])
next
  case False
  obtain ret w where wr: "write_all_fd (Some (fg_send_buffer c)) (fg_send_buffer_size c)
      (d_io_timeout_ms (the desc)) (com_os c) = (ret, w)"
    by (cases "write_all_fd (Some (fg_send_buffer c)) (fg_send_buffer_size c)
      (d_io_timeout_ms (the desc)) (com_os c)")
  have bytes: "bytes_at (Some (fg_send_buffer c)) (fg_send_buffer_size c) = queued c"
    by (simp add: bytes_at_def queued_def)
  from write_all_fd_props [OF wr] assms False wr show ?thesis
    unfolding bytes
    by (auto simp: flush_buffer_locked_def on_line_def incoming_def split: if_splits) blast
qed

interpretation sendq: line_queue
  "\<lambda>bs. buffered_write (Some bs) (length bs)" "flush_buffer_locked desc" queued on_line com_wf
  RP_SEND_BUFFER_SIZE for desc
proof (unfold_locales, goal_cases)
  case (1 s bs r s')
  then show ?case by (rule buffered_write_props(1))
next
  case (2 s bs r s')
  then show ?case by (rule buffered_write_props(3))
next
  case (3 s bs r s')
  then show ?case by (rule buffered_write_props(2))
next
  case (4 bs s r s')
  then show ?case by (auto simp: buffered_write_def split: if_splits)
next
  case (5 s r s')
  with flush_buffer_locked_props [OF 5(2)] show ?case
    by (cases "0 \<le> r") (simp_all add: com_wf_def)
next
  case (6 s r s')
  with flush_buffer_locked_props [OF 6(2)] show ?case by (simp add: queued_def)
next
  case (7 s r s')
  with flush_buffer_locked_props [OF 7(2)] show ?case by (simp add: queued_def)
qed

subsection \<open>A prompt device\<close>

text \<open>
  The other direction: on a device that is always ready and keeps its chunks non-empty, with
  enough bytes to come, a receive ends with all the bytes it was asked for. \<open>usable\<close> is what
  \<^verbatim>\<open>raspike_open_usb_communication\<close> makes of a descriptor.
\<close>

definition usable :: "com_desc option \<Rightarrow> bool" where
  "usable desc \<longleftrightarrow> (\<exists>d. desc = Some d \<and> d_type d = RP_COM_TYPE_USB \<and> 0 \<le> d_desc d \<and>
     d_send_set d \<and> d_receive_set d \<and> d_close_set d \<and> d_flush_set d)"

definition prompt :: "os \<Rightarrow> bool" where
  "prompt w \<longleftrightarrow> os_ticks w = [] \<and> (\<forall>a \<in> set (os_polls w). a = PollEvents 0 POLLIN) \<and>
     (\<forall>a \<in> set (os_reads w). \<exists>bs. a = ReadBytes bs \<and> bs \<noteq> []) \<and>
     length (rx_bytes (os_reads w)) \<le> length (os_polls w)"

lemma prompt_clock: "prompt w \<Longrightarrow> monotonic_ms w = (fst (monotonic_ms w), w)"
  by (simp add: prompt_def monotonic_ms_def clock_gettime_def tick_def Let_def)

lemma usable_fd: "usable desc \<Longrightarrow> 0 \<le> get_usb_fd desc"
  by (auto simp: usable_def get_usb_fd_def)

lemma prompt_usb_receive:
  assumes "prompt w" "usable desc" "0 < n" "rx_bytes (os_reads w) \<noteq> []"
  shows "\<exists>len got w'. rp_usb_receive desc True n t w = (len, got, w') \<and> 0 < len \<and> prompt w' \<and>
    os_now w' = os_now w"
proof -
  from assms obtain bs rest where reads: "os_reads w = ReadBytes bs # rest" and "bs \<noteq> []"
    by (cases "os_reads w") (auto simp: prompt_def)
  then have "0 < length bs" by simp
  from assms obtain ps where polls: "os_polls w = PollEvents 0 POLLIN # ps"
    by (cases "os_polls w") (auto simp: prompt_def)
  define w1 where "w1 = w\<lparr>os_polls := ps\<rparr>"
  define w2 where "w2 = w1\<lparr>os_reads :=
    (if drop (nat n) bs = [] then rest else ReadBytes (drop (nat n) bs) # rest)\<rparr>"
  have "wait_fd t w = (0, w1)"
    by (simp add: wait_fd_def poll_retry.simps sys_poll_def polls w1_def)
  moreover have "read_loop (nat n) w1 = (int (min (nat n) (length bs)), take (nat n) bs, w2)"
    using \<open>bs \<noteq> []\<close> \<open>0 < n\<close> by (simp add: read_loop.simps sys_read_def w1_def w2_def reads)
  moreover have "prompt w2"
    using assms(1) polls reads \<open>0 < length bs\<close> \<open>0 < n\<close>
    by (auto simp: prompt_def w1_def w2_def simp del: length_greater_0_conv)
  ultimately show ?thesis
    using assms(3) usable_fd [OF assms(2)] \<open>bs \<noteq> []\<close>
    by (auto simp: rp_usb_receive_def read_some_fd_def w1_def w2_def)
qed

lemma prompt_receive_loop:
  assumes "prompt w" "usable desc" "int (length rs) \<le> n"
    and "n \<le> int (length rs + length (rx_bytes (os_reads w)))"
    and "0 < deadline - fst (monotonic_ms w)" "deadline - fst (monotonic_ms w) < 2 ^ 31"
  shows "\<exists>bs w'. receive_loop desc n deadline rs w = (n, bs, w') \<and> prompt w' \<and>
    os_now w' = os_now w"
  using assms
proof (induction "length (rx_bytes (os_reads w))" arbitrary: w rs rule: less_induct)
  case less
  show ?case
  proof (cases "int (length rs) < n")
    case False
    with less.prems show ?thesis by (auto simp: receive_loop.simps)
  next
    case True
    obtain now where clock: "monotonic_ms w = (now, w)"
      using prompt_clock [OF less.prems(1)] by blast
    have rem: "c_int (deadline - now) = deadline - now"
      using less.prems clock by (intro c_int_small) auto
    from True less.prems have "rx_bytes (os_reads w) \<noteq> []" "0 < n - int (length rs)" by auto
    from prompt_usb_receive [OF less.prems(1,2) this(2,1), of "deadline - now"]
    obtain len got w' where rcv: "rp_usb_receive desc True (n - int (length rs)) (deadline - now) w
        = (len, got, w')" and "0 < len" "prompt w'" "os_now w' = os_now w" by blast
    from rp_usb_receive_props [OF rcv] \<open>0 < len\<close>
    have stream: "rx_bytes (os_reads w) = got @ rx_bytes (os_reads w')" "got \<noteq> []"
      "int (length got) \<le> n - int (length rs)" by auto
    have "fst (monotonic_ms w') = now"
      using clock \<open>prompt w'\<close> less.prems(1) \<open>os_now w' = os_now w\<close>
      by (auto simp: monotonic_ms_def clock_gettime_def tick_def prompt_def Let_def)
    with less.hyps [of w' "rs @ got"] less.prems clock stream \<open>prompt w'\<close> \<open>os_now w' = os_now w\<close>
    have "\<exists>bs w''. receive_loop desc n deadline (rs @ got) w' = (n, bs, w'') \<and> prompt w'' \<and>
      os_now w'' = os_now w" by simp
    with True clock rem less.prems(5) rcv \<open>0 < len\<close> show ?thesis
      by (simp add: receive_loop.simps [of desc n deadline rs w])
  qed
qed

lemma prompt_receive:
  assumes "prompt (com_os c)" "usable desc" "n \<le> length (incoming c)" "0 < t" "t < 2 ^ 31"
  shows "\<exists>w'. raspike_com_receive_timeout desc True (int n) t c =
      (int n, take n (incoming c), c\<lparr>com_os := w'\<rparr>) \<and> prompt w' \<and>
    rx_bytes (os_reads w') = drop n (incoming c) \<and> os_tx w' = os_tx (com_os c)"
proof -
  let ?call = "raspike_com_receive_timeout desc True (int n) t c"
  let ?now = "fst (monotonic_ms (com_os c))"
  have clock: "monotonic_ms (com_os c) = (?now, com_os c)" using prompt_clock [OF assms(1)] .
  have "\<exists>bs w'. ?call = (int n, bs, c\<lparr>com_os := w'\<rparr>) \<and> prompt w'"
  proof (cases "n = 0")
    case True
    then show ?thesis
      using assms by (auto simp: raspike_com_receive_timeout_def usable_def intro!: exI [of _ "com_os c"])
  next
    case False
    obtain bs w' where "receive_loop desc (int n) (?now + t) [] (com_os c) = (int n, bs, w')" "prompt w'"
      using prompt_receive_loop [OF assms(1,2), of "[]" "int n" "?now + t"] assms
      by (auto simp: incoming_def)
    moreover have "desc \<noteq> None" "d_receive_set (the desc)" using assms(2) by (auto simp: usable_def)
    ultimately show ?thesis
      using False assms clock by (auto simp: raspike_com_receive_timeout_def Let_def split: prod.splits)
  qed
  then obtain bs w' where call: "?call = (int n, bs, c\<lparr>com_os := w'\<rparr>)" and "prompt w'" by blast
  from receive_timeout_props [OF call] have "os_tx w' = os_tx (com_os c)"
    by (metis com.select_convs(1) com.surjective com.update_convs(1))
  with link.recv_take [OF call] \<open>prompt w'\<close> call show ?thesis
    by (auto simp: incoming_def)
qed

end
