(* ===== verification/Link.thy ===== *)
theory Link
  imports Payloads Com
begin

section \<open>The state of the protocol module (\<^verbatim>\<open>src/raspike_protocol.c\<close>,
  \<^verbatim>\<open>src/raspike_internal.h\<close>)\<close>

text \<open>
  The static variables of \<^verbatim>\<open>raspike_protocol.c\<close> as one record, the per-port devices, the
  statistics, the sequence counter and the reset of all ports. The mutexes and condition
  variables are not fields: a section under a mutex is one step of the model. Where a thread
  waits on a condition the other threads' steps come in between, which the functions that wait
  take as an argument.
\<close>

definition RP_PORT_NUMBER :: nat where [simp]: "RP_PORT_NUMBER = 7"
definition RP_DEVICE_PORT_COUNT :: byte where [simp]: "RP_DEVICE_PORT_COUNT = 6"
definition RP_HUB_DEVICE_INDEX :: nat where [simp]: "RP_HUB_DEVICE_INDEX = 6"

record pup_device =
  port_id :: byte
  device_type :: byte
  pd_cmd :: byte
  pd_power :: int

record port_device =
  device :: pup_device
  pending_sequence :: u32
  ack_sequence :: u32
  ack_session :: u32
  ack_cmd :: int
  ack_data :: int
  pending :: bool

record link_stats =
  tx_frames :: u64
  rx_frames :: u64
  rx_legacy_frames :: u64
  crc_errors :: u64
  framing_errors :: u64
  session_errors :: u64
  request_timeouts :: u64
  request_retries :: u64
  stale_acks :: u64

record rp =
  rp_com :: com
  fgStatus :: "spike_status option"
  fgDesc :: "com_desc option"
  fgRuntimeTelemetry :: runtime_telemetry
  gPortDevices :: "port_device list"
  fgHandshakeComplete :: bool
  fgStopCommunication :: bool
  fgPortSynchronizationInitialized :: bool
  fgUseProtocolV2 :: bool
  fgSessionId :: u32
  fgCapabilities :: u32
  fgActiveReceivers :: int
  fgNextSequence :: u32
  fgVersionMajor :: byte
  fgVersionMinor :: byte
  fgVersionPatch :: byte
  fgLinkStats :: link_stats

definition zero_device :: pup_device where
  "zero_device = \<lparr>port_id = 0, device_type = 0, pd_cmd = 0, pd_power = 0\<rparr>"

definition zero_link_stats :: link_stats where
  "zero_link_stats = \<lparr>tx_frames = 0, rx_frames = 0, rx_legacy_frames = 0, crc_errors = 0,
     framing_errors = 0, session_errors = 0, request_timeouts = 0, request_retries = 0,
     stale_acks = 0\<rparr>"

text \<open>\<^verbatim>\<open>memset\<close> of a port device and the initialisation of its mutexes.\<close>

definition init_port_device :: port_device where
  "init_port_device = \<lparr>device = zero_device, pending_sequence = 0, ack_sequence = 0,
     ack_session = 0, ack_cmd = 0, ack_data = 0, pending = False\<rparr>"

text \<open>The static initialisers, before \<^verbatim>\<open>raspike_prot_init\<close>.\<close>

definition initial_rp :: "os \<Rightarrow> rp" where
  "initial_rp w =
     \<lparr>rp_com = initial_com w, fgStatus = None, fgDesc = None,
      fgRuntimeTelemetry = zero_runtime_telemetry,
      gPortDevices = replicate RP_PORT_NUMBER init_port_device, fgHandshakeComplete = False,
      fgStopCommunication = False, fgPortSynchronizationInitialized = False,
      fgUseProtocolV2 = False, fgSessionId = 0, fgCapabilities = 0, fgActiveReceivers = 0,
      fgNextSequence = 1, fgVersionMajor = 0, fgVersionMinor = 0, fgVersionPatch = 0,
      fgLinkStats = zero_link_stats\<rparr>"

subsection \<open>Statistics and deadlines\<close>

text \<open>The counter is given by its update function, as the code gives its address.\<close>

definition stats_increment :: "((u64 \<Rightarrow> u64) \<Rightarrow> link_stats \<Rightarrow> link_stats) \<Rightarrow> rp \<Rightarrow> rp" where
  "stats_increment counter s = s\<lparr>fgLinkStats := counter (\<lambda>n. n + 1) (fgLinkStats s)\<rparr>"

definition deadline_after_ms :: "clock_id \<Rightarrow> int \<Rightarrow> os \<Rightarrow> timespec \<times> os" where
  "deadline_after_ms clk timeout_ms w =
     (let (now, w') = clock_gettime clk w;
          d = now\<lparr>tv_sec := tv_sec now + c_div timeout_ms 1000,
                  tv_nsec := tv_nsec now + c_mod timeout_ms 1000 * 1000000\<rparr>
      in (if tv_nsec d \<ge> 1000000000
          then d\<lparr>tv_sec := tv_sec d + 1, tv_nsec := tv_nsec d - 1000000000\<rparr> else d, w'))"

subsection \<open>Ports\<close>

definition raspike_is_valid_port :: "byte \<Rightarrow> bool" where
  "raspike_is_valid_port port \<longleftrightarrow> port < RP_DEVICE_PORT_COUNT \<or> port = RP_PORT_NONE"

text \<open>The address of a port's device is its index in \<^verbatim>\<open>gPortDevices\<close>.\<close>

definition getDevice :: "byte \<Rightarrow> nat option" where
  "getDevice port =
     (if port = RP_PORT_NONE then Some RP_HUB_DEVICE_INDEX
      else if port \<ge> RP_DEVICE_PORT_COUNT then None
      else Some (unat port))"

definition update_device :: "nat \<Rightarrow> (port_device \<Rightarrow> port_device) \<Rightarrow> rp \<Rightarrow> rp" where
  "update_device i f s = s\<lparr>gPortDevices := (gPortDevices s)[i := f (gPortDevices s ! i)]\<rparr>"

definition cancel_pending :: "int \<Rightarrow> u32 \<Rightarrow> port_device \<Rightarrow> port_device" where
  "cancel_pending error session dev =
     (if pending dev
      then dev\<lparr>ack_data := error, ack_cmd := -1, ack_sequence := pending_sequence dev,
               ack_session := session, pending := False\<rparr>
      else dev\<lparr>pending_sequence := 0, ack_sequence := 0, ack_session := 0, ack_cmd := 0,
               ack_data := 0\<rparr>)"

definition reset_port_state :: "int \<Rightarrow> bool \<Rightarrow> rp \<Rightarrow> rp" where
  "reset_port_state error clear_devices s =
     s\<lparr>gPortDevices := map (\<lambda>dev.
         let dev' = cancel_pending error (fgSessionId s) dev
         in if clear_devices then dev'\<lparr>device := zero_device\<rparr> else dev') (gPortDevices s)\<rparr>"

definition next_sequence :: "rp \<Rightarrow> u32 \<times> rp" where
  "next_sequence s =
     (let n = fgNextSequence s + 1
      in (fgNextSequence s, s\<lparr>fgNextSequence := (if n = 0 then 1 else n)\<rparr>))"

subsection \<open>The link below\<close>

definition com_send :: "byte list \<Rightarrow> int \<Rightarrow> rp \<Rightarrow> int \<times> rp" where
  "com_send frame n s =
     (let (r, c) = raspike_com_send (fgDesc s) (Some frame) n (rp_com s) in (r, s\<lparr>rp_com := c\<rparr>))"

definition com_flush :: "rp \<Rightarrow> int \<times> rp" where
  "com_flush s = (let (r, c) = raspike_com_flush (fgDesc s) (rp_com s) in (r, s\<lparr>rp_com := c\<rparr>))"

definition com_discard_input :: "rp \<Rightarrow> int \<times> rp" where
  "com_discard_input s =
     (let (r, c) = raspike_com_discard_input (fgDesc s) (rp_com s) in (r, s\<lparr>rp_com := c\<rparr>))"

definition com_receive :: "nat \<Rightarrow> int \<Rightarrow> rp \<Rightarrow> int \<times> byte list \<times> rp" where
  "com_receive n timeout_ms s =
     (let (r, bs, c) = raspike_com_receive_timeout (fgDesc s) True (int n) timeout_ms (rp_com s)
      in (r, bs, s\<lparr>rp_com := c\<rparr>))"

definition upcoming_bytes :: "rp \<Rightarrow> byte list" where
  "upcoming_bytes s = incoming (rp_com s)"

definition wire_out :: "rp \<Rightarrow> byte list" where
  "wire_out s = on_line (rp_com s)"

text \<open>What a step of the link below may change is the link.\<close>

definition same_but_com :: "rp \<Rightarrow> rp \<Rightarrow> bool" where
  "same_but_com s s' \<longleftrightarrow> s' = s\<lparr>rp_com := rp_com s'\<rparr>"

lemma com_send_frame [frame]: "com_send frame n s = (r, s') \<Longrightarrow> same_but_com s s'"
  and com_flush_frame [frame]: "com_flush s = (r, s') \<Longrightarrow> same_but_com s s'"
  and com_discard_frame [frame]: "com_discard_input s = (r, s') \<Longrightarrow> same_but_com s s'"
  and com_receive_frame [frame]: "com_receive k t s = (r, bs, s') \<Longrightarrow> same_but_com s s'"
  by (auto simp: com_send_def com_flush_def com_discard_input_def com_receive_def
      same_but_com_def split: prod.splits)

lemma same_but_com_refl [simp]: "same_but_com s s"
  by (simp add: same_but_com_def)

lemma same_but_com_fields:
  assumes "same_but_com s s'"
  shows "fgStatus s' = fgStatus s" "fgDesc s' = fgDesc s" "gPortDevices s' = gPortDevices s"
    "fgHandshakeComplete s' = fgHandshakeComplete s" "fgUseProtocolV2 s' = fgUseProtocolV2 s"
    "fgStopCommunication s' = fgStopCommunication s" "fgSessionId s' = fgSessionId s"
    "fgCapabilities s' = fgCapabilities s" "fgActiveReceivers s' = fgActiveReceivers s"
    "fgNextSequence s' = fgNextSequence s" "fgLinkStats s' = fgLinkStats s"
    "fgRuntimeTelemetry s' = fgRuntimeTelemetry s"
    "fgPortSynchronizationInitialized s' = fgPortSynchronizationInitialized s"
    "fgVersionMajor s' = fgVersionMajor s" "fgVersionMinor s' = fgVersionMinor s"
    "fgVersionPatch s' = fgVersionPatch s"
  using assms unfolding same_but_com_def by (metis rp.select_convs rp.surjective rp.update_convs(1))+

lemma same_but_com_trans [trans]: "same_but_com s t \<Longrightarrow> same_but_com t u \<Longrightarrow> same_but_com s u"
  unfolding same_but_com_def by (metis rp.update_convs(1) rp.surjective)

lemma wire_out_simps [simp]:
  "wire_out (s\<lparr>rp_com := c\<rparr>) = on_line c" "upcoming_bytes (s\<lparr>rp_com := c\<rparr>) = incoming c"
  by (simp_all add: wire_out_def upcoming_bytes_def)

interpretation rx: exact_source "\<lambda>n. com_receive n t" upcoming_bytes for t
  by unfold_locales
    (auto simp: com_receive_def upcoming_bytes_def split: prod.splits
      dest: link.recv_stream link.recv_count link.recv_bound link.recv_exact)

lemma com_receive_fail: "com_receive k t s = (r, bs, s') \<Longrightarrow> r < 0 \<Longrightarrow> 0 < k \<Longrightarrow> length bs < k"
  by (fastforce simp: com_receive_def split: prod.splits dest: receive_timeout_props)

lemma com_receive_only_os: "com_receive k t s = (r, bs, s') \<Longrightarrow>
    \<exists>w. s' = s\<lparr>rp_com := (rp_com s)\<lparr>com_os := w\<rparr>\<rparr> \<and> os_tx w = os_tx (com_os (rp_com s))"
  by (fastforce simp: com_receive_def split: prod.splits dest: receive_timeout_props)

end
