(* ===== verification/Crc.thy ===== *)
theory Crc
  imports Wire
begin

section \<open>What the frame check detects\<close>

text \<open>
  The CRC of \<^verbatim>\<open>rp_v2_crc16\<close> (CRC-16 with polynomial \<open>0x1021\<close>, start value
  \<open>0xffff\<close>, no reflection). One step is linear over exclusive or and injective, so a byte
  step is injective in the register and in the data byte; from this, no two messages that
  differ in one byte, or in two neighbouring bytes, have the same CRC.
\<close>

lemma top_bit_mask: "(crc :: u16) AND 0x8000 \<noteq> 0 \<longleftrightarrow> bit crc 15"
proof -
  have "(0x8000 :: u16) = 2 ^ 15" by simp
  then show ?thesis
    using and_exp_eq_0_iff_not_bit [of crc 15] by simp
qed

lemma crc16_bit_alt:
  "crc16_bit crc = push_bit 1 crc XOR (if bit crc 15 then 0x1021 else 0)"
  by (simp add: crc16_bit_def top_bit_mask)

lemma crc16_bit_xor: "crc16_bit (a XOR b) = crc16_bit a XOR crc16_bit b"
  by (simp add: crc16_bit_alt push_bit_xor bit_xor_iff xor.assoc xor.left_commute)

lemma crc16_bit_0 [simp]: "crc16_bit 0 = 0"
  by (simp add: crc16_bit_def)

lemma crc16_bit_zero_iff [simp]: "crc16_bit a = 0 \<longleftrightarrow> a = 0"
proof
  assume eq: "crc16_bit a = 0"
  have low: "bit (crc16_bit a) 0 = bit a 15"
    by (simp only: crc16_bit_alt bit_xor_iff bit_push_bit_iff) (simp add: bit_0)
  with eq have top: "\<not> bit a 15" by simp
  with eq have "push_bit 1 a = 0" by (simp add: crc16_bit_alt)
  moreover have "bit (push_bit 1 a) (Suc n) \<longleftrightarrow> Suc n < 16 \<and> bit a n" for n
    by (simp only: bit_push_bit_iff) simp
  ultimately have shifted: "Suc n < 16 \<Longrightarrow> \<not> bit a n" for n
    by (metis bit_0_eq bot_apply bot_bool_def)
  show "a = 0"
  proof (rule bit_word_eqI)
    fix n
    assume "n < LENGTH(16)"
    then show "bit a n = bit 0 n"
      using shifted [of n] top by (cases "n = 15") auto
  qed
qed simp

lemma crc16_bits_xor: "(crc16_bit ^^ n) (a XOR b) = (crc16_bit ^^ n) a XOR (crc16_bit ^^ n) b"
  by (induction n) (simp_all add: crc16_bit_xor)

lemma crc16_bits_zero_iff: "(crc16_bit ^^ n) a = 0 \<longleftrightarrow> a = 0"
  by (induction n) simp_all

lemma xor_eq_0_iff: "(a :: 'a::len word) XOR b = 0 \<longleftrightarrow> a = b"
  by (metis xor.assoc xor.right_neutral xor_self_eq)

lemma crc16_bits_inj [simp]: "(crc16_bit ^^ n) a = (crc16_bit ^^ n) b \<longleftrightarrow> a = b"
  by (metis crc16_bits_xor crc16_bits_zero_iff xor_eq_0_iff)

lemma xor_cancel_right [simp]: "(a :: 'a::len word) XOR c = b XOR c \<longleftrightarrow> a = b"
  by (metis xor.assoc xor.right_neutral xor_self_eq)

lemma xor_cancel_left [simp]: "(c :: 'a::len word) XOR a = c XOR b \<longleftrightarrow> a = b"
  by (metis xor.commute xor_cancel_right)

lemma high_byte_inj [simp]: "(push_bit 8 (ucast a) :: u16) = push_bit 8 (ucast b) \<longleftrightarrow> a = (b :: byte)"
proof
  assume eq: "(push_bit 8 (ucast a) :: u16) = push_bit 8 (ucast b)"
  show "a = b"
  proof (rule bit_word_eqI)
    fix n
    assume "n < LENGTH(8)"
    moreover have "bit (push_bit 8 (ucast a) :: u16) (8 + n) = bit (push_bit 8 (ucast b) :: u16) (8 + n)"
      by (simp only: eq)
    ultimately show "bit a n = bit b n" by (simp add: bit_simps)
  qed
qed simp

lemma crc16_byte_inj_crc [simp]: "crc16_byte c d = crc16_byte c' d \<longleftrightarrow> c = c'"
  by (simp add: crc16_byte_def)

lemma crc16_byte_inj_data [simp]: "crc16_byte c d = crc16_byte c d' \<longleftrightarrow> d = d'"
  by (simp add: crc16_byte_def)

lemma crc16_fold_inj: "foldl crc16_byte c data = foldl crc16_byte c' data \<longleftrightarrow> c = c'"
  by (induction data arbitrary: c c') simp_all

subsection \<open>Two neighbouring bytes\<close>

definition low_image :: "byte \<Rightarrow> byte" where
  "low_image x = ucast ((crc16_bit ^^ 8) (push_bit 8 (ucast x)))"

lemma funpow_8: "(f ^^ 8) x = f (f (f (f (f (f (f (f x)))))))"
  by (simp add: eval_nat_numeral)

lemma low_image_xor: "low_image (a XOR b) = low_image a XOR low_image b"
proof -
  have "push_bit 8 (ucast (a XOR b) :: u16) = push_bit 8 (ucast a) XOR push_bit 8 (ucast b)"
    by (rule bit_word_eqI) (auto simp: bit_simps)
  then show ?thesis
    unfolding low_image_def by (simp add: crc16_bits_xor) (rule bit_word_eqI, simp add: bit_simps)
qed

lemma low_image_basis:
  "low_image 0 = 0" "low_image 1 = 0x21" "low_image 2 = 0x42" "low_image 4 = 0x84"
  "low_image 8 = 0x08" "low_image 16 = 0x31" "low_image 32 = 0x62" "low_image 64 = 0xC4"
  "low_image 128 = 0x88"
  by (simp_all add: low_image_def funpow_8 crc16_bit_def)

lemma byte_basis:
  "(x :: byte) = (if bit x 0 then 1 else 0) XOR (if bit x 1 then 2 else 0)
     XOR (if bit x 2 then 4 else 0) XOR (if bit x 3 then 8 else 0)
     XOR (if bit x 4 then 16 else 0) XOR (if bit x 5 then 32 else 0)
     XOR (if bit x 6 then 64 else 0) XOR (if bit x 7 then 128 else 0)" (is "_ = ?sum")
proof (rule bit_word_eqI)
  fix n
  assume "n < LENGTH(8)"
  then have "n \<in> {0, 1, 2, 3, 4, 5, 6, 7}" by auto
  then show "bit x n = bit ?sum n"
    by (elim insertE emptyE) (simp_all add: bit_xor_iff if_distrib [where f = "\<lambda>w. bit w _"])
qed

lemma low_image_independent:
  assumes "(if b0 then 0x21 else 0) XOR (if b1 then 0x42 else 0) XOR (if b2 then 0x84 else 0)
    XOR (if b3 then 0x08 else 0) XOR (if b4 then 0x31 else 0) XOR (if b5 then 0x62 else 0)
    XOR (if b6 then 0xC4 else 0) XOR (if b7 then 0x88 else 0) = (0 :: byte)"
  shows "\<not> (b0 \<or> b1 \<or> b2 \<or> b3 \<or> b4 \<or> b5 \<or> b6 \<or> b7)"
  using assms
  by (cases b0; cases b1; cases b2; cases b3; cases b4; cases b5; cases b6; cases b7; simp)

lemma low_image_zero:
  assumes "low_image x = 0"
  shows "x = 0"
proof -
  have "low_image (if b then k else 0) = (if b then low_image k else 0)" for b k
    by (simp add: low_image_basis)
  then have "\<not> (bit x 0 \<or> bit x 1 \<or> bit x 2 \<or> bit x 3 \<or> bit x 4 \<or> bit x 5 \<or> bit x 6 \<or> bit x 7)"
    using assms
    by (intro low_image_independent, subst (asm) byte_basis)
      (simp only: low_image_xor low_image_basis)
  then show ?thesis by (subst byte_basis) simp
qed

lemma ucast_low_high: "(ucast (c XOR push_bit 8 (ucast (b :: byte)) :: u16) :: byte) = ucast c"
  by (rule bit_word_eqI) (auto simp: bit_simps)

lemma crc16_two_bytes_inj:
  assumes "crc16_byte (crc16_byte c a) b = crc16_byte (crc16_byte c a') b'"
  shows "a = a' \<and> b = b'"
proof -
  let ?F = "crc16_bit ^^ 8"
  have "crc16_byte c a XOR push_bit 8 (ucast b) = crc16_byte c a' XOR push_bit 8 (ucast b')"
    using assms by (simp add: crc16_byte_def [of _ b] crc16_byte_def [of _ b'])
  then have low: "(ucast (crc16_byte c a) :: byte) = ucast (crc16_byte c a')"
    by (metis ucast_low_high)
  have "crc16_byte c a XOR crc16_byte c a' =
      ?F (push_bit 8 (ucast a) XOR push_bit 8 (ucast a'))"
    unfolding crc16_byte_def crc16_bits_xor [symmetric]
    by (simp add: xor.assoc xor.left_commute)
  also have "push_bit 8 (ucast a :: u16) XOR push_bit 8 (ucast a') = push_bit 8 (ucast (a XOR a'))"
    by (rule bit_word_eqI) (auto simp: bit_simps)
  finally have "low_image (a XOR a') = ucast (crc16_byte c a XOR crc16_byte c a')"
    by (simp add: low_image_def)
  also have "\<dots> = ucast (crc16_byte c a) XOR ucast (crc16_byte c a')"
    by (rule bit_word_eqI) (auto simp: bit_simps)
  finally have "low_image (a XOR a') = 0"
    using low by simp
  then have "a = a'"
    using low_image_zero xor_eq_0_iff by blast
  with assms show ?thesis by simp
qed

subsection \<open>Evaluation\<close>

text \<open>One step on a literal, reduced to sixteen bits so that the simplifier keeps it small.\<close>

lemma word_and_ffff: "(x :: u16) AND 0xFFFF = x"
proof -
  have "(0xFFFF :: u16) = - 1" by simp
  then show ?thesis by (simp only: and.right_neutral)
qed

lemma crc16_bit_numeral:
  "crc16_bit (numeral w) = (if numeral w AND 0x8000 \<noteq> (0 :: u16)
     then ((2 * numeral w) AND 0xFFFF) XOR 0x1021 else (2 * numeral w) AND 0xFFFF)"
  "crc16_bit 1 = 2"
  unfolding word_and_ffff by (simp_all add: crc16_bit_def push_bit_eq_mult mult.commute)

lemmas crc16_eval = rp_v2_crc16_def crc16_byte_def funpow_8 crc16_bit_numeral push_bit_eq_mult

end
