(* ===== verification/Frames.thy ===== *)
theory Frames
  imports Link Crc
begin

section \<open>Building and sending frames (\<^verbatim>\<open>src/raspike_protocol.c\<close>)\<close>

text \<open>
  The two frame builders with their guards, and \<^verbatim>\<open>send_frame\<close> over them. The frame
  buffers are filled the way the code fills them; \<open>v2_frame_bytes\<close> and
  \<open>legacy_frame_bytes\<close> say what the bytes are. The contents of a buffer that the code leaves
  uninitialised are zeros here; no such byte is sent, as \<open>v2_frame_image\<close> shows. Both frame
  formats are interpreted as codes for messages on a byte stream.
\<close>

subsection \<open>Legacy frames\<close>

definition legacy_frame :: "byte \<Rightarrow> byte \<Rightarrow> byte list option \<Rightarrow> nat \<Rightarrow> byte list" where
  "legacy_frame port cmd payload n =
     (let frame = replicate (4 + 255) 0;
          frame = frame[0 := RP_CMD_START, 1 := cmd, 2 := of_nat n, 3 := port]
      in if n > 0 then poke 4 (bytes_at payload n) frame else frame)"

definition send_legacy_frame :: "byte \<Rightarrow> byte \<Rightarrow> byte list option \<Rightarrow> int \<Rightarrow> rp \<Rightarrow> int \<times> rp" where
  "send_legacy_frame port cmd payload n s =
     (if \<not> raspike_is_valid_port port \<or> n < 0 \<or> n > 255 \<or> (n > 0 \<and> payload = None)
      then (- EINVAL, s)
      else com_send (legacy_frame port cmd payload (nat n)) (n + 4) s)"

subsection \<open>Version 2 frames\<close>

definition v2_frame ::
  "byte \<Rightarrow> byte \<Rightarrow> byte list option \<Rightarrow> nat \<Rightarrow> u32 \<Rightarrow> byte \<Rightarrow> u32 \<Rightarrow> byte list" where
  "v2_frame port cmd payload n sequence flags session =
     (let frame = replicate (RP_V2_FRAME_OVERHEAD + RP_V2_MAX_PAYLOAD) 0;
          frame = frame[0 := RP_V2_START,
                        RP_V2_OFFSET_VERSION := RP_V2_VERSION,
                        RP_V2_OFFSET_FLAGS := flags,
                        RP_V2_OFFSET_CMD := cmd,
                        RP_V2_OFFSET_PORT := port,
                        RP_V2_OFFSET_SIZE := of_nat n];
          frame = rp_v2_put_u32 RP_V2_OFFSET_SEQUENCE sequence frame;
          frame = rp_v2_put_u32 RP_V2_OFFSET_SESSION session frame;
          frame = (if n > 0 then poke RP_V2_OFFSET_PAYLOAD (bytes_at payload n) frame else frame);
          crc_input_size = (RP_V2_HEADER_SIZE - 1) + n;
          crc = rp_v2_crc16 (peek 1 crc_input_size frame);
          crc_offset = RP_V2_OFFSET_PAYLOAD + n
      in rp_v2_put_u16 crc_offset crc frame)"

definition send_v2_frame ::
  "byte \<Rightarrow> byte \<Rightarrow> byte list option \<Rightarrow> int \<Rightarrow> u32 \<Rightarrow> byte \<Rightarrow> rp \<Rightarrow> int \<times> rp" where
  "send_v2_frame port cmd payload n sequence flags s =
     (if \<not> raspike_is_valid_port port \<or> n < 0 \<or> n > int RP_V2_MAX_PAYLOAD
         \<or> (n > 0 \<and> payload = None)
      then (- EINVAL, s)
      else com_send (v2_frame port cmd payload (nat n) sequence flags (fgSessionId s))
             (int (RP_V2_OFFSET_PAYLOAD + nat n + RP_V2_CRC_SIZE)) s)"

definition send_frame ::
  "byte \<Rightarrow> byte \<Rightarrow> byte list option \<Rightarrow> int \<Rightarrow> u32 \<Rightarrow> byte \<Rightarrow> bool \<Rightarrow> rp \<Rightarrow> int \<times> rp" where
  "send_frame port cmd payload n sequence flags flush_now s =
     (if fgDesc s = None \<or> fgStopCommunication s then (- ENOTCONN, s)
      else
        let (ret, s1) = (if fgUseProtocolV2 s then send_v2_frame port cmd payload n sequence flags s
                         else send_legacy_frame port cmd payload n s);
            (ret, s2) = (if ret \<ge> 0 \<and> flush_now
                         then let (flush_result, s') = com_flush s1
                              in (if flush_result < 0 then flush_result else ret, s')
                         else (ret, s1))
        in (ret, if ret \<ge> 0 then stats_increment tx_frames_update s2 else s2))"

definition raspike_prot_send :: "byte \<Rightarrow> byte \<Rightarrow> byte list option \<Rightarrow> int \<Rightarrow> rp \<Rightarrow> int \<times> rp" where
  "raspike_prot_send port cmdid buf n s =
     (let (sequence, s') = next_sequence s in send_frame port cmdid buf n sequence 0 False s')"

definition raspike_prot_send_priority ::
  "byte \<Rightarrow> byte \<Rightarrow> byte list option \<Rightarrow> int \<Rightarrow> rp \<Rightarrow> int \<times> rp" where
  "raspike_prot_send_priority port cmdid buf n s =
     (let (sequence, s') = next_sequence s
      in send_frame port cmdid buf n sequence RP_V2_FLAG_HIGH_PRIORITY True s')"

subsection \<open>The bytes of a frame\<close>

record v2_message =
  m_port :: byte
  m_cmd :: byte
  m_flags :: byte
  m_sequence :: u32
  m_session :: u32
  m_payload :: "byte list"

text \<open>What the check covers: everything after the start byte and before the check itself.\<close>

definition v2_body :: "v2_message \<Rightarrow> byte list" where
  "v2_body m = [RP_V2_VERSION, m_flags m, m_cmd m, m_port m, of_nat (length (m_payload m))] @
     le32 (m_sequence m) @ le32 (m_session m) @ m_payload m"

definition v2_frame_bytes :: "v2_message \<Rightarrow> byte list" where
  "v2_frame_bytes m = RP_V2_START # v2_body m @ le16 (rp_v2_crc16 (v2_body m))"

definition v2_valid :: "v2_message \<Rightarrow> bool" where
  "v2_valid m \<longleftrightarrow> length (m_payload m) \<le> RP_V2_MAX_PAYLOAD"

lemma length_v2_body [wire]: "length (v2_body m) = 13 + length (m_payload m)"
  by (simp add: v2_body_def)

lemma length_v2_frame_bytes [wire]:
  "length (v2_frame_bytes m) = RP_V2_FRAME_OVERHEAD + length (m_payload m)"
  by (simp add: v2_frame_bytes_def length_v2_body)

definition v2_header_image :: "v2_message \<Rightarrow> byte list" where
  "v2_header_image m =
     (RP_V2_START # [RP_V2_VERSION, m_flags m, m_cmd m, m_port m, of_nat (length (m_payload m))] @
        le32 (m_sequence m) @ le32 (m_session m)) @ replicate 242 0"

lemma v2_frame_header:
  assumes "payload = m_payload m"
  shows "rp_v2_put_u32 RP_V2_OFFSET_SESSION (m_session m)
      (rp_v2_put_u32 RP_V2_OFFSET_SEQUENCE (m_sequence m)
        ((replicate (RP_V2_FRAME_OVERHEAD + RP_V2_MAX_PAYLOAD) 0)
          [0 := RP_V2_START, RP_V2_OFFSET_VERSION := RP_V2_VERSION,
           RP_V2_OFFSET_FLAGS := m_flags m, RP_V2_OFFSET_CMD := m_cmd m,
           RP_V2_OFFSET_PORT := m_port m,
           RP_V2_OFFSET_SIZE := of_nat (length payload)])) = v2_header_image m"
proof -
  obtain tail :: "byte list" where tail: "tail = replicate 242 0" by simp
  have "replicate (14 + 242) (0 :: byte) = replicate 14 0 @ tail"
    unfolding tail by (rule replicate_add)
  moreover have "replicate 14 (0 :: byte) = [0, 0, 0, 0, 0, 0, 0, 0, 0, 0, 0, 0, 0, 0]"
    by (simp add: eval_nat_numeral)
  ultimately have whole: "replicate (RP_V2_FRAME_OVERHEAD + RP_V2_MAX_PAYLOAD) (0 :: byte) =
      [0, 0, 0, 0, 0, 0, 0, 0, 0, 0, 0, 0, 0, 0] @ tail"
    by simp
  have "v2_header_image m = (RP_V2_START # [RP_V2_VERSION, m_flags m, m_cmd m, m_port m,
      of_nat (length payload)] @ le32 (m_sequence m) @ le32 (m_session m)) @ tail"
    by (simp add: v2_header_image_def tail assms)
  then show ?thesis
    unfolding whole by (simp add: rp_v2_put_u32_def le32_def eval_nat_numeral)
qed

lemma v2_frame_image:
  assumes "length payload = n" "n \<le> RP_V2_MAX_PAYLOAD"
  shows "take (RP_V2_OFFSET_PAYLOAD + n + RP_V2_CRC_SIZE)
      (v2_frame port cmd (if n = 0 then p else Some payload) n sequence flags session) =
    v2_frame_bytes \<lparr>m_port = port, m_cmd = cmd, m_flags = flags, m_sequence = sequence,
      m_session = session, m_payload = payload\<rparr>" (is "_ = v2_frame_bytes ?m")
proof -
  let ?h = "v2_header_image ?m"
  define frame where "frame = (if n > 0 then poke 14 (bytes_at (if n = 0 then p else Some payload) n) ?h else ?h)"
  have len: "length ?h = 256" by (simp add: v2_header_image_def)
  have image: "take (14 + n) frame = RP_V2_START # v2_body ?m"
    using assms len take_poke_end [of 14 ?h payload]
    by (auto simp: frame_def bytes_at_def v2_body_def v2_header_image_def)
  have flen: "length frame = 256"
    using assms len by (simp add: frame_def bytes_at_def)
  have body: "peek 1 (13 + n) frame = v2_body ?m"
    using arg_cong [OF image, of tl] by (simp add: peek_def tl_take drop_Suc)
  have "v2_frame port cmd (if n = 0 then p else Some payload) n sequence flags session =
      rp_v2_put_u16 (14 + n) (rp_v2_crc16 (v2_body ?m)) frame"
    unfolding v2_frame_def Let_def
    using v2_frame_header [of payload ?m] assms(1) body
    by (cases "n = 0") (simp_all add: frame_def)
  also have "\<dots> = poke (14 + n) (le16 (rp_v2_crc16 (v2_body ?m))) frame"
    using flen assms by (intro put_u16_poke) simp
  finally show ?thesis
    using flen image take_poke_end [of "14 + n" frame "le16 (rp_v2_crc16 (v2_body ?m))"] assms
    by (simp add: v2_frame_bytes_def)
qed

record legacy_message =
  l_port :: byte
  l_cmd :: byte
  l_payload :: "byte list"

definition legacy_frame_bytes :: "legacy_message \<Rightarrow> byte list" where
  "legacy_frame_bytes m =
     [RP_CMD_START, l_cmd m, of_nat (length (l_payload m)), l_port m] @ l_payload m"

definition legacy_valid :: "legacy_message \<Rightarrow> bool" where
  "legacy_valid m \<longleftrightarrow> length (l_payload m) \<le> 255"

lemma legacy_frame_header:
  "(replicate (4 + 255) 0)[0 := RP_CMD_START, 1 := cmd, 2 := k, 3 := port] =
    [RP_CMD_START, cmd, k, port] @ replicate 255 (0 :: byte)"
proof -
  have "replicate (4 + 255) (0 :: byte) = replicate 4 0 @ replicate 255 0"
    by (rule replicate_add)
  moreover have "replicate 4 (0 :: byte) = [0, 0, 0, 0]" by (simp add: eval_nat_numeral)
  moreover have "([0, 0, 0, 0] @ tail)[0 := a, 1 := b, 2 := c, 3 := d] = [a, b, c, d] @ tail"
    for a b c d :: byte and tail
    by (simp add: eval_nat_numeral)
  ultimately show ?thesis by (simp only:)
qed

lemma legacy_frame_image:
  assumes "length payload = n" "n \<le> 255"
  shows "take (n + 4) (legacy_frame port cmd (if n = 0 then p else Some payload) n) =
    legacy_frame_bytes \<lparr>l_port = port, l_cmd = cmd, l_payload = payload\<rparr>"
proof -
  let ?h = "[RP_CMD_START, cmd, of_nat n, port] @ replicate 255 (0 :: byte)"
  have frame: "legacy_frame port cmd (if n = 0 then p else Some payload) n =
      (if n > 0 then poke 4 payload ?h else ?h)"
    unfolding legacy_frame_def Let_def legacy_frame_header
    using assms by (simp add: bytes_at_def)
  have "take 4 ?h = [RP_CMD_START, cmd, of_nat n, port]" by (simp add: numeral_eq_Suc)
  with take_poke_end [of 4 ?h payload] assms show ?thesis
    unfolding frame legacy_frame_bytes_def by (auto simp: add.commute)
qed

subsection \<open>Frames as a code\<close>

definition parse_v2 :: "byte list \<Rightarrow> (v2_message \<times> byte list) option" where
  "parse_v2 bs =
     (let n = unat (bs ! RP_V2_OFFSET_SIZE) in
      if length bs < RP_V2_HEADER_SIZE \<or> bs ! 0 \<noteq> RP_V2_START
         \<or> bs ! RP_V2_OFFSET_VERSION \<noteq> RP_V2_VERSION \<or> n > RP_V2_MAX_PAYLOAD
         \<or> length bs < RP_V2_FRAME_OVERHEAD + n
         \<or> rp_v2_get_u16 bs (RP_V2_OFFSET_PAYLOAD + n) \<noteq>
             rp_v2_crc16 (peek 1 (RP_V2_HEADER_SIZE - 1 + n) bs)
      then None
      else Some (\<lparr>m_port = bs ! RP_V2_OFFSET_PORT, m_cmd = bs ! RP_V2_OFFSET_CMD,
                  m_flags = bs ! RP_V2_OFFSET_FLAGS,
                  m_sequence = rp_v2_get_u32 bs RP_V2_OFFSET_SEQUENCE,
                  m_session = rp_v2_get_u32 bs RP_V2_OFFSET_SESSION,
                  m_payload = peek RP_V2_OFFSET_PAYLOAD n bs\<rparr>,
                 drop (RP_V2_FRAME_OVERHEAD + n) bs))"

definition parse_legacy :: "byte list \<Rightarrow> (legacy_message \<times> byte list) option" where
  "parse_legacy bs =
     (if length bs < 4 \<or> bs ! 0 \<noteq> RP_CMD_START \<or> length bs < 4 + unat (bs ! 2) then None
      else Some (\<lparr>l_port = bs ! 3, l_cmd = bs ! 1, l_payload = peek 4 (unat (bs ! 2)) bs\<rparr>,
                 drop (4 + unat (bs ! 2)) bs))"

lemma unat_of_nat_byte [simp]: "n \<le> 255 \<Longrightarrow> unat (of_nat n :: byte) = n"
  by (simp add: unat_of_nat)

lemma header_fields:
  assumes "bs = [a, b, c, d, e, f] @ le32 sq @ le32 ss @ rest"
  shows "bs ! 0 = a" "bs ! 1 = b" "bs ! 2 = c" "bs ! 3 = d" "bs ! 4 = e" "bs ! 5 = f"
    "rp_v2_get_u32 bs 6 = sq" "rp_v2_get_u32 bs 10 = ss" "14 \<le> length bs"
    "drop 14 bs = rest"
proof -
  have six: "length [a, b, c, d, e, f] = 6" "length ([a, b, c, d, e, f] @ le32 sq) = 10"
    "length ([a, b, c, d, e, f] @ le32 sq @ le32 ss) = 14"
    by simp_all
  show "rp_v2_get_u32 bs 6 = sq"
    using get_u32_bytes [of "[a, b, c, d, e, f]" sq "le32 ss @ rest"] assms
    unfolding six by simp
  show "rp_v2_get_u32 bs 10 = ss"
    using get_u32_bytes [of "[a, b, c, d, e, f] @ le32 sq" ss rest] assms
    unfolding six by simp
  show "14 \<le> length bs" unfolding assms by simp
  show "drop 14 bs = rest"
    using append_eq_conv_conj [of "[a, b, c, d, e, f] @ le32 sq @ le32 ss" rest bs] assms
    unfolding six by simp
qed (simp_all add: assms eval_nat_numeral)

lemma parse_v2_frame:
  assumes "v2_valid m"
  shows "parse_v2 (v2_frame_bytes m @ rest) = Some (m, rest)"
proof -
  let ?bs = "v2_frame_bytes m @ rest" and ?n = "length (m_payload m)"
  have n: "?n \<le> 240" "?n \<le> 255" using assms by (simp_all add: v2_valid_def)
  have shape: "?bs = [RP_V2_START, RP_V2_VERSION, m_flags m, m_cmd m, m_port m, of_nat ?n] @
      le32 (m_sequence m) @ le32 (m_session m) @
      (m_payload m @ le16 (rp_v2_crc16 (v2_body m)) @ rest)"
    by (simp add: v2_frame_bytes_def v2_body_def)
  note fields = header_fields [OF shape]
  have body: "peek 1 (13 + ?n) ?bs = v2_body m"
    by (simp add: peek_def v2_frame_bytes_def length_v2_body)
  have crc: "rp_v2_get_u16 ?bs (14 + ?n) = rp_v2_crc16 (v2_body m)"
    using get_u16_bytes [of "RP_V2_START # v2_body m" "rp_v2_crc16 (v2_body m)" rest]
    by (simp add: v2_frame_bytes_def length_v2_body)
  have payload: "peek 14 ?n ?bs = m_payload m" "drop (16 + ?n) ?bs = rest"
    using fields(10) by (simp_all add: peek_def length_v2_frame_bytes)
  have len: "length ?bs = 16 + ?n + length rest" by (simp add: length_v2_frame_bytes)
  show ?thesis
    unfolding parse_v2_def Let_def
    using n fields(1-8) body crc payload len by (simp del: append_assoc)
qed

lemma parse_legacy_frame:
  assumes "legacy_valid m"
  shows "parse_legacy (legacy_frame_bytes m @ rest) = Some (m, rest)"
proof -
  let ?bs = "legacy_frame_bytes m @ rest"
  have four: "drop 4 ?bs = l_payload m @ rest" "?bs ! 0 = RP_CMD_START" "?bs ! 1 = l_cmd m"
    "?bs ! 2 = of_nat (length (l_payload m))" "?bs ! 3 = l_port m"
    "length ?bs = 4 + length (l_payload m) + length rest"
    by (simp_all add: legacy_frame_bytes_def eval_nat_numeral)
  have "drop (4 + length (l_payload m)) ?bs = rest"
    unfolding drop_drop [of "length (l_payload m)" 4 ?bs, symmetric, unfolded add.commute [of _ 4]]
      four(1) by simp
  moreover have "unat (?bs ! 2) = length (l_payload m)"
    using assms four(4) by (simp add: legacy_valid_def)
  ultimately show ?thesis
    unfolding parse_legacy_def using four by (simp add: peek_def)
qed

lemma parse_nil: "parse_v2 [] = None" "parse_legacy [] = None"
  by (simp_all add: parse_v2_def parse_legacy_def)

interpretation v2: stream_code v2_frame_bytes parse_v2 v2_valid
  by unfold_locales (simp_all add: parse_v2_frame parse_nil)

interpretation legacy: stream_code legacy_frame_bytes parse_legacy legacy_valid
  by unfold_locales (simp_all add: parse_legacy_frame parse_nil)

subsection \<open>What a send puts on the line\<close>

text \<open>The bytes the caller's pointer gives, when it gives as many as it says.\<close>

definition good_payload :: "byte list option \<Rightarrow> int \<Rightarrow> bool" where
  "good_payload buf n \<longleftrightarrow> length (bytes_at buf (nat n)) = nat n"

definition message_of :: "byte \<Rightarrow> byte \<Rightarrow> byte list option \<Rightarrow> int \<Rightarrow> u32 \<Rightarrow> byte \<Rightarrow> u32 \<Rightarrow> v2_message" where
  "message_of port cmd buf n sequence flags session =
     \<lparr>m_port = port, m_cmd = cmd, m_flags = flags, m_sequence = sequence, m_session = session,
      m_payload = bytes_at buf (nat n)\<rparr>"

lemma v2_frame_message:
  assumes "good_payload buf n" "0 \<le> n" "n \<le> int RP_V2_MAX_PAYLOAD"
  shows "take (16 + nat n) (v2_frame port cmd buf (nat n) sequence flags session) =
    v2_frame_bytes (message_of port cmd buf n sequence flags session)"
proof -
  have "v2_frame port cmd buf (nat n) sequence flags session =
      v2_frame port cmd (if nat n = 0 then buf else Some (bytes_at buf (nat n))) (nat n) sequence
        flags session"
    using assms(1) by (simp add: v2_frame_def good_payload_def bytes_at_def [of "Some _"])
  with v2_frame_image [of "bytes_at buf (nat n)" "nat n" port cmd buf sequence flags session] assms
  show ?thesis by (simp add: good_payload_def message_of_def add.commute)
qed

lemma legacy_frame_message:
  assumes "good_payload buf n" "0 \<le> n" "n \<le> 255"
  shows "take (nat n + 4) (legacy_frame port cmd buf (nat n)) =
    legacy_frame_bytes \<lparr>l_port = port, l_cmd = cmd, l_payload = bytes_at buf (nat n)\<rparr>"
proof -
  have "legacy_frame port cmd buf (nat n) =
      legacy_frame port cmd (if nat n = 0 then buf else Some (bytes_at buf (nat n))) (nat n)"
    using assms(1) by (simp add: legacy_frame_def good_payload_def bytes_at_def [of "Some _"])
  with legacy_frame_image [of "bytes_at buf (nat n)" "nat n" port cmd buf] assms
  show ?thesis by (simp add: good_payload_def)
qed

text \<open>In normal mode the bytes go to the line at once, in buffered mode to the queue.\<close>

definition normal_mode :: "rp \<Rightarrow> bool" where
  "normal_mode s \<longleftrightarrow> fg_send_mode (rp_com s) \<noteq> RASPIKE_USB_MODE_BUFFERED"

lemma com_send_normal:
  assumes "com_send frame n s = (r, s')" "normal_mode s" "0 \<le> n" "nat n \<le> length frame"
  shows "upcoming_bytes s' = upcoming_bytes s \<and> normal_mode s' \<and>
    queued (rp_com s') = queued (rp_com s) \<and>
    (0 \<le> r \<longrightarrow> r = n \<and> wire_out s' = wire_out s @ take (nat n) frame) \<and>
    (r < 0 \<longrightarrow> (\<exists>k. k \<le> nat n \<and> wire_out s' = wire_out s @ take k frame))"
proof (cases "fgDesc s = None \<or> \<not> d_send_set (the (fgDesc s)) \<or> get_usb_fd (fgDesc s) < 0")
  case True
  with assms show ?thesis
    by (auto simp: com_send_def raspike_com_send_def rp_usb_send_def wire_out_def upcoming_bytes_def
        normal_mode_def split: if_splits intro!: exI [of _ 0])
next
  case False
  let ?t = "d_io_timeout_ms (the (fgDesc s))"
  obtain w' where wr: "write_all_fd (Some frame) (nat n) ?t (com_os (rp_com s)) = (r, w')"
      and s': "s' = s\<lparr>rp_com := (rp_com s)\<lparr>com_os := w'\<rparr>\<rparr>"
    using assms False
    by (auto simp: com_send_def raspike_com_send_def rp_usb_send_def normal_mode_def split: prod.splits)
  have bytes: "bytes_at (Some frame) (nat n) = take (nat n) frame"
    "length (take (nat n) frame) = nat n"
    using assms(4) by (simp_all add: bytes_at_def)
  from write_all_fd_props [OF wr, unfolded bytes] obtain m where
    m: "os_reads w' = os_reads (com_os (rp_com s))" "m \<le> nat n"
      "os_tx w' = os_tx (com_os (rp_com s)) @ take m (take (nat n) frame)"
      "0 \<le> r \<longrightarrow> m = nat n \<and> r = int m"
    by blast
  then show ?thesis
    using assms(2,3) by (auto simp: s' wire_out_def on_line_def upcoming_bytes_def incoming_def queued_def
        normal_mode_def intro!: exI [of _ m])
qed

lemma com_send_buffered:
  assumes "com_send frame n s = (r, s')" "\<not> normal_mode s" "0 \<le> n" "nat n = length bs"
    and "take (nat n) frame = bs" "com_wf (rp_com s)" "0 \<le> r"
  shows "com_wf (rp_com s')" "queued (rp_com s') = queued (rp_com s) @ bs" "wire_out s' = wire_out s"
proof -
  have bytes: "bytes_at (Some frame) (length bs) = bytes_at (Some bs) (length bs)"
    using assms(4,5) by (simp add: bytes_at_def)
  obtain c where bw: "buffered_write (Some bs) (length bs) (rp_com s) = (r, c)"
      and s': "s' = s\<lparr>rp_com := c\<rparr>"
    using assms bytes
    by (auto simp: com_send_def raspike_com_send_def rp_usb_send_def normal_mode_def
        buffered_write_def split: if_splits prod.splits)
  from buffered_write_props [OF assms(6) bw] assms(7)
  show "com_wf (rp_com s')" "queued (rp_com s') = queued (rp_com s) @ bs" "wire_out s' = wire_out s"
    by (simp_all add: s' wire_out_def)
qed

text \<open>A frame that the code refuses leaves everything as it was.\<close>

definition refused_by_v2 :: "byte \<Rightarrow> byte list option \<Rightarrow> int \<Rightarrow> bool" where
  "refused_by_v2 port buf n \<longleftrightarrow> \<not> raspike_is_valid_port port \<or> n < 0 \<or> n > int RP_V2_MAX_PAYLOAD \<or>
     (n > 0 \<and> buf = None)"

lemma send_v2_frame_cases:
  assumes "send_v2_frame port cmd buf n sequence flags s = (r, s')"
  shows "if refused_by_v2 port buf n then r = - EINVAL \<and> s' = s
    else com_send (v2_frame port cmd buf (nat n) sequence flags (fgSessionId s)) (16 + n) s = (r, s')"
  using assms by (auto simp: send_v2_frame_def refused_by_v2_def add.commute split: if_splits)

lemma length_v2_frame [simp]:
  "n \<le> RP_V2_MAX_PAYLOAD \<Longrightarrow> good_payload buf (int n) \<Longrightarrow>
    length (v2_frame port cmd buf n sequence flags session) = 256"
  by (simp add: v2_frame_def Let_def rp_v2_put_u16_def rp_v2_put_u32_def good_payload_def)

lemma send_v2_frame_normal:
  assumes "send_v2_frame port cmd buf n sequence flags s = (r, s')" "normal_mode s"
    "good_payload buf n" "0 \<le> r"
  shows "r = 16 + n \<and> 0 \<le> n \<and> n \<le> 240 \<and> raspike_is_valid_port port \<and>
    wire_out s' = wire_out s @
      v2_frame_bytes (message_of port cmd buf n sequence flags (fgSessionId s))"
proof -
  from send_v2_frame_cases [OF assms(1)] assms(4) have ok: "\<not> refused_by_v2 port buf n"
    by (auto split: if_splits)
  with send_v2_frame_cases [OF assms(1)] have
    call: "com_send (v2_frame port cmd buf (nat n) sequence flags (fgSessionId s)) (16 + n) s = (r, s')"
    by simp
  from ok have n: "0 \<le> n" "n \<le> 240" and port: "raspike_is_valid_port port"
    by (auto simp: refused_by_v2_def)
  have len: "length (v2_frame port cmd buf (nat n) sequence flags (fgSessionId s)) = 256"
    using n assms(3) by simp
  from com_send_normal [OF call assms(2)] n assms(4) len
  have "r = 16 + n" "wire_out s' = wire_out s @
      take (nat (16 + n)) (v2_frame port cmd buf (nat n) sequence flags (fgSessionId s))" by auto
  moreover have "nat (16 + n) = 16 + nat n" using n by simp
  ultimately show ?thesis
    using n port v2_frame_message [OF assms(3)] by simp
qed

lemma stats_increment_fields [simp]:
  "rp_com (stats_increment f s) = rp_com s" "gPortDevices (stats_increment f s) = gPortDevices s"
  "fgStatus (stats_increment f s) = fgStatus s" "fgDesc (stats_increment f s) = fgDesc s"
  "fgSessionId (stats_increment f s) = fgSessionId s"
  "fgUseProtocolV2 (stats_increment f s) = fgUseProtocolV2 s"
  "fgHandshakeComplete (stats_increment f s) = fgHandshakeComplete s"
  "fgStopCommunication (stats_increment f s) = fgStopCommunication s"
  "fgActiveReceivers (stats_increment f s) = fgActiveReceivers s"
  "fgNextSequence (stats_increment f s) = fgNextSequence s"
  "fgRuntimeTelemetry (stats_increment f s) = fgRuntimeTelemetry s"
  "fgLinkStats (stats_increment f s) = f (\<lambda>n. n + 1) (fgLinkStats s)"
  "wire_out (stats_increment f s) = wire_out s"
  "upcoming_bytes (stats_increment f s) = upcoming_bytes s"
  "normal_mode (stats_increment f s) = normal_mode s"
  by (simp_all add: stats_increment_def wire_out_def upcoming_bytes_def normal_mode_def)

lemma next_sequence_fields:
  assumes "next_sequence s = (q, s')"
  shows "q = fgNextSequence s" "rp_com s' = rp_com s" "fgSessionId s' = fgSessionId s"
    "fgDesc s' = fgDesc s" "fgUseProtocolV2 s' = fgUseProtocolV2 s" "fgLinkStats s' = fgLinkStats s"
    "gPortDevices s' = gPortDevices s" "fgStatus s' = fgStatus s"
    "fgStopCommunication s' = fgStopCommunication s" "normal_mode s' = normal_mode s"
    "fgHandshakeComplete s' = fgHandshakeComplete s" "wire_out s' = wire_out s"
    "upcoming_bytes s' = upcoming_bytes s" "fgActiveReceivers s' = fgActiveReceivers s"
    "fgRuntimeTelemetry s' = fgRuntimeTelemetry s"
  using assms by (auto simp: next_sequence_def Let_def wire_out_def upcoming_bytes_def normal_mode_def)

text \<open>A send without a flush puts one frame on the line and counts it.\<close>

lemma send_frame_normal:
  assumes "send_frame port cmd buf n sequence flags False s = (r, s')" "fgUseProtocolV2 s"
    "normal_mode s" "good_payload buf n" "0 \<le> r"
  shows "wire_out s' = wire_out s @
      v2_frame_bytes (message_of port cmd buf n sequence flags (fgSessionId s)) \<and>
    n \<le> 240 \<and> r = 16 + n \<and> tx_frames (fgLinkStats s') = tx_frames (fgLinkStats s) + 1"
proof -
  obtain s1 where v2: "send_v2_frame port cmd buf n sequence flags s = (r, s1)"
    and s': "s' = stats_increment tx_frames_update s1"
    using assms(1,2,5) by (auto simp: send_frame_def Let_def split: if_splits prod.splits)
  have "same_but_com s s1"
    using send_v2_frame_cases [OF v2] by (auto split: if_splits intro: com_send_frame)
  then have "fgLinkStats s1 = fgLinkStats s" by (rule same_but_com_fields)
  with send_v2_frame_normal [OF v2 assms(3,4,5)] s' show ?thesis by simp
qed

lemma send_frame_refused:
  assumes "send_frame port cmd buf n sequence flags now s = (r, s')"
    and "fgDesc s = None \<or> fgStopCommunication s \<or>
      (fgUseProtocolV2 s \<and> refused_by_v2 port buf n)"
  shows "s' = s" "r = (if fgDesc s = None \<or> fgStopCommunication s then - ENOTCONN else - EINVAL)"
  using assms by (auto simp: send_frame_def send_v2_frame_def refused_by_v2_def split: if_splits)

end
