(* ===== verification/Instances.thy ===== *)
theory Instances
  imports Frames
begin

section \<open>Concrete links\<close>

text \<open>
  The states the instances of the properties run on: a descriptor as
  \<^verbatim>\<open>raspike_open_usb_communication\<close> makes it, an operating system on which every wait is
  answered at once, the module before \<^verbatim>\<open>raspike_prot_init\<close>, and a link that is up. The send buffer
  is empty and, to keep evaluation short, not 4096 bytes long.
\<close>

definition demo_desc :: com_desc where
  "demo_desc = \<lparr>d_type = 1, d_desc = 3, d_io_timeout_ms = 1000, d_send_set = True,
     d_receive_set = True, d_close_set = True, d_flush_set = True\<rparr>"

definition demo_os :: "read_answer list \<Rightarrow> write_answer list \<Rightarrow> os" where
  "demo_os reads writes = idle_os\<lparr>os_polls := replicate 200 (PollEvents 0 POLLIN),
     os_reads := reads, os_writes := writes\<rparr>"

definition demo_com :: "read_answer list \<Rightarrow> write_answer list \<Rightarrow> com" where
  "demo_com reads writes = \<lparr>com_os = demo_os reads writes, fg_send_buffer = [],
     fg_send_buffer_size = 0, fg_send_mode = RASPIKE_USB_MODE_NORMAL\<rparr>"

definition demo_start :: "read_answer list \<Rightarrow> write_answer list \<Rightarrow> rp" where
  "demo_start reads writes = (initial_rp idle_os)\<lparr>rp_com := demo_com reads writes\<rparr>"

definition demo_link :: "read_answer list \<Rightarrow> write_answer list \<Rightarrow> rp" where
  "demo_link reads writes = (demo_start reads writes)\<lparr>fgStatus := Some zero_status,
     fgDesc := Some demo_desc, fgHandshakeComplete := True, fgUseProtocolV2 := True,
     fgSessionId := 10000\<rparr>"

text \<open>The hub's side of a negotiation, in three chunks, after two bytes of noise.\<close>

definition demo_hello :: "byte list" where
  "demo_hello = [2, 0x7F, 240, 0, 7, 0, 0, 0, 0x10, 0x27, 0, 0]"

lemma demo_link_fields [simp]:
  "fgStatus (demo_link reads writes) = Some zero_status"
  "fgDesc (demo_link reads writes) = Some demo_desc" "fgUseProtocolV2 (demo_link reads writes)"
  "fgHandshakeComplete (demo_link reads writes)" "fgSessionId (demo_link reads writes) = 10000"
  "\<not> fgStopCommunication (demo_link reads writes)"
  "gPortDevices (demo_link reads writes) = replicate RP_PORT_NUMBER init_port_device"
  "fgActiveReceivers (demo_link reads writes) = 0" "fgNextSequence (demo_link reads writes) = 1"
  by (simp_all add: demo_link_def demo_start_def initial_rp_def)

subsection \<open>A line that takes a frame at once\<close>

text \<open>What evaluation of a send comes down to when the next wait is answered and the next write
  takes everything.\<close>

definition open_line :: "os \<Rightarrow> nat \<Rightarrow> bool" where
  "open_line w n \<longleftrightarrow> os_ticks w = [] \<and> (\<exists>ps. os_polls w = PollEvents 0 POLLIN # ps) \<and>
     (\<exists>m ws. os_writes w = WriteCount m # ws \<and> n \<le> m)"

lemma write_all_at_once:
  assumes "open_line w n" "0 < n" "n = length bs" "0 < t" "t < 2 ^ 31"
  shows "write_all_fd (Some bs) n t w =
    (int n, w\<lparr>os_polls := tl (os_polls w), os_writes := tl (os_writes w), os_tx := os_tx w @ bs\<rparr>)"
proof -
  from assms(1) obtain ps m ws where w: "os_ticks w = []" "os_polls w = PollEvents 0 POLLIN # ps"
    "os_writes w = WriteCount m # ws" "n \<le> m" by (auto simp: open_line_def)
  obtain now where clock: "monotonic_ms w = (now, w)"
    using w(1) by (simp add: monotonic_ms_def clock_gettime_def tick_def Let_def)
  have wait: "wait_fd t w = (0, w\<lparr>os_polls := ps\<rparr>)"
    by (simp add: wait_fd_def poll_retry.simps sys_poll_def w)
  have "c_int t = t" using assms(4,5) by (intro c_int_small) auto
  then show ?thesis
    using assms(2,3,4) clock wait w(4)
    by (simp add: write_all_fd_def bytes_at_def write_loop.simps [of bs _ 0]
        write_loop.simps [of bs _ "length bs"] sys_write_def w Let_def)
qed

lemma send_at_once:
  assumes "open_line (com_os (rp_com s)) (nat n)" "usable (fgDesc s)" "normal_mode s" "0 < n"
    and "nat n \<le> length frame" "0 < d_io_timeout_ms (the (fgDesc s))"
    and "d_io_timeout_ms (the (fgDesc s)) < 2 ^ 31"
  shows "com_send frame n s = (n, s\<lparr>rp_com := (rp_com s)\<lparr>com_os := (com_os (rp_com s))
    \<lparr>os_polls := tl (os_polls (com_os (rp_com s))), os_writes := tl (os_writes (com_os (rp_com s))),
     os_tx := os_tx (com_os (rp_com s)) @ take (nat n) frame\<rparr>\<rparr>\<rparr>)"
proof -
  have cut: "write_all_fd (Some frame) (nat n) t w = write_all_fd (Some (take (nat n) frame)) (nat n) t w" for t w
    by (simp add: write_all_fd_def bytes_at_def)
  from write_all_at_once [OF assms(1) _ _ assms(6,7), of "take (nat n) frame"] assms(2-5)
    usable_fd [OF assms(2)]
  show ?thesis
    by (auto simp: com_send_def raspike_com_send_def rp_usb_send_def usable_def normal_mode_def cut
        simp del: take_all)
qed

lemma demo_link_sends:
  assumes "0 < n" "nat n \<le> m" "nat n \<le> length frame"
  shows "fst (com_send frame n (demo_link reads (WriteCount m # ws))) = n"
  using assms by (subst send_at_once) (auto simp: open_line_def usable_def normal_mode_def demo_desc_def
      demo_link_def demo_start_def demo_com_def demo_os_def idle_os_def numeral_eq_Suc)

end
