(* ===== verification/Format_Properties.thy ===== *)
theory Format_Properties
  imports Frames Instances
begin

section \<open>Properties of the wire format\<close>

text \<open>
  What the two sides rely on about the bytes: identifiers, the CRC, structures and frames, and
  what a send puts on the line. Each property is followed by a concrete instance of it when it
  has hypotheses.
\<close>

subsection \<open>Identifiers and the CRC\<close>

text \<open>No two command identifiers of the protocol header coincide, so a command byte selects at
  most one case of a dispatcher.\<close>

lemma command_ids_distinct: "distinct all_cmd_ids"
  by (simp add: all_cmd_ids_def)

text \<open>The CRC is CRC-16/CCITT-FALSE: it has that code's published check value, 0x29B1 for the
  digits 1 to 9.\<close>

lemma crc16_check_value:
  "rp_v2_crc16 [0x31, 0x32, 0x33, 0x34, 0x35, 0x36, 0x37, 0x38, 0x39] = 0x29B1"
  by (simp add: crc16_eval)

text \<open>The CRC detects every change that is confined to two adjacent bytes, in data of any
  length (so every burst of up to nine bits as well).\<close>

lemma crc16_detects_adjacent_bytes:
  assumes "(a, b) \<noteq> (a', b')"
  shows "rp_v2_crc16 (pre @ [a, b] @ post) \<noteq> rp_v2_crc16 (pre @ [a', b'] @ post)"
  using assms crc16_two_bytes_inj [of "foldl crc16_byte 0xffff pre" a b a' b']
  by (auto simp: rp_v2_crc16_def crc16_fold_inj)

lemma crc16_detects_adjacent_bytes_witness:
  "rp_v2_crc16 ([7] @ [1, 2] @ [9]) \<noteq> rp_v2_crc16 ([7] @ [3, 2] @ [9])"
  by (rule crc16_detects_adjacent_bytes) simp

subsection \<open>Structures\<close>

text \<open>The status structure is laid out in 136 bytes, and reading the bytes back gives the
  structure: voltage, current, the six floats of the inertial unit, the flags and all six ports.\<close>

lemma status_roundtrip:
  assumes "wf_status st"
  shows "length (encode_status st) = sizeof_status \<and> decode_status (encode_status st) = st"
  using assms by (simp add: length_encode_status decode_encode_status)

lemma status_roundtrip_witness:
  "length (encode_status zero_status) = sizeof_status \<and>
    decode_status (encode_status zero_status) = zero_status"
  by (rule status_roundtrip) simp

text \<open>The drive telemetry structure is laid out in 34 bytes and read back as it was.\<close>

lemma drive_telemetry_roundtrip:
  assumes "wf_drive_telemetry t"
  shows "length (encode_drive_telemetry t) = sizeof_drive_telemetry \<and>
    decode_drive_telemetry (encode_drive_telemetry t) = t"
  using assms by (simp add: length_encode_drive_telemetry decode_encode_drive_telemetry)

lemma drive_telemetry_roundtrip_witness:
  "length (encode_drive_telemetry (decode_drive_telemetry (replicate 34 5))) = sizeof_drive_telemetry \<and>
    decode_drive_telemetry (encode_drive_telemetry (decode_drive_telemetry (replicate 34 5))) =
      decode_drive_telemetry (replicate 34 5)"
  by (rule drive_telemetry_roundtrip) simp

subsection \<open>Frames\<close>

text \<open>C22. The bytes \<^verbatim>\<open>send_v2_frame\<close> assembles for a payload it accepts are read back, off the
  front of any stream, as the message they were made from: port, command, flags, sequence number,
  session and payload.\<close>

theorem v2_frame_parses:
  assumes "good_payload buf n" "0 \<le> n" "n \<le> int RP_V2_MAX_PAYLOAD"
  shows "parse_v2 (take (RP_V2_FRAME_OVERHEAD + nat n)
      (v2_frame port cmd buf (nat n) sequence flags session) @ rest) =
    Some (message_of port cmd buf n sequence flags session, rest)"
proof -
  have "v2_valid (message_of port cmd buf n sequence flags session)"
    using assms by (simp add: v2_valid_def message_of_def good_payload_def)
  with v2_frame_message [OF assms] show ?thesis by (simp add: parse_v2_frame)
qed

theorem v2_frame_parses_witness:
  "parse_v2 (take (RP_V2_FRAME_OVERHEAD + nat 2) (v2_frame 1 0x64 (Some [50, 0]) (nat 2) 9 4 77) @ [1, 2]) =
    Some (message_of 1 0x64 (Some [50, 0]) 2 9 4 77, [1, 2])"
  by (rule v2_frame_parses) (simp_all add: good_payload_def bytes_at_def)

text \<open>A stream of version 2 frames has one reading: two lists of messages with the same bytes are the
  same list.\<close>

lemma v2_stream_unambiguous:
  assumes "list_all v2_valid ms" "list_all v2_valid ms'"
    and "concat (map v2_frame_bytes ms) = concat (map v2_frame_bytes ms')"
  shows "ms = ms'"
  using assms by (rule v2.concat_unambiguous)

subsection \<open>What a send does with a frame\<close>

lemma send_v2_frame_effect:
  assumes "send_v2_frame port cmd buf n sequence flags s = (r, s1)" "0 \<le> r"
    and "com_wf (rp_com s)" "good_payload buf n"
  shows "r = int RP_V2_FRAME_OVERHEAD + n \<and> (let f = v2_frame_bytes (message_of port cmd buf n sequence flags (fgSessionId s)) in
    if normal_mode s then wire_out s1 = wire_out s @ f \<and> queued (rp_com s1) = queued (rp_com s)
    else wire_out s1 = wire_out s \<and> queued (rp_com s1) = queued (rp_com s) @ f)"
proof -
  from send_v2_frame_cases [OF assms(1)] assms(2) have ok: "\<not> refused_by_v2 port buf n"
    by (auto split: if_splits)
  with send_v2_frame_cases [OF assms(1)] have
    call: "com_send (v2_frame port cmd buf (nat n) sequence flags (fgSessionId s)) (16 + n) s = (r, s1)"
    by simp
  from ok have n: "0 \<le> n" "n \<le> 240" by (auto simp: refused_by_v2_def)
  let ?f = "v2_frame_bytes (message_of port cmd buf n sequence flags (fgSessionId s))"
  have len: "nat (16 + n) \<le> length (v2_frame port cmd buf (nat n) sequence flags (fgSessionId s))"
    using n assms(4) by simp
  have f: "take (nat (16 + n)) (v2_frame port cmd buf (nat n) sequence flags (fgSessionId s)) = ?f"
    using v2_frame_message [OF assms(4) n(1)] n by (simp add: nat_add_distrib)
  then have size: "nat (16 + n) = length ?f" using len by (metis length_take min_absorb2)
  show ?thesis
  proof (cases "normal_mode s")
    case True
    from com_send_normal [OF call True _ len] n(1) assms(2) f True show ?thesis by simp
  next
    case False
    have "r = 16 + n"
      using call False assms(2) n(1)
      by (auto simp: com_send_def raspike_com_send_def rp_usb_send_def normal_mode_def buffered_write_def
          split: if_splits prod.splits)
    with com_send_buffered [OF call False _ size f assms(3,2)] n(1) False show ?thesis by simp
  qed
qed

lemma com_flush_effect:
  assumes "com_flush s = (r, s')" "0 \<le> r"
  shows "wire_out s' = wire_out s @ queued (rp_com s) \<and> queued (rp_com s') = []"
proof -
  obtain ret c where "flush_buffer_locked (fgDesc s) (rp_com s) = (ret, c)" "0 \<le> ret" "s' = s\<lparr>rp_com := c\<rparr>"
    using assms
    by (auto simp: com_flush_def raspike_com_flush_def rp_usb_flush_def not_less split: if_splits prod.splits)
  with flush_buffer_locked_props [OF this(1)] show ?thesis by (simp add: wire_out_def queued_def)
qed

text \<open>C21. A send of a legal payload on a version 2 link that succeeds makes exactly one frame, with the
  caller's port, command, payload, sequence number and flags and the link's session, and counts it;
  its result is the frame's length. In normal mode the frame is on the line, in buffered mode it is
  the last in the queue; a send that flushes has then put the whole queue on the line, so in normal
  mode the new frame comes before what was buffered. Requests and priority sends flush.\<close>

theorem send_puts_one_frame:
  assumes "send_frame port cmd buf n sequence flags now s = (r, s')" "0 \<le> r"
    and "fgUseProtocolV2 s" "com_wf (rp_com s)" "good_payload buf n"
  shows "let f = v2_frame_bytes (message_of port cmd buf n sequence flags (fgSessionId s)); q = queued (rp_com s) in
    r = int RP_V2_FRAME_OVERHEAD + n \<and> tx_frames (fgLinkStats s') = tx_frames (fgLinkStats s) + 1 \<and>
    (if normal_mode s
     then if now then wire_out s' = wire_out s @ f @ q \<and> queued (rp_com s') = []
       else wire_out s' = wire_out s @ f \<and> queued (rp_com s') = q
     else if now then wire_out s' = wire_out s @ q @ f \<and> queued (rp_com s') = []
       else wire_out s' = wire_out s \<and> queued (rp_com s') = q @ f)"
proof -
  obtain r1 s1 where sent: "send_v2_frame port cmd buf n sequence flags s = (r1, s1)"
    by (cases "send_v2_frame port cmd buf n sequence flags s")
  obtain s2 where s2: "0 \<le> r1" "r = r1" "s' = stats_increment tx_frames_update s2"
    "if now then \<exists>r2 \<ge> 0. com_flush s1 = (r2, s2) else s2 = s1"
    using assms(1-3) sent by (auto simp: send_frame_def Let_def not_less split: if_splits prod.splits)
  have "same_but_com s s1"
    using send_v2_frame_cases [OF sent] by (auto split: if_splits intro: com_send_frame)
  moreover have "same_but_com s1 s2" using s2(4) by (auto intro: com_flush_frame split: if_splits)
  ultimately have "fgLinkStats s2 = fgLinkStats s" by (metis same_but_com_fields)
  with send_v2_frame_effect [OF sent s2(1) assms(4,5)] s2 com_flush_effect show ?thesis
    by (cases now; cases "normal_mode s") (auto simp: Let_def)
qed

text \<open>In buffered mode, with three bytes in the queue.\<close>

theorem send_puts_one_frame_witness:
  "\<exists>s s'. send_frame 1 0x64 None 0 9 4 False s = (16, s') \<and> queued (rp_com s) = [7, 8, 9] \<and>
    wire_out s' = wire_out s \<and>
    queued (rp_com s') = [7, 8, 9] @ v2_frame_bytes (message_of 1 0x64 None 0 9 4 (fgSessionId s))"
proof -
  define s where "s = (demo_link [] [])\<lparr>rp_com := (rp_com (demo_link [] []))\<lparr>
    fg_send_buffer := [7, 8, 9] @ replicate 4093 0, fg_send_buffer_size := 3,
    fg_send_mode := RASPIKE_USB_MODE_BUFFERED\<rparr>\<rparr>"
  have "fst (send_frame 1 0x64 None 0 9 4 False s) = 16"
    by (simp add: s_def send_frame_def send_v2_frame_def com_send_def raspike_com_send_def rp_usb_send_def
        buffered_write_def raspike_is_valid_port_def demo_desc_def Let_def)
  then have call: "send_frame 1 0x64 None 0 9 4 False s = (16, snd (send_frame 1 0x64 None 0 9 4 False s))"
    by (rule call_result)
  have s: "fgUseProtocolV2 s" "com_wf (rp_com s)" "good_payload None 0" "queued (rp_com s) = [7, 8, 9]" "\<not> normal_mode s"
    by (simp_all add: s_def com_wf_def good_payload_def bytes_at_def queued_def normal_mode_def)
  from send_puts_one_frame [OF call _ s(1-3)] s(4,5) call show ?thesis
    by (intro exI [of _ s] exI conjI) (assumption | simp add: Let_def)+
qed

text \<open>A send on a closed or stopping link, or with a port, size or payload pointer the frame
  does not allow, is refused with the documented error and changes nothing, on the line or in the
  state.\<close>

lemma send_refusals:
  assumes "fgDesc s = None \<or> fgStopCommunication s \<or> (fgUseProtocolV2 s \<and>
    (\<not> raspike_is_valid_port port \<or> n < 0 \<or> n > int RP_V2_MAX_PAYLOAD \<or> (n > 0 \<and> buf = None)))"
  shows "send_frame port cmd buf n sequence flags now s =
    (if fgDesc s = None \<or> fgStopCommunication s then - ENOTCONN else - EINVAL, s)"
  using assms send_frame_refused [of port cmd buf n sequence flags now s]
  by (cases "send_frame port cmd buf n sequence flags now s") (auto simp: refused_by_v2_def)

lemma send_refusals_witness:
  "send_frame 9 0x64 None 0 1 0 True (initial_rp idle_os) =
    (if fgDesc (initial_rp idle_os) = None \<or> fgStopCommunication (initial_rp idle_os)
     then - ENOTCONN else - EINVAL, initial_rp idle_os)"
  by (rule send_refusals) (simp add: initial_rp_def)

subsection \<open>Sequence numbers\<close>

primrec next_sequences :: "nat \<Rightarrow> rp \<Rightarrow> u32 list" where
  "next_sequences 0 s = []"
| "next_sequences (Suc k) s = (let (q, s') = next_sequence s in q # next_sequences k s')"

lemma unat_next_sequence:
  assumes "next_sequence s = (q, s')" "fgNextSequence s \<noteq> 0"
  shows "unat (fgNextSequence s') =
      (if unat (fgNextSequence s) = 2 ^ 32 - 1 then 1 else unat (fgNextSequence s) + 1)"
    "fgNextSequence s' \<noteq> 0"
proof -
  let ?u = "unat (fgNextSequence s)"
  have bound: "?u < 2 ^ 32" using unsigned_less [of "fgNextSequence s"] by simp
  have inc: "unat (fgNextSequence s + 1) = (if ?u = 2 ^ 32 - 1 then 0 else ?u + 1)"
    using bound by (simp add: unat_word_ariths)
  have zero: "fgNextSequence s + 1 = 0 \<longleftrightarrow> unat (fgNextSequence s + 1) = 0"
    by (simp add: unat_eq_0)
  show "unat (fgNextSequence s') = (if ?u = 2 ^ 32 - 1 then 1 else ?u + 1)"
    "fgNextSequence s' \<noteq> 0"
    using assms inc zero by (auto simp: next_sequence_def Let_def split: if_splits)
qed

text \<open>The numbers run through 1 to 2^32 - 1 in a ring.\<close>

lemma next_sequences_nth:
  assumes "j < k" "fgNextSequence s \<noteq> 0"
  shows "unat (next_sequences k s ! j) = (unat (fgNextSequence s) - 1 + j) mod (2 ^ 32 - 1) + 1"
  using assms
proof (induction k arbitrary: s j)
  case 0
  then show ?case by simp
next
  case (Suc k)
  let ?u = "unat (fgNextSequence s)"
  obtain q s' where call: "next_sequence s = (q, s')" by (cases "next_sequence s")
  have u: "0 < ?u" "?u < 2 ^ 32"
    using Suc.prems(2) unsigned_less [of "fgNextSequence s"] by (simp_all add: unat_gt_0)
  show ?case
  proof (cases j)
    case 0
    then show ?thesis using call next_sequence_fields(1) [OF call] u by simp
  next
    case (Suc i)
    have "unat (next_sequences (Suc k) s ! j) = (unat (fgNextSequence s') - 1 + i) mod (2 ^ 32 - 1) + 1"
      using Suc.IH [of i s'] Suc.prems(1) unat_next_sequence(2) [OF call Suc.prems(2)] Suc call by simp
    also have "(unat (fgNextSequence s') - 1 + i) mod (2 ^ 32 - 1) = (?u - 1 + j) mod (2 ^ 32 - 1)"
    proof (cases "?u = 2 ^ 32 - 1")
      case True
      then have "?u - 1 + j = i + (2 ^ 32 - 1)" using \<open>j = Suc i\<close> by simp
      then have "(?u - 1 + j) mod (2 ^ 32 - 1) = i mod (2 ^ 32 - 1)" by (metis mod_add_self2)
      then show ?thesis using True unat_next_sequence(1) [OF call Suc.prems(2)] by simp
    next
      case False
      then show ?thesis using unat_next_sequence(1) [OF call Suc.prems(2)] u \<open>j = Suc i\<close> by simp
    qed
    finally show ?thesis .
  qed
qed

lemma length_next_sequences [simp]: "length (next_sequences k s) = k"
  by (induction k arbitrary: s) (simp_all split: prod.split)

text \<open>C26. No sequence number is zero, and none repeats before all 2^32 - 1 others have been
  used, across the wrap of the counter.\<close>

theorem sequences_distinct:
  assumes "fgNextSequence s \<noteq> 0" "k \<le> 2 ^ 32 - 1"
  shows "0 \<notin> set (next_sequences k s) \<and> distinct (next_sequences k s)"
proof
  have nz: "next_sequences k s ! j \<noteq> 0" if "j < k" for j
    using next_sequences_nth [OF that assms(1)] by (metis Suc_eq_plus1 Zero_not_Suc unat_0)
  then show "0 \<notin> set (next_sequences k s)" by (auto simp: in_set_conv_nth)
  have "i = j" if "i < k" "j < k" "next_sequences k s ! i = next_sequences k s ! j" for i j
  proof -
    let ?a = "unat (fgNextSequence s) - 1"
    have "(?a + i) mod (2 ^ 32 - 1) = (?a + j) mod (2 ^ 32 - 1)"
      using next_sequences_nth [OF that(1) assms(1)] next_sequences_nth [OF that(2) assms(1)] that(3) by simp
    then have "i mod (2 ^ 32 - 1) = j mod (2 ^ 32 - 1)"
      by (simp add: nat_mod_eq_iff)
    then show ?thesis using that(1,2) assms(2) by simp
  qed
  then show "distinct (next_sequences k s)" by (auto simp: distinct_conv_nth)
qed

theorem sequences_distinct_witness:
  "0 \<notin> set (next_sequences 3 ((initial_rp idle_os)\<lparr>fgNextSequence := 0xFFFFFFFE\<rparr>)) \<and>
    distinct (next_sequences 3 ((initial_rp idle_os)\<lparr>fgNextSequence := 0xFFFFFFFE\<rparr>))"
  by (rule sequences_distinct) simp_all

end
