(* ===== verification/Crc_Reference.thy ===== *)
theory Crc_Reference
  imports Crc
begin

section \<open>The frame check as a division of polynomials\<close>

text \<open>
  The textbook form of the check: the bits of the data, most significant first, with sixteen zero
  bits after them and the first sixteen inverted, are a polynomial over GF(2); the check is its
  remainder by \<open>x\<^sup>16 + x\<^sup>12 + x\<^sup>5 + 1\<close>, found by long division. The loops of
  \<^verbatim>\<open>rp_v2_crc16\<close> are shown to compute it, by way of a register that takes one bit at a time.
\<close>

subsection \<open>Long division\<close>

definition word_bits :: "u16 \<Rightarrow> bool list" where
  "word_bits w = map (bit w) (rev [0..<16])"

definition byte_bits :: "byte \<Rightarrow> bool list" where
  "byte_bits b = map (bit b) (rev [0..<8])"

definition data_bits :: "byte list \<Rightarrow> bool list" where
  "data_bits data = concat (map byte_bits data)"

definition xor_bits :: "bool list \<Rightarrow> bool list \<Rightarrow> bool list" where
  "xor_bits xs ys = map2 (\<noteq>) xs ys"

text \<open>The divisor without its leading bit.\<close>

definition divisor_bits :: "bool list" where
  "divisor_bits = [False, False, False, True, False, False, False, False,
     False, False, True, False, False, False, False, True]"

function gf2_remainder :: "bool list \<Rightarrow> bool list" where
  "gf2_remainder xs =
     (if length xs \<le> 16 then xs
      else let rest = tl xs in
        gf2_remainder (if hd xs then xor_bits divisor_bits (take 16 rest) @ drop 16 rest else rest))"
  by pat_completeness auto
termination
  by (relation "measure length") (auto simp: xor_bits_def divisor_bits_def)

declare gf2_remainder.simps [simp del]

definition invert_first :: "bool list \<Rightarrow> bool list" where
  "invert_first xs = map Not (take 16 xs) @ drop 16 xs"

definition crc_by_division :: "byte list \<Rightarrow> bool list" where
  "crc_by_division data = gf2_remainder (invert_first (data_bits data @ replicate 16 False))"

subsection \<open>One bit at a time\<close>

definition serial_step :: "u16 \<Rightarrow> bool \<Rightarrow> u16" where
  "serial_step c b = crc16_bit (c XOR (if b then 0x8000 else 0))"

lemma length_word_bits [simp]: "length (word_bits w) = 16"
  by (simp add: word_bits_def)

lemma nth_word_bits: "i < 16 \<Longrightarrow> word_bits w ! i = bit w (15 - i)"
  by (simp add: word_bits_def rev_nth)

lemma length_xor_bits [simp]: "length (xor_bits xs ys) = min (length xs) (length ys)"
  by (simp add: xor_bits_def)

lemma nth_xor_bits: "i < length xs \<Longrightarrow> i < length ys \<Longrightarrow> xor_bits xs ys ! i = (xs ! i \<noteq> ys ! i)"
  by (simp add: xor_bits_def)

lemma word_bits_xor: "word_bits (a XOR b) = xor_bits (word_bits a) (word_bits b)"
  by (rule nth_equalityI) (simp_all add: nth_word_bits nth_xor_bits bit_xor_iff)

lemma word_bits_divisor: "word_bits 0x1021 = divisor_bits"
  by (simp add: word_bits_def divisor_bits_def upt_rec bit_numeral_rec)

text \<open>The register holds the difference that the division has made to the next sixteen bits.\<close>

definition under :: "u16 \<Rightarrow> bool list \<Rightarrow> bool list" where
  "under c ys = xor_bits (word_bits c) (take 16 ys) @ drop 16 ys"

lemma length_under [simp]: "16 \<le> length ys \<Longrightarrow> length (under c ys) = length ys"
  by (simp add: under_def)

lemma nth_under:
  "16 \<le> length ys \<Longrightarrow> i < length ys \<Longrightarrow> under c ys ! i = ((i < 16 \<and> bit c (15 - i)) \<noteq> ys ! i)"
  by (auto simp: under_def nth_append nth_xor_bits nth_word_bits)

lemma bit_top: "bit (0x8000 :: u16) i \<longleftrightarrow> i = 15"
proof -
  have "(0x8000 :: u16) = push_bit 15 1" by simp
  then show ?thesis by (simp only: bit_push_bit_iff) (auto simp: bit_1_iff)
qed

lemma serial_step_alt:
  "serial_step c b = push_bit 1 c XOR (if bit c 15 \<noteq> b then 0x1021 else 0)"
proof -
  have "push_bit 1 (c XOR 0x8000) = push_bit 1 c"
  proof (rule bit_word_eqI)
    fix n assume "n < LENGTH(16)"
    then show "bit (push_bit 1 (c XOR 0x8000)) n = bit (push_bit 1 c) n"
      by (simp only: bit_push_bit_iff bit_xor_iff bit_top) auto
  qed
  then show ?thesis
    by (cases b) (simp_all only: serial_step_def crc16_bit_alt bit_xor_iff bit_top if_True if_False
      xor.right_neutral simp_thms)
qed

lemma under_tl:
  assumes "16 \<le> length ys"
  shows "tl (under c (b # ys)) = under (push_bit 1 c) ys"
proof (rule nth_equalityI)
  fix i assume "i < length (tl (under c (b # ys)))"
  then have i: "i < length ys" using assms by simp
  have "bit (push_bit 1 c) (15 - i) = (i < 15 \<and> bit c (14 - i))" if "i < 16"
    using that by (simp only: bit_push_bit_iff) auto
  moreover have "Suc i < 16 \<and> bit c (15 - Suc i) \<longleftrightarrow> i < 15 \<and> bit c (14 - i)" by auto
  ultimately show "tl (under c (b # ys)) ! i = under (push_bit 1 c) ys ! i"
    using i assms by (auto simp: nth_tl nth_under)
qed (use assms in simp)

lemma under_xor:
  assumes "16 \<le> length ys"
  shows "xor_bits (word_bits d) (take 16 (under c ys)) @ drop 16 (under c ys) = under (d XOR c) ys"
  by (rule nth_equalityI)
    (use assms in \<open>auto simp: nth_append nth_xor_bits nth_word_bits nth_under bit_xor_iff\<close>)

lemma division_serial:
  "gf2_remainder (under c (bs @ replicate 16 False)) = word_bits (foldl serial_step c bs)"
proof (induction bs arbitrary: c)
  case Nil
  have "under c (replicate 16 False) = word_bits c"
    by (rule nth_equalityI) (simp_all add: nth_under nth_word_bits)
  then show ?case by (simp add: gf2_remainder.simps)
next
  case (Cons b bs)
  let ?ys = "bs @ replicate 16 False"
  have hd: "hd (under c (b # ?ys)) = (bit c 15 \<noteq> b)"
    using nth_under [of "b # ?ys" 0 c] by (simp add: hd_conv_nth under_def xor_bits_def word_bits_def)
  have "gf2_remainder (under c (b # ?ys)) = gf2_remainder (under (serial_step c b) ?ys)"
    using under_tl [of ?ys c b] under_xor [of ?ys "0x1021" "push_bit 1 c"] hd
    by (subst gf2_remainder.simps)
      (simp add: Let_def serial_step_alt word_bits_divisor xor.commute)
  then show ?case by (simp add: Cons.IH)
qed

subsection \<open>Many bits at a time\<close>

text \<open>The bits as the low bits of a word; with no more than sixteen of them none is lost.\<close>

fun word_of_bits :: "bool list \<Rightarrow> u16" where
  "word_of_bits [] = 0"
| "word_of_bits (b # bs) = (if b then 2 ^ length bs else 0) XOR word_of_bits bs"

lemma bit_word_of_bits:
  "length bs \<le> 16 \<Longrightarrow> bit (word_of_bits bs) i \<longleftrightarrow> i < length bs \<and> bs ! (length bs - Suc i)"
proof (induction bs)
  case (Cons b bs)
  have "bit (if b then 2 ^ length bs else 0 :: u16) i \<longleftrightarrow> b \<and> i = length bs"
    using Cons.prems by (cases b) (auto simp: bit_exp_iff)
  with Cons show ?case
    by (auto simp: bit_xor_iff nth_Cons' less_Suc_eq Suc_diff_Suc)
qed simp

lemma word_of_bits_inj:
  assumes "length bs = length bs'" "length bs \<le> 16" "word_of_bits bs = word_of_bits bs'"
  shows "bs = bs'"
proof (rule nth_equalityI)
  fix i assume i: "i < length bs"
  then have "bit (word_of_bits bs) (length bs - Suc i) = bit (word_of_bits bs') (length bs - Suc i)"
    by (simp add: assms(3))
  moreover have "length bs - Suc i < length bs" "length bs - Suc (length bs - Suc i) = i" using i by simp_all
  ultimately show "bs ! i = bs' ! i" using assms(1,2) by (simp add: bit_word_of_bits)
qed (rule assms(1))

text \<open>A word whose top bit is clear is only shifted.\<close>

lemma crc16_bit_low: "\<not> bit w 15 \<Longrightarrow> crc16_bit w = push_bit 1 w"
  by (simp add: crc16_bit_alt)

lemma serial_word:
  "length bs \<le> 16 \<Longrightarrow>
    foldl serial_step c bs = (crc16_bit ^^ length bs) (c XOR push_bit (16 - length bs) (word_of_bits bs))"
proof (induction bs arbitrary: c)
  case (Cons b bs)
  let ?n = "length bs"
  let ?w = "push_bit (15 - ?n) (word_of_bits bs)"
  have n: "?n \<le> 15" using Cons.prems by simp
  have low: "\<not> bit ?w 15"
    using n by (auto simp: bit_push_bit_iff bit_word_of_bits)
  have "push_bit (15 - ?n) (if b then 2 ^ ?n else 0 :: u16) = (if b then 0x8000 else 0)"
    using n by (simp add: push_bit_eq_mult flip: power_add)
  then have split: "push_bit (15 - ?n) (word_of_bits (b # bs)) = (if b then 0x8000 else 0) XOR ?w"
    by (simp only: word_of_bits.simps push_bit_xor)
  have "1 + (15 - ?n) = 16 - ?n" using n by simp
  then have "push_bit (16 - ?n) (word_of_bits bs) = crc16_bit ?w"
    by (simp only: crc16_bit_low [OF low] push_bit_push_bit)
  then have "foldl serial_step c (b # bs) =
      (crc16_bit ^^ ?n) (crc16_bit (c XOR (if b then 0x8000 else 0)) XOR crc16_bit ?w)"
    using Cons by (simp add: serial_step_def [of c b])
  also have "\<dots> = (crc16_bit ^^ Suc ?n) (c XOR push_bit (15 - ?n) (word_of_bits (b # bs)))"
    by (simp only: split crc16_bit_xor [symmetric] xor.assoc funpow_Suc_right o_apply)
  finally show ?case by simp
qed simp

lemma serial_byte: "foldl serial_step c (byte_bits b) = crc16_byte c b"
proof -
  have "push_bit 8 (word_of_bits (byte_bits b)) = push_bit 8 (ucast b)"
  proof (rule bit_word_eqI)
    fix i assume "i < LENGTH(16)"
    then show "bit (push_bit 8 (word_of_bits (byte_bits b))) i = bit (push_bit 8 (ucast b :: u16)) i"
      by (auto simp: bit_push_bit_iff bit_word_of_bits byte_bits_def rev_nth bit_ucast_iff dest: bit_imp_le_length)
  qed
  moreover have "length (byte_bits b) = 8" by (simp add: byte_bits_def)
  ultimately show ?thesis using serial_word [of "byte_bits b" c] by (simp add: crc16_byte_def)
qed

lemma serial_data: "rp_v2_crc16 data = foldl serial_step 0xffff (data_bits data)"
proof -
  have "foldl serial_step c (data_bits data) = foldl crc16_byte c data" for c
    by (induction data arbitrary: c) (simp_all add: data_bits_def serial_byte)
  then show ?thesis by (simp add: rp_v2_crc16_def)
qed

lemma serial_inj: "foldl serial_step c bs = foldl serial_step c' bs \<longleftrightarrow> c = c'"
  by (induction bs arbitrary: c c') (simp_all add: serial_step_def crc16_bits_inj [where n = 1, simplified])

text \<open>C24. The loops compute the textbook check: the bits of \<^verbatim>\<open>rp_v2_crc16\<close>, most significant
  first, are the remainder of the long division.\<close>

theorem crc16_is_division: "word_bits (rp_v2_crc16 data) = crc_by_division data"
proof -
  have "under 0xffff ys = invert_first ys" if "16 \<le> length ys" for ys
  proof (rule nth_equalityI)
    fix i assume "i < length (under 0xffff ys)"
    then have i: "i < length ys" using that by simp
    have "(0xffff :: u16) = mask 16" by (simp add: mask_eq_exp_minus_1)
    then have "bit (0xffff :: u16) (15 - i)" by (simp only: bit_mask_iff) simp
    then have "under 0xffff ys ! i = ((i < 16) \<noteq> ys ! i)" by (simp only: nth_under [OF that i] simp_thms)
    also have "\<dots> = invert_first ys ! i" using i that by (simp add: invert_first_def nth_append)
    finally show "under 0xffff ys ! i = invert_first ys ! i" .
  qed (use that in \<open>simp add: invert_first_def\<close>)
  then show ?thesis
    by (simp add: crc_by_division_def serial_data flip: division_serial)
qed

text \<open>C25. The check detects every burst: data that differs from the sent data only within sixteen
  consecutive bits, wherever they start and however long the data, has another check.\<close>

theorem crc16_detects_bursts:
  assumes "data_bits data = pre @ burst @ post" "data_bits data' = pre @ burst' @ post"
    and "length burst = length burst'" "length burst \<le> 16" "burst \<noteq> burst'"
  shows "rp_v2_crc16 data \<noteq> rp_v2_crc16 data'"
proof
  assume eq: "rp_v2_crc16 data = rp_v2_crc16 data'"
  define c where "c = foldl serial_step 0xffff pre"
  let ?k = "16 - length burst"
  have "foldl serial_step c burst = foldl serial_step c burst'"
    using eq assms(1,2) by (simp add: serial_data c_def serial_inj)
  then have "push_bit ?k (word_of_bits burst) = push_bit ?k (word_of_bits burst')"
    using assms(3,4) by (simp add: serial_word)
  then have shifted: "bit (push_bit ?k (word_of_bits burst)) n = bit (push_bit ?k (word_of_bits burst')) n" for n
    by (simp only:)
  have "word_of_bits burst = word_of_bits burst'"
  proof (rule bit_word_eqI)
    fix i
    show "bit (word_of_bits burst) i = bit (word_of_bits burst') i"
    proof (cases "i < length burst")
      case True
      with assms(4) have "?k + i < 16" by simp
      with shifted [of "?k + i"] show ?thesis by (simp add: bit_push_bit_iff)
    next
      case False
      with assms(3,4) show ?thesis by (simp add: bit_word_of_bits)
    qed
  qed
  with word_of_bits_inj [OF assms(3,4)] assms(5) show False by simp
qed

theorem crc16_detects_bursts_witness:
  "rp_v2_crc16 [1, 0x80, 0, 2] \<noteq> rp_v2_crc16 [1, 0x7f, 0xff, 2]"
proof -
  have bits: "data_bits [1, 0x80, 0, 2] = data_bits [1] @ (True # replicate 15 False) @ data_bits [2]"
    "data_bits [1, 0x7f, 0xff, 2] = data_bits [1] @ (False # replicate 15 True) @ data_bits [2]"
    by code_simp+
  show ?thesis by (rule crc16_detects_bursts [OF bits]) simp_all
qed

end
