(* ===== verification/Handshake.thy ===== *)
theory Handshake
  imports Frames "HOL-Library.Monad_Syntax"
begin

declare One_nat_def [simp del]

section \<open>Opening and closing the link (\<^verbatim>\<open>src/raspike_protocol.c\<close>)\<close>

text \<open>
  The handshake with the hub, \<^verbatim>\<open>raspike_prot_init\<close> and \<^verbatim>\<open>raspike_prot_shutdown\<close>. A loop
  that ends only when the clock says so is a \<open>partial_function\<close>: a call that does not return is
  \<open>None\<close>, and \<open>raspike_prot_init_returns\<close> shows that there is none. The expected firmware
  version comes from the build, so it is an argument.
\<close>

definition RP_HANDSHAKE_TIMEOUT_MS :: int where [simp]: "RP_HANDSHAKE_TIMEOUT_MS = 1500"
definition RP_HANDSHAKE_ATTEMPTS :: nat where [simp]: "RP_HANDSHAKE_ATTEMPTS = 5"
definition RP_HANDSHAKE_RETRY_DELAY_MS :: int where [simp]: "RP_HANDSHAKE_RETRY_DELAY_MS = 100"

subsection \<open>The handshake\<close>

definition on_os :: "(os \<Rightarrow> 'a \<times> os) \<Rightarrow> rp \<Rightarrow> 'a \<times> rp" where
  "on_os f s = (let (x, w) = f (com_os (rp_com s)) in (x, s\<lparr>rp_com := (rp_com s)\<lparr>com_os := w\<rparr>\<rparr>))"

text \<open>\<^verbatim>\<open>nanosleep(&delay, NULL)\<close>, its result ignored.\<close>

definition nanosleep :: "timespec \<Rightarrow> rp \<Rightarrow> rp" where
  "nanosleep req s =
     snd (on_os (\<lambda>w. let (ret, remaining, w') = sys_nanosleep req w in (ret, w')) s)"

definition elapsed_between :: "timespec \<Rightarrow> timespec \<Rightarrow> int" where
  "elapsed_between start now =
     c_int ((tv_sec now - tv_sec start) * 1000 + c_div (tv_nsec now - tv_nsec start) 1000000)"

partial_function (option) scan_loop ::
  "byte \<Rightarrow> int \<Rightarrow> timespec \<Rightarrow> int \<Rightarrow> rp \<Rightarrow> (int \<times> rp) option" where
  "scan_loop target timeout_ms start elapsed_ms s =
     (if elapsed_ms < timeout_ms then
        let (ret, bs, s1) = com_receive 1 100 s
        in if ret = 1 \<and> hd bs = target then Some (0, s1)
           else if ret < 0 \<and> ret \<noteq> - ETIMEDOUT \<and> ret \<noteq> - EAGAIN then Some (ret, s1)
           else let (now, s2) = on_os (clock_gettime CLOCK_MONOTONIC) s1
                in scan_loop target timeout_ms start (elapsed_between start now) s2
      else Some (- ETIMEDOUT, s))"

declare scan_loop.simps [code]

definition scan_for_byte :: "byte \<Rightarrow> int \<Rightarrow> rp \<Rightarrow> (int \<times> rp) option" where
  "scan_for_byte target timeout_ms s =
     (let (start, s1) = on_os (clock_gettime CLOCK_MONOTONIC) s
      in scan_loop target timeout_ms start 0 s1)"

definition perform_handshake_once :: "rp \<Rightarrow> (int \<times> rp) option" where
  "perform_handshake_once s =
     (let (sent, s1) = com_send [RP_CMD_INIT, RP_CMD_INIT_MAGIC] 2 s in
      if sent < 0 then Some (sent, s1) else
      let (flush_result, s2) = com_flush s1 in
      if flush_result < 0 then Some (flush_result, s2) else do {
        (found, s3) \<leftarrow> scan_for_byte RP_CMD_INIT RP_HANDSHAKE_TIMEOUT_MS s2;
        if found < 0 then Some (found, s3) else
        let (ret, magic, s4) = com_receive 1 500 s3 in
        if ret < 0 then Some (ret, s4)
        else if hd magic \<noteq> RP_CMD_INIT_MAGIC then Some (- EPROTO, s4) else
        let (ret, version, s5) = com_receive 3 500 s4 in
        if ret < 0 then Some (ret, s5)
        else Some (0, s5\<lparr>fgVersionMajor := version ! 0, fgVersionMinor := version ! 1,
                          fgVersionPatch := version ! 2\<rparr>)
      })"

text \<open>The attempts that are left, the error of the last one.\<close>

primrec handshake_attempts :: "nat \<Rightarrow> int \<Rightarrow> rp \<Rightarrow> (int \<times> rp) option" where
  "handshake_attempts 0 last_error s = Some (last_error, s)"
| "handshake_attempts (Suc left) last_error s =
     (let (discard_result, s1) = com_discard_input s in do {
        (result, s2) \<leftarrow> perform_handshake_once s1;
        if result = 0 then Some (0, s2)
        else let s3 = (if left > 0
                       then nanosleep
                         \<lparr>tv_sec = 0, tv_nsec = RP_HANDSHAKE_RETRY_DELAY_MS * 1000000\<rparr> s2
                       else s2)
             in handshake_attempts left result s3
      })"

definition perform_handshake :: "rp \<Rightarrow> (int \<times> rp) option" where
  "perform_handshake s = handshake_attempts RP_HANDSHAKE_ATTEMPTS (- ETIMEDOUT) s"

definition receive_legacy_hello :: "rp \<Rightarrow> (int \<times> rp) option" where
  "receive_legacy_hello s = do {
     (ret, s1) \<leftarrow> scan_for_byte RP_CMD_START 2000 s;
     if ret < 0 then Some (ret, s1) else
     let (ret, header, s2) = com_receive 3 1000 s1 in
     if ret < 0 then Some (ret, s2) else
     let cmd = header ! 0; n = header ! 1; port = header ! 2 in
     if cmd \<noteq> RP_CMD_ID_LINK_HELLO \<or> port \<noteq> RP_PORT_NONE \<or> unat n \<noteq> RP_V2_HELLO_PAYLOAD_SIZE
     then Some (- EPROTO, s2) else
     let (ret, payload, s3) = com_receive RP_V2_HELLO_PAYLOAD_SIZE 1000 s2 in
     if ret < 0 then Some (ret, s3)
     else if payload ! 0 \<noteq> RP_V2_VERSION then Some (- EPROTONOSUPPORT, s3) else
     let s4 = s3\<lparr>fgCapabilities := ucast (payload ! 1)\<rparr>;
         max_payload = rp_v2_get_u16 payload 2;
         s5 = s4\<lparr>fgSessionId := rp_v2_get_u32 payload 4\<rparr>;
         status_period_us = rp_v2_get_u32 payload 8 in
     if fgCapabilities s5 AND RP_V2_CAP_FRAMING = 0 \<or> fgSessionId s5 = 0 \<or>
        unat max_payload < sizeof_status
     then Some (- EPROTONOSUPPORT, s5)
     else Some (0, s5\<lparr>fgUseProtocolV2 := True\<rparr>)
   }"

subsection \<open>Initialisation and shutdown\<close>

text \<open>The error exits after the status was allocated: it is freed and the descriptor let go.\<close>

definition abandon :: "rp \<Rightarrow> rp" where
  "abandon s = s\<lparr>fgStatus := None, fgDesc := None\<rparr>"

text \<open>What initialisation does before it talks to the hub: the flag tells whether it goes on.\<close>

definition init_state :: "com_desc option \<Rightarrow> rp \<Rightarrow> bool \<times> rp" where
  "init_state desc s =
     (let s1 = s\<lparr>fgDesc := desc, fgStopCommunication := False, fgHandshakeComplete := False,
                 fgUseProtocolV2 := False, fgSessionId := 0, fgCapabilities := 0,
                 fgActiveReceivers := 0, fgNextSequence := 1, fgLinkStats := zero_link_stats,
                 fgRuntimeTelemetry := zero_runtime_telemetry\<rparr>;
          (ok, s2) = on_os sys_calloc s1 in
      if \<not> ok then (False, s2\<lparr>fgStatus := None\<rparr>) else
      let s3 = s2\<lparr>fgStatus := Some zero_status\<rparr>
      in (True, if \<not> fgPortSynchronizationInitialized s3
                then s3\<lparr>gPortDevices := replicate RP_PORT_NUMBER init_port_device,
                        fgPortSynchronizationInitialized := True\<rparr>
                else reset_port_state (- ENOTCONN) True s3))"

text \<open>The negotiation, the version check and the exits of initialisation.\<close>

definition init_link :: "nat \<times> nat \<times> nat \<Rightarrow> rp \<Rightarrow> (int \<times> rp) option" where
  "init_link expected_version s = do {
     (ret, s1) \<leftarrow> perform_handshake s;
     if ret < 0 then Some (ret, abandon s1)
     else if (unat (fgVersionMajor s1), unat (fgVersionMinor s1), unat (fgVersionPatch s1))
               \<noteq> expected_version
     then Some (- EPROTONOSUPPORT, abandon s1) else do {
       (ret, s2) \<leftarrow> receive_legacy_hello s1;
       if ret < 0 then Some (ret, abandon s2)
       else Some (0, s2\<lparr>fgHandshakeComplete := True,
              rp_com := raspike_usb_set_mode RASPIKE_USB_MODE_NORMAL (rp_com s2)\<rparr>)
     }
   }"

definition raspike_prot_init ::
  "nat \<times> nat \<times> nat \<Rightarrow> com_desc option \<Rightarrow> rp \<Rightarrow> (int \<times> rp) option" where
  "raspike_prot_init expected_version desc s =
     (if desc = None then Some (- EINVAL, s)
      else if fgDesc s \<noteq> None then Some (- EBUSY, s)
      else let (ok, s1) = init_state desc s
           in if \<not> ok then Some (- ENOMEM, s1\<lparr>fgDesc := None\<rparr>) else init_link expected_version s1)"

text \<open>
  The wait for the receivers: \<open>others\<close> holds, for each time the condition variable wakes the
  caller, what the other threads did meanwhile. \<open>None\<close> is a wait that no wake-up ended.
\<close>

fun await_receivers :: "(rp \<Rightarrow> rp) list \<Rightarrow> rp \<Rightarrow> rp option" where
  "await_receivers others s =
     (if fgActiveReceivers s > 0
      then (case others of [] \<Rightarrow> None | f # rest \<Rightarrow> await_receivers rest (f s))
      else Some s)"

declare await_receivers.simps [simp del]

definition raspike_prot_shutdown ::
  "(rp \<Rightarrow> rp) list \<Rightarrow> rp \<Rightarrow> (int \<times> com_desc option \<times> rp) option" where
  "raspike_prot_shutdown others s = do {
     s1 \<leftarrow> await_receivers others (s\<lparr>fgStopCommunication := True\<rparr>);
     let desc = fgDesc s1;
         s2 = reset_port_state (- ENOTCONN) True (s1\<lparr>fgDesc := None\<rparr>);
         (desc', s3) = (if desc = None then (desc, s2)
                        else let (_, c1) = raspike_com_flush desc (rp_com s2);
                                 (_, desc', c2) = raspike_com_close desc c1
                             in (desc', s2\<lparr>rp_com := c2\<rparr>));
         s4 = s3\<lparr>fgStatus := None, fgHandshakeComplete := False, fgUseProtocolV2 := False,
                 fgSessionId := 0\<rparr>
     in Some (0, desc', s4)
   }"

subsection \<open>Time passes\<close>

definition activity :: "os \<Rightarrow> nat" where
  "activity w = length (os_polls w) + length (os_ticks w)"

lemma tick_activity: "activity (tick w) \<le> activity w \<and> (activity (tick w) = activity w \<longrightarrow> tick w = w)"
  by (simp add: activity_def tick_def split: list.split)

lemma poll_retry_activity:
  "poll_retry t w = (r, ev, w') \<Longrightarrow> activity w' \<le> activity w \<and>
    (activity w' = activity w \<longrightarrow> r = 0 \<and> os_now w' = os_now w + max 0 t * 10 ^ 6)"
proof (induction t w rule: poll_retry.induct)
  case (1 t w)
  obtain ret ev1 w1 where call: "sys_poll t w = (ret, ev1, w1)" by (cases "sys_poll t w") auto
  show ?case
  proof (cases "ret < 0 \<and> os_errno w1 = EINTR")
    case True
    with "1.prems" call have "poll_retry t w1 = (r, ev, w')"
      by (simp add: poll_retry.simps [of t w])
    with "1.IH" [OF call [symmetric] refl refl True] sys_poll_frame [OF call]
      sys_poll_consumes [OF call] True show ?thesis by (auto simp: activity_def)
  next
    case False
    with "1.prems" call have "ret = r" "w1 = w'" by (auto simp: poll_retry.simps [of t w])
    with call show ?thesis
      by (auto simp: sys_poll_def activity_def split: list.splits poll_answer.splits)
  qed
qed

lemma rp_usb_receive_activity:
  assumes "rp_usb_receive desc buf n t w = (r, bs, w')"
  shows "activity w' \<le> activity w \<and> (activity w' = activity w \<longrightarrow>
    r = - EINVAL \<or> (r = - ETIMEDOUT \<and> os_now w' = os_now w + max 0 t * 10 ^ 6))"
proof -
  obtain ret ev w1 where poll: "poll_retry t w = (ret, ev, w1)" by (cases "poll_retry t w") auto
  have "activity w2 = activity w1" if "read_loop m w1 = (r2, bs2, w2)" for m r2 bs2 w2
    using read_loop_props [OF that] by (simp add: activity_def)
  with poll_retry_activity [OF poll] assms poll show ?thesis
    by (auto simp: rp_usb_receive_def read_some_fd_def wait_fd_def split: if_splits)
qed

definition clock_ms :: "os \<Rightarrow> int" where
  "clock_ms w = fst (monotonic_ms w)"

lemma monotonic_ms_activity:
  assumes "monotonic_ms w = (now, w')"
  shows "activity w' \<le> activity w \<and> (activity w' = activity w \<longrightarrow> w' = w \<and> now = clock_ms w)"
  using assms tick_activity [of w]
  by (auto simp: monotonic_ms_def clock_gettime_def clock_ms_def Let_def split: prod.splits)

lemma receive_loop_activity:
  assumes "receive_loop desc n deadline rs w = (r, bs, w')"
  shows "activity w' \<le> activity w \<and> (activity w' = activity w \<and> int (length rs) < n \<longrightarrow>
    r = - EINVAL \<or> (r = - ETIMEDOUT \<and>
      os_now w' = os_now w + max 0 (c_int (deadline - clock_ms w)) * 10 ^ 6))"
  using assms
proof (induction desc n deadline rs w rule: receive_loop.induct)
  case (1 desc n deadline rs w)
  note unfold = receive_loop.simps [of desc n deadline rs w]
  show ?case
  proof (cases "int (length rs) < n")
    case False
    with "1.prems" show ?thesis by (auto simp: unfold)
  next
    case more: True
    obtain now w1 where mono: "monotonic_ms w = (now, w1)" by (cases "monotonic_ms w")
    let ?rem = "c_int (deadline - now)"
    obtain len got w2 where rcv: "rp_usb_receive desc True (n - int (length rs)) ?rem w1 = (len, got, w2)"
      by (cases "rp_usb_receive desc True (n - int (length rs)) ?rem w1") auto
    note facts = monotonic_ms_activity [OF mono] rp_usb_receive_activity [OF rcv]
    consider "?rem \<le> 0" | "?rem > 0" "len > 0"
      | "?rem > 0" "\<not> len > 0" "len = - EAGAIN \<or> len = - EINTR"
      | "?rem > 0" "\<not> len > 0" "\<not> (len = - EAGAIN \<or> len = - EINTR)" by linarith
    then show ?thesis
    proof cases
      case 1
      with "1.prems" mono more facts(1) show ?thesis by (auto simp: unfold)
    next
      case 2
      with "1.prems" mono rcv more have "receive_loop desc n deadline (rs @ got) w2 = (r, bs, w')"
        by (simp add: unfold)
      from "1.IH"(1) [OF more mono [symmetric] refl refl _ rcv [symmetric] refl refl \<open>len > 0\<close> this]
        2 facts show ?thesis by auto
    next
      case 3
      with "1.prems" mono rcv more have "receive_loop desc n deadline rs w2 = (r, bs, w')"
        by (auto simp: unfold)
      from "1.IH"(2) [OF more mono [symmetric] refl refl _ rcv [symmetric] refl refl 3(2,3) this]
        3 facts show ?thesis by auto
    next
      case 4
      with "1.prems" mono rcv more facts show ?thesis by (auto simp: unfold)
    qed
  qed
qed

text \<open>
  A receive of a byte uses up an answer of the system, fails for good, or lets its timeout pass.
\<close>

lemma com_receive_activity:
  assumes "com_receive n t s = (r, bs, s')" "0 < n" "0 < t" "t < 2 ^ 31"
  shows "activity (com_os (rp_com s')) \<le> activity (com_os (rp_com s)) \<and>
    (activity (com_os (rp_com s')) = activity (com_os (rp_com s)) \<longrightarrow> r = - EINVAL \<or>
      (r = - ETIMEDOUT \<and> os_now (com_os (rp_com s')) = os_now (com_os (rp_com s)) + t * 10 ^ 6))"
proof -
  let ?w = "com_os (rp_com s)"
  obtain now w1 where mono: "monotonic_ms ?w = (now, w1)" by (cases "monotonic_ms ?w")
  obtain r2 bs2 w2 where loop: "receive_loop (fgDesc s) (int n) (now + t) [] w1 = (r2, bs2, w2)"
    by (cases "receive_loop (fgDesc s) (int n) (now + t) [] w1") auto
  note facts = monotonic_ms_activity [OF mono] receive_loop_activity [OF loop]
  have "c_int t = t" using assms by (intro c_int_small) auto
  with facts assms mono loop show ?thesis
    by (auto simp: com_receive_def raspike_com_receive_timeout_def Let_def split: if_splits)
qed

lemma clock_activity:
  assumes "on_os (clock_gettime CLOCK_MONOTONIC) s = (now, s')"
  shows "now = timespec_of (os_now (com_os (rp_com s')))"
    "activity (com_os (rp_com s')) \<le> activity (com_os (rp_com s))"
    "activity (com_os (rp_com s')) = activity (com_os (rp_com s)) \<longrightarrow>
      os_now (com_os (rp_com s')) = os_now (com_os (rp_com s))"
  using assms tick_activity [of "com_os (rp_com s)"]
  by (auto simp: on_os_def clock_gettime_def Let_def)

lemma c_int_add: "- (2 ^ 31) \<le> c_int x + d \<Longrightarrow> c_int x + d < 2 ^ 31 \<Longrightarrow> c_int (x + d) = c_int x + d"
proof -
  assume "- (2 ^ 31) \<le> c_int x + d" "c_int x + d < 2 ^ 31"
  then have "c_int (c_int x + d) = c_int x + d" by (rule c_int_small)
  moreover have "c_int (c_int x + d) = c_int (x + d)"
    using signed_take_bit_add [of 31 "signed_take_bit 31 x" d] signed_take_bit_add [of 31 x d]
    by (simp add: c_int_def)
  ultimately show ?thesis by simp
qed

lemma c_div_million: "x - 999999 \<le> c_div x 1000000 * 1000000" "c_div x 1000000 * 1000000 \<le> x + 999999"
  unfolding c_div_def sgn_if abs_if by simp_all linarith+

lemma c_div_shift:
  assumes "d = 10 ^ 8 \<or> d = 10 ^ 8 - 10 ^ 9"
  shows "d div 10 ^ 6 - 1 \<le> c_div (x + d) 1000000 - c_div x 1000000"
    "c_div (x + d) 1000000 - c_div x 1000000 \<le> d div 10 ^ 6 + 1"
  using assms c_div_million [of x] c_div_million [of "x + d"] by auto

lemma carry_tenth:
  "(b + 100000000) div 1000000000 = b div (1000000000 :: int) \<and>
        (b + 100000000) mod 1000000000 = b mod 1000000000 + 100000000 \<or>
      (b + 100000000) div 1000000000 = b div 1000000000 + 1 \<and>
        (b + 100000000) mod 1000000000 = b mod 1000000000 - 900000000"
proof -
  obtain q r where qr: "b = q * 1000000000 + r" "b div 1000000000 = q" "b mod 1000000000 = r"
      "0 \<le> r" "r < 1000000000"
    using that [of "b div 1000000000" "b mod 1000000000"] by simp
  have step: "(u * 1000000000 + v) div 1000000000 = u" "(u * 1000000000 + v) mod 1000000000 = v"
    if "0 \<le> v" "v < 1000000000" for u v :: int
    using that by simp_all
  show ?thesis
  proof (cases "r < 900000000")
    case True
    with qr(4) have "0 \<le> r + 100000000" "r + 100000000 < 1000000000" by linarith+
    moreover have eq: "b + 100000000 = q * 1000000000 + (r + 100000000)" unfolding qr(1) by simp
    ultimately show ?thesis unfolding qr(2,3) eq by (simp only: step simp_thms)
  next
    case False
    with qr(5) have "0 \<le> r - 900000000" "r - 900000000 < 1000000000" by linarith+
    moreover have eq: "b + 100000000 = (q + 1) * 1000000000 + (r - 900000000)" unfolding qr(1) by simp
    ultimately show ?thesis unfolding qr(2,3) eq by (simp only: step simp_thms)
  qed
qed

lemma raw_advances:
  fixes q r q' r' A B :: int
  assumes "q' = q \<and> r' = r + 100000000 \<or> q' = q + 1 \<and> r' = r - 900000000"
  shows "\<exists>d. (q' - A) * 1000 + c_div (r' - B) 1000000 =
      (q - A) * 1000 + c_div (r - B) 1000000 + d \<and> 99 \<le> d \<and> d \<le> 101"
  using assms
proof
  assume "q' = q \<and> r' = r + 100000000"
  with c_div_shift [of "10 ^ 8" "r - B"] show ?thesis
    by (intro exI [of _ "c_div (r' - B) 1000000 - c_div (r - B) 1000000"])
      (simp add: algebra_simps)
next
  assume *: "q' = q + 1 \<and> r' = r - 900000000"
  then have "r' - B = (r - B) + (10 ^ 8 - 10 ^ 9)" by simp
  with * c_div_shift [of "10 ^ 8 - 10 ^ 9" "r - B"] show ?thesis
    by (intro exI [of _ "1000 + (c_div (r' - B) 1000000 - c_div (r - B) 1000000)"])
      (simp add: diff_right_commute)
qed

lemma elapsed_advances:
  assumes "elapsed_between (timespec_of a) (timespec_of b) \<le> 2 ^ 30"
  shows "elapsed_between (timespec_of a) (timespec_of b) + 99 \<le>
    elapsed_between (timespec_of a) (timespec_of (b + 10 ^ 8))"
proof -
  have eight: "10 ^ 8 = (100000000 :: int)" and nine: "10 ^ 9 = (1000000000 :: int)" by simp_all
  obtain u d where raw: "elapsed_between (timespec_of a) (timespec_of b) = c_int u"
    "elapsed_between (timespec_of a) (timespec_of (b + 10 ^ 8)) = c_int (u + d)" "99 \<le> d" "d \<le> 101"
    using raw_advances [OF carry_tenth [of b], of "a div 1000000000" "a mod 1000000000"]
    unfolding elapsed_between_def timespec_of_def timespec.simps eight nine by metis
  moreover have "- (2 ^ 31) \<le> c_int u"
    unfolding c_int_def by (rule signed_take_bit_int_greater_eq_minus_exp)
  ultimately show ?thesis
    using assms c_int_add [of u d] by simp
qed

definition spent :: "rp \<Rightarrow> nat" where
  "spent s = activity (com_os (rp_com s))"

definition in_time :: "timespec \<Rightarrow> int \<Rightarrow> rp \<Rightarrow> bool" where
  "in_time start elapsed s \<longleftrightarrow> (\<exists>a. start = timespec_of a \<and>
     elapsed = elapsed_between start (timespec_of (os_now (com_os (rp_com s)))))"

lemma scan_loop_returns:
  assumes "timeout_ms \<le> 2 ^ 30" "in_time start elapsed s"
  shows "\<exists>r s'. scan_loop target timeout_ms start elapsed s = Some (r, s')"
  using assms(2)
proof (induction "(spent s, nat (timeout_ms - elapsed))" arbitrary: elapsed s
    rule: wf_induct_rule [OF wf_lex_prod [OF wf_less wf_less]])
  case (1 elapsed s)
  obtain ret bs s1 where rcv: "com_receive 1 100 s = (ret, bs, s1)"
    by (cases "com_receive 1 100 s") auto
  obtain now s2 where clk: "on_os (clock_gettime CLOCK_MONOTONIC) s1 = (now, s2)"
    by (cases "on_os (clock_gettime CLOCK_MONOTONIC) s1") auto
  let ?e = "elapsed_between start now"
  note act = com_receive_activity [OF rcv] clock_activity [OF clk]
  show ?case
  proof (cases "elapsed < timeout_ms \<and> \<not> (ret = 1 \<and> hd bs = target) \<and>
      \<not> (ret < 0 \<and> ret \<noteq> - ETIMEDOUT \<and> ret \<noteq> - EAGAIN)")
    case False
    then show ?thesis by (auto simp: scan_loop.simps [of target timeout_ms start elapsed s] rcv)
  next
    case True
    have on: "in_time start ?e s2"
      using 1(2) act(2) by (auto simp: in_time_def)
    have "((spent s2, nat (timeout_ms - ?e)), (spent s, nat (timeout_ms - elapsed)))
        \<in> less_than <*lex*> less_than"
    proof (cases "spent s2 = spent s")
      case False
      then show ?thesis using act by (simp add: spent_def)
    next
      case same: True
      then have "activity (com_os (rp_com s1)) = activity (com_os (rp_com s))"
        "activity (com_os (rp_com s2)) = activity (com_os (rp_com s1))"
        using act by (simp_all add: spent_def)
      then have "os_now (com_os (rp_com s2)) = os_now (com_os (rp_com s)) + 10 ^ 8"
        using act True by auto
      then have "elapsed + 99 \<le> ?e"
        using elapsed_advances 1(2) act(2) True assms(1) by (auto simp: in_time_def)
      then show ?thesis using same True by simp
    qed
    then obtain r s' where "scan_loop target timeout_ms start ?e s2 = Some (r, s')"
      using 1(1) [OF _ on] by auto
    with True show ?thesis
      by (auto simp: scan_loop.simps [of target timeout_ms start elapsed s] rcv clk)
  qed
qed

lemma scan_for_byte_returns:
  assumes "timeout_ms \<le> 2 ^ 30"
  shows "\<exists>r s'. scan_for_byte target timeout_ms s = Some (r, s')"
proof -
  obtain start s1 where clk: "on_os (clock_gettime CLOCK_MONOTONIC) s = (start, s1)"
    by (cases "on_os (clock_gettime CLOCK_MONOTONIC) s")
  with clock_activity(1) [OF clk] have "in_time start 0 s1"
    by (auto simp: in_time_def elapsed_between_def c_div_def)
  with scan_loop_returns [OF assms] clk show ?thesis by (simp add: scan_for_byte_def)
qed

subsection \<open>Every call returns\<close>

lemma perform_handshake_once_returns: "\<exists>r s'. perform_handshake_once s = Some (r, s')"
proof -
  have "\<exists>r s'. scan_for_byte RP_CMD_INIT RP_HANDSHAKE_TIMEOUT_MS t = Some (r, s')" for t
    by (rule scan_for_byte_returns) simp
  then show ?thesis
    unfolding perform_handshake_once_def Let_def
    by (auto split: prod.split Option.bind_split) (metis option.discI)
qed

lemma handshake_attempts_returns: "\<exists>r s'. handshake_attempts n e s = Some (r, s')"
proof (induction n arbitrary: e s)
  case 0
  then show ?case by simp
next
  case (Suc n)
  obtain d s1 where "com_discard_input s = (d, s1)" by (cases "com_discard_input s")
  with Suc perform_handshake_once_returns [of s1] show ?case by (auto simp: Let_def)
qed

lemma receive_legacy_hello_returns: "\<exists>r s'. receive_legacy_hello s = Some (r, s')"
proof -
  obtain r s' where "scan_for_byte RP_CMD_START 2000 s = Some (r, s')"
    using scan_for_byte_returns by fastforce
  then show ?thesis
    unfolding receive_legacy_hello_def Let_def by (auto split: prod.split)
qed

lemma init_link_returns: "\<exists>r s'. init_link v s = Some (r, s')"
proof -
  obtain r s1 where "perform_handshake s = Some (r, s1)"
    unfolding perform_handshake_def using handshake_attempts_returns by blast
  moreover obtain r2 s2 where "receive_legacy_hello s1 = Some (r2, s2)"
    using receive_legacy_hello_returns by blast
  ultimately show ?thesis unfolding init_link_def by simp
qed

lemma prot_init_returns: "\<exists>r s'. raspike_prot_init v desc s = Some (r, s')"
  using init_link_returns by (simp add: raspike_prot_init_def split: prod.split)

subsection \<open>What the handshake consumes and changes\<close>

definition handshake_step :: "rp \<Rightarrow> rp \<Rightarrow> bool" where
  "handshake_step s s' \<longleftrightarrow>
     s' = s\<lparr>rp_com := rp_com s', fgVersionMajor := fgVersionMajor s',
            fgVersionMinor := fgVersionMinor s', fgVersionPatch := fgVersionPatch s'\<rparr>"

definition reads_up_to :: "byte list \<Rightarrow> rp \<Rightarrow> rp \<Rightarrow> bool" where
  "reads_up_to bs s s' \<longleftrightarrow> (\<exists>junk. upcoming_bytes s = junk @ bs @ upcoming_bytes s')"

lemma reads_more: "reads_up_to [] s s1 \<Longrightarrow> reads_up_to bs s1 s' \<Longrightarrow> reads_up_to bs s s'"
  by (auto simp: reads_up_to_def)

lemma reads_then:
  "reads_up_to bs s s1 \<Longrightarrow> upcoming_bytes s1 = cs @ upcoming_bytes s' \<Longrightarrow> reads_up_to (bs @ cs) s s'"
  by (auto simp: reads_up_to_def)

lemma reads_forget: "reads_up_to bs s s' \<Longrightarrow> reads_up_to [] s s'"
  by (auto simp: reads_up_to_def)

lemma reads_refl: "reads_up_to [] s s"
  by (simp add: reads_up_to_def)

lemma on_os_clock_props:
  assumes "on_os (clock_gettime clk) s = (t, s')"
  shows "same_but_com s s'" "upcoming_bytes s' = upcoming_bytes s" "wire_out s' = wire_out s"
  using assms
  by (auto simp: on_os_def clock_gettime_def Let_def same_but_com_def upcoming_bytes_def
      incoming_def wire_out_def on_line_def)

lemmas scan_loop_induct = scan_loop.raw_induct [rotated, consumes 1, case_names loop]

lemma scan_loop_props:
  assumes "scan_loop target t start e s = Some x"
  shows "same_but_com s (snd x) \<and> fst x \<le> 0 \<and>
    reads_up_to (if fst x = 0 then [target] else []) s (snd x)"
  using assms
proof (induction rule: scan_loop_induct)
  case (loop loop target t start e s x)
  note IH = loop(1) and body = loop(2)
  show ?case
  proof (cases "e < t")
    case False
    with body show ?thesis by (auto simp: reads_refl)
  next
    case more: True
    obtain ret bs s1 where rcv: "com_receive 1 100 s = (ret, bs, s1)"
      by (cases "com_receive 1 100 s") auto
    have s1: "upcoming_bytes s = bs @ upcoming_bytes s1" "same_but_com s s1"
      using rx.recv_stream [OF rcv] com_receive_frame [OF rcv] by auto
    have read: "reads_up_to [] s s1" using s1(1) by (auto simp: reads_up_to_def)
    obtain now s2 where clk: "on_os (clock_gettime CLOCK_MONOTONIC) s1 = (now, s2)"
      by (cases "on_os (clock_gettime CLOCK_MONOTONIC) s1") auto
    consider "ret = 1" "hd bs = target" | "\<not> (ret = 1 \<and> hd bs = target)" "ret < 0"
        "ret \<noteq> - ETIMEDOUT" "ret \<noteq> - EAGAIN"
      | "\<not> (ret = 1 \<and> hd bs = target)" "\<not> (ret < 0 \<and> ret \<noteq> - ETIMEDOUT \<and> ret \<noteq> - EAGAIN)" by blast
    then show ?thesis
    proof cases
      case 1
      with rx.recv_count [OF rcv] have "bs = [target]" by (cases bs) auto
      with 1 body more rcv s1 show ?thesis by (auto simp: reads_up_to_def)
    next
      case 2
      with body more rcv s1 read show ?thesis by auto
    next
      case 3
      with body more rcv clk have "loop target t start (elapsed_between start now) s2 = Some x"
        by (auto split: if_splits)
      note later = IH [OF this] and clock = on_os_clock_props [OF clk]
      have "reads_up_to [] s s2" using read clock(2) by (simp add: reads_up_to_def)
      with later show ?thesis
        using same_but_com_trans [OF same_but_com_trans [OF s1(2) clock(1)]]
        by (auto intro: reads_more)
    qed
  qed
qed

lemma scan_for_byte_props:
  assumes "scan_for_byte target t s = Some (r, s')"
  shows "same_but_com s s' \<and> r \<le> 0 \<and> reads_up_to (if r = 0 then [target] else []) s s'"
proof -
  obtain start s1 where clk: "on_os (clock_gettime CLOCK_MONOTONIC) s = (start, s1)"
    by (cases "on_os (clock_gettime CLOCK_MONOTONIC) s")
  with assms have loop: "scan_loop target t start 0 s1 = Some (r, s')"
    by (simp add: scan_for_byte_def)
  have "reads_up_to [] s s1" using on_os_clock_props [OF clk] by (simp add: reads_up_to_def)
  with scan_loop_props [OF loop] on_os_clock_props(1) [OF clk] show ?thesis
    by (auto intro: same_but_com_trans reads_more)
qed

lemma com_send_upcoming: "com_send f n s = (r, s') \<Longrightarrow> upcoming_bytes s' = upcoming_bytes s"
  by (auto simp: com_send_def raspike_com_send_def rp_usb_send_def buffered_write_def
      upcoming_bytes_def incoming_def dest: write_all_fd_props split: if_splits prod.splits)

lemma com_flush_upcoming: "com_flush s = (r, s') \<Longrightarrow> upcoming_bytes s' = upcoming_bytes s"
  by (auto simp: com_flush_def raspike_com_flush_def rp_usb_flush_def upcoming_bytes_def
      split: if_splits prod.splits dest: flush_buffer_locked_props)

lemma rx_bytes_drop: "\<exists>junk. rx_bytes as = junk @ rx_bytes (drop n as)"
proof (induction as arbitrary: n rule: rx_bytes.induct)
  case (2 bs rest)
  then show ?case by (cases n) (auto, metis append_assoc)
next
  case (3 e rest)
  then show ?case by (cases n) auto
qed simp

lemma com_discard_reads: "com_discard_input s = (r, s') \<Longrightarrow> reads_up_to [] s s'"
  using rx_bytes_drop
  by (auto simp: com_discard_input_def raspike_com_discard_input_def sys_tcflush_input_def
      reads_up_to_def upcoming_bytes_def incoming_def
      split: if_splits list.splits flush_answer.splits)

lemma com_receive_reads: "com_receive k t s = (r, bs, s') \<Longrightarrow> upcoming_bytes s = bs @ upcoming_bytes s'"
  by (rule rx.recv_stream)

lemma same_but_com_handshake_step: "same_but_com s s' \<Longrightarrow> handshake_step s s'"
  by (cases s, cases s') (simp add: same_but_com_def handshake_step_def)

lemma handshake_step_trans: "handshake_step s t \<Longrightarrow> handshake_step t u \<Longrightarrow> handshake_step s u"
  by (cases s, cases t, cases u) (simp add: handshake_step_def)

lemma nanosleep_props: "same_but_com s (nanosleep req s)" "upcoming_bytes (nanosleep req s) = upcoming_bytes s"
  "wire_out (nanosleep req s) = wire_out s"
  by (simp_all add: nanosleep_def on_os_def sys_nanosleep_def Let_def same_but_com_def
      upcoming_bytes_def incoming_def wire_out_def on_line_def split: list.split sleep_answer.split)

lemma three_bytes: "length bs = 3 \<Longrightarrow> bs = [bs ! 0, bs ! 1, bs ! 2]"
  by (auto simp: numeral_3_eq_3 numeral_2_eq_2 length_Suc_conv One_nat_def)

lemma perform_handshake_once_props:
  assumes "perform_handshake_once s = Some (r, s')"
  shows "handshake_step s s' \<and> r \<le> 0 \<and> reads_up_to (if r = 0 then
    [RP_CMD_INIT, RP_CMD_INIT_MAGIC, fgVersionMajor s', fgVersionMinor s', fgVersionPatch s'] else []) s s'"
proof -
  obtain sent s1 where snd: "com_send [RP_CMD_INIT, RP_CMD_INIT_MAGIC] 2 s = (sent, s1)"
    by (cases "com_send [RP_CMD_INIT, RP_CMD_INIT_MAGIC] 2 s")
  obtain fr s2 where fl: "com_flush s1 = (fr, s2)" by (cases "com_flush s1")
  obtain found s3 where scan: "scan_for_byte RP_CMD_INIT RP_HANDSHAKE_TIMEOUT_MS s2 = Some (found, s3)"
    using scan_for_byte_returns [of RP_HANDSHAKE_TIMEOUT_MS] by fastforce
  obtain r4 magic s4 where rcv: "com_receive 1 500 s3 = (r4, magic, s4)"
    by (cases "com_receive 1 500 s3") auto
  obtain r5 ver s5 where ver: "com_receive 3 500 s4 = (r5, ver, s5)"
    by (cases "com_receive 3 500 s4") auto
  note coms = com_send_frame [OF snd] com_flush_frame [OF fl]
    conjunct1 [OF scan_for_byte_props [OF scan]] com_receive_frame [OF rcv] com_receive_frame [OF ver]
  note c1 = coms(1) and c2 = same_but_com_trans [OF c1 coms(2)]
  note c3 = same_but_com_trans [OF c2 coms(3)]
  note c4 = same_but_com_trans [OF c3 coms(4)] 
  note c5 = same_but_com_trans [OF c4 coms(5)]
  have r2: "reads_up_to [] s s2" "reads_up_to [] s s1"
    using com_send_upcoming [OF snd] com_flush_upcoming [OF fl] by (simp_all add: reads_up_to_def)
  have r3: "reads_up_to (if found = 0 then [RP_CMD_INIT] else []) s s3"
    using reads_more [OF r2(1)] scan_for_byte_props [OF scan] by blast
  note r3' = reads_forget [OF r3]
  have r4: "reads_up_to [] s s4" and r4': "found = 0 \<Longrightarrow> reads_up_to ([RP_CMD_INIT] @ magic) s s4"
    using reads_then [OF r3 com_receive_reads [OF rcv]] by (auto intro: reads_forget)
  have r5: "reads_up_to [] s s5" "found = 0 \<Longrightarrow> reads_up_to (([RP_CMD_INIT] @ magic) @ ver) s s5"
    using reads_then [OF r4 com_receive_reads [OF ver]] reads_then [OF r4' com_receive_reads [OF ver]]
    by (auto intro: reads_forget)
  have r5v: "reads_up_to bs s (s5\<lparr>fgVersionMajor := a, fgVersionMinor := b, fgVersionPatch := c\<rparr>) =
      reads_up_to bs s s5" for bs a b c
    by (simp add: reads_up_to_def upcoming_bytes_def)
  have found: "found \<le> 0" using scan_for_byte_props [OF scan] by blast
  have eq: "(r, s') = (if sent < 0 then (sent, s1) else if fr < 0 then (fr, s2)
      else if found < 0 then (found, s3) else if r4 < 0 then (r4, s4)
      else if hd magic \<noteq> RP_CMD_INIT_MAGIC then (- EPROTO, s4) else if r5 < 0 then (r5, s5)
      else (0, s5\<lparr>fgVersionMajor := ver ! 0, fgVersionMinor := ver ! 1, fgVersionPatch := ver ! 2\<rparr>))"
    using assms snd fl scan rcv ver by (simp add: perform_handshake_once_def split: if_splits)
  have h5: "handshake_step s (s5\<lparr>fgVersionMajor := a, fgVersionMinor := b, fgVersionPatch := c\<rparr>)" for a b c
    by (rule handshake_step_trans [OF same_but_com_handshake_step [OF c5]]) (simp add: handshake_step_def)
  have magic: "magic = [hd magic]" if "0 \<le> r4"
    using rx.recv_exact [OF rcv that] by (cases magic) (auto simp: One_nat_def)
  have ver3: "ver = [ver ! 0, ver ! 1, ver ! 2]" if "0 \<le> r5"
    using rx.recv_exact [OF ver that] by (rule three_bytes)
  have finished: "reads_up_to [RP_CMD_INIT, RP_CMD_INIT_MAGIC, ver ! 0, ver ! 1, ver ! 2] s s5"
    if "0 \<le> r4" "0 \<le> r5" "hd magic = RP_CMD_INIT_MAGIC" "\<not> found < 0"
  proof -
    have "[RP_CMD_INIT, RP_CMD_INIT_MAGIC, ver ! 0, ver ! 1, ver ! 2] = ([RP_CMD_INIT] @ magic) @ ver"
      unfolding append.simps using magic [OF that(1)] ver3 [OF that(2)] that(3) by (metis append.simps)
    with r5(2) that(4) found show ?thesis by simp
  qed
  note steps = c1 c2 c3 c4 c5
  note steps = steps [THEN same_but_com_handshake_step]
  show ?thesis
    using eq found steps h5 r2 r3' r4 r5(1) r5v finished
    by (auto split: if_splits simp del: RP_CMD_INIT_def RP_CMD_INIT_MAGIC_def)
qed
lemma handshake_attempts_props:
  assumes "handshake_attempts n e s = Some (r, s')" "e < 0"
  shows "handshake_step s s' \<and> r \<le> 0 \<and> reads_up_to (if r = 0 then
    [RP_CMD_INIT, RP_CMD_INIT_MAGIC, fgVersionMajor s', fgVersionMinor s', fgVersionPatch s'] else []) s s'"
  using assms
proof (induction n arbitrary: e s)
  case 0
  then show ?case by (auto simp: handshake_step_def reads_refl)
next
  case (Suc n)
  obtain d s1 where disc: "com_discard_input s = (d, s1)" by (cases "com_discard_input s")
  obtain result s2 where once: "perform_handshake_once s1 = Some (result, s2)"
    using perform_handshake_once_returns by blast
  note props = perform_handshake_once_props [OF once]
  have first: "handshake_step s s2" "reads_up_to (if result = 0 then [RP_CMD_INIT, RP_CMD_INIT_MAGIC,
      fgVersionMajor s2, fgVersionMinor s2, fgVersionPatch s2] else []) s s2"
    using props handshake_step_trans [OF same_but_com_handshake_step [OF com_discard_frame [OF disc]]]
      reads_more [OF com_discard_reads [OF disc]] by blast+
  show ?case
  proof (cases "result = 0")
    case True
    with Suc.prems disc once first show ?thesis by (simp del: RP_CMD_INIT_def RP_CMD_INIT_MAGIC_def)
  next
    case False
    define s3 where "s3 = (if n > 0 then nanosleep
      \<lparr>tv_sec = 0, tv_nsec = RP_HANDSHAKE_RETRY_DELAY_MS * 1000000\<rparr> s2 else s2)"
    have "handshake_step s2 s3" "reads_up_to [] s2 s3"
      using nanosleep_props by (auto simp: s3_def reads_up_to_def intro: same_but_com_handshake_step)
    with first False have so_far: "handshake_step s s3" "reads_up_to [] s s3"
      by (auto intro: handshake_step_trans reads_more)
    from False Suc.prems(1) disc once have "handshake_attempts n result s3 = Some (r, s')"
      by (simp add: s3_def)
    from Suc.IH [OF this] props False so_far show ?thesis
      by (auto intro: handshake_step_trans reads_more simp del: RP_CMD_INIT_def RP_CMD_INIT_MAGIC_def)
  qed
qed

definition hello_accepted :: "byte list \<Rightarrow> rp \<Rightarrow> bool" where
  "hello_accepted payload s \<longleftrightarrow> length payload = RP_V2_HELLO_PAYLOAD_SIZE \<and>
     payload ! 0 = RP_V2_VERSION \<and> fgCapabilities s = ucast (payload ! 1) \<and>
     fgCapabilities s AND RP_V2_CAP_FRAMING \<noteq> 0 \<and> fgSessionId s = rp_v2_get_u32 payload 4 \<and>
     fgSessionId s \<noteq> 0 \<and> sizeof_status \<le> unat (rp_v2_get_u16 payload 2) \<and> fgUseProtocolV2 s"

definition hello_step :: "rp \<Rightarrow> rp \<Rightarrow> bool" where
  "hello_step s s' \<longleftrightarrow>
     s' = s\<lparr>rp_com := rp_com s', fgCapabilities := fgCapabilities s', fgSessionId := fgSessionId s',
            fgUseProtocolV2 := fgUseProtocolV2 s'\<rparr>"

definition hello_header :: "byte list" where
  "hello_header = [RP_CMD_START, RP_CMD_ID_LINK_HELLO, 12, RP_PORT_NONE]"

lemma receive_legacy_hello_props:
  assumes "receive_legacy_hello s = Some (r, s')"
  shows "hello_step s s' \<and> r \<le> 0 \<and> (r = 0 \<longrightarrow>
    (\<exists>payload. hello_accepted payload s' \<and> reads_up_to (hello_header @ payload) s s'))"
proof -
  obtain found s1 where scan: "scan_for_byte RP_CMD_START 2000 s = Some (found, s1)"
    using scan_for_byte_returns [of 2000] by fastforce
  obtain r2 h s2 where rh: "com_receive 3 1000 s1 = (r2, h, s2)"
    by (cases "com_receive 3 1000 s1") auto
  obtain r3 payload s3 where rp: "com_receive RP_V2_HELLO_PAYLOAD_SIZE 1000 s2 = (r3, payload, s3)"
    by (cases "com_receive RP_V2_HELLO_PAYLOAD_SIZE 1000 s2") auto
  define s4 where "s4 = s3\<lparr>fgCapabilities := ucast (payload ! 1),
    fgSessionId := rp_v2_get_u32 payload 4\<rparr>"
  define bad where "bad \<longleftrightarrow> h ! 0 \<noteq> RP_CMD_ID_LINK_HELLO \<or> h ! 2 \<noteq> RP_PORT_NONE \<or> unat (h ! 1) \<noteq> 12"
  define refused where "refused \<longleftrightarrow> fgCapabilities s4 AND RP_V2_CAP_FRAMING = 0 \<or> fgSessionId s4 = 0 \<or>
    unat (rp_v2_get_u16 payload 2) < sizeof_status"
  have eq: "(r, s') = (if found < 0 then (found, s1) else if r2 < 0 then (r2, s2)
      else if bad then (- EPROTO, s2) else if r3 < 0 then (r3, s3)
      else if payload ! 0 \<noteq> RP_V2_VERSION then (- EPROTONOSUPPORT, s3)
      else if refused then (- EPROTONOSUPPORT, s4) else (0, s4\<lparr>fgUseProtocolV2 := True\<rparr>))"
    using assms scan rh rp
    by (auto simp: receive_legacy_hello_def Let_def s4_def bad_def refused_def split: if_splits)
  note props = scan_for_byte_props [OF scan]
  note c1 = conjunct1 [OF props]
  note c2 = same_but_com_trans [OF c1 com_receive_frame [OF rh]]
  note c3 = same_but_com_trans [OF c2 com_receive_frame [OF rp]]
  have com_hello: "same_but_com s t \<Longrightarrow> hello_step s t" for t
    by (cases s, cases t) (simp add: same_but_com_def hello_step_def)
  have h4: "hello_step s s4" "hello_step s (s4\<lparr>fgUseProtocolV2 := True\<rparr>)"
    using c3 by (cases s, cases s3, simp add: same_but_com_def hello_step_def s4_def)+
  have up: "upcoming_bytes (s4\<lparr>fgUseProtocolV2 := True\<rparr>) = upcoming_bytes s3"
    by (simp add: s4_def upcoming_bytes_def)
  have read: "reads_up_to (hello_header @ payload) s s3" if "\<not> found < 0" "\<not> r2 < 0" "\<not> bad"
  proof -
    have "found = 0" using that props by auto
    have "h = [h ! 0, h ! 1, h ! 2]" by (rule three_bytes) (use rx.recv_exact [OF rh] that in auto)
    moreover have "h ! 1 = 12" using that(3) by (auto simp: bad_def word_unat_eq_iff)
    ultimately have "[RP_CMD_START] @ h = hello_header"
      using that(3) unfolding bad_def hello_header_def append.simps by metis
    moreover have "reads_up_to (([RP_CMD_START] @ h) @ payload) s s3"
      using props \<open>found = 0\<close>
      by (intro reads_then [OF reads_then [OF _ com_receive_reads [OF rh]] com_receive_reads [OF rp]]) simp
    ultimately show ?thesis by simp
  qed
  have payload: "length payload = 12" if "\<not> r3 < 0" using rx.recv_exact [OF rp] that by simp
  show ?thesis
  proof (cases "r = 0 \<and> \<not> (found < 0 \<or> r2 < 0 \<or> bad \<or> r3 < 0 \<or> payload ! 0 \<noteq> RP_V2_VERSION \<or> refused)")
    case True
    then have s': "s' = s4\<lparr>fgUseProtocolV2 := True\<rparr>" using eq by simp
    moreover have "hello_accepted payload s'"
      unfolding s' using True payload by (auto simp: hello_accepted_def refused_def s4_def)
    ultimately show ?thesis using True read h4 up unfolding reads_up_to_def by auto
  next
    case False
    with eq props c1 c2 c3 com_hello h4 show ?thesis by (auto split: if_splits)
  qed
qed

subsection \<open>The state after initialisation and shutdown\<close>

text \<open>
  A link that is up: what every operation on it relies on. A closed module has no descriptor
  and no status.
\<close>

definition linked :: "rp \<Rightarrow> bool" where
  "linked s \<longleftrightarrow> fgDesc s \<noteq> None \<and> (\<exists>st. fgStatus s = Some st \<and> wf_status st) \<and>
     fgHandshakeComplete s \<and> fgUseProtocolV2 s \<and> fgSessionId s \<noteq> 0 \<and>
     length (gPortDevices s) = RP_PORT_NUMBER"

definition closed :: "rp \<Rightarrow> bool" where
  "closed s \<longleftrightarrow> fgDesc s = None \<and> fgStatus s = None \<and> \<not> fgHandshakeComplete s"

definition idle_ports :: "rp \<Rightarrow> bool" where
  "idle_ports s \<longleftrightarrow> (\<forall>dev \<in> set (gPortDevices s). \<not> pending dev \<and> device dev = zero_device)"

lemma init_state_props:
  assumes "init_state desc s = (ok, s')" "length (gPortDevices s) = RP_PORT_NUMBER"
  shows "fgDesc s' = desc" "\<not> fgHandshakeComplete s'" "\<not> fgStopCommunication s'"
    "fgActiveReceivers s' = 0" "fgNextSequence s' = 1" "fgLinkStats s' = zero_link_stats"
    "fgStatus s' = (if ok then Some zero_status else None)"
    "ok \<Longrightarrow> idle_ports s' \<and> length (gPortDevices s') = RP_PORT_NUMBER"
    "upcoming_bytes s' = upcoming_bytes s" "wire_out s' = wire_out s"
  using assms
  by (auto simp: init_state_def Let_def on_os_def sys_calloc_def reset_port_state_def
      idle_ports_def cancel_pending_def init_port_device_def upcoming_bytes_def incoming_def
      wire_out_def on_line_def split: if_splits list.splits)

lemma handshake_step_fields:
  assumes "handshake_step s s'"
  shows "fgStatus s' = fgStatus s" "fgDesc s' = fgDesc s" "gPortDevices s' = gPortDevices s"
    "fgHandshakeComplete s' = fgHandshakeComplete s" "fgStopCommunication s' = fgStopCommunication s"
    "fgActiveReceivers s' = fgActiveReceivers s" "fgNextSequence s' = fgNextSequence s"
    "fgLinkStats s' = fgLinkStats s"
  using assms by (cases s, cases s', simp add: handshake_step_def)+

lemma hello_step_fields:
  assumes "hello_step s s'"
  shows "fgStatus s' = fgStatus s" "fgDesc s' = fgDesc s" "gPortDevices s' = gPortDevices s"
    "fgHandshakeComplete s' = fgHandshakeComplete s" "fgStopCommunication s' = fgStopCommunication s"
    "fgActiveReceivers s' = fgActiveReceivers s" "fgNextSequence s' = fgNextSequence s"
    "fgLinkStats s' = fgLinkStats s" "fgVersionMajor s' = fgVersionMajor s"
    "fgVersionMinor s' = fgVersionMinor s" "fgVersionPatch s' = fgVersionPatch s"
  using assms by (cases s, cases s', simp add: hello_step_def)+

text \<open>The bytes of a successful negotiation, as they came.\<close>

definition negotiation :: "rp \<Rightarrow> rp \<Rightarrow> bool" where
  "negotiation s s' \<longleftrightarrow> (\<exists>junk1 junk2 payload.
     upcoming_bytes s = junk1 @ [RP_CMD_INIT, RP_CMD_INIT_MAGIC, fgVersionMajor s',
       fgVersionMinor s', fgVersionPatch s'] @ junk2 @ hello_header @ payload @ upcoming_bytes s' \<and>
     hello_accepted payload s')"

lemma init_link_props:
  assumes "init_link (v1, v2, v3) s = Some (r, s')" "\<not> fgHandshakeComplete s"
  shows "r \<le> 0 \<and> (r < 0 \<longrightarrow> closed s') \<and>
    (r = 0 \<longrightarrow> negotiation s s' \<and> fgHandshakeComplete s' \<and> fgDesc s' = fgDesc s \<and>
      fgStatus s' = fgStatus s \<and> gPortDevices s' = gPortDevices s \<and>
      fgStopCommunication s' = fgStopCommunication s \<and> fgActiveReceivers s' = fgActiveReceivers s \<and>
      fgNextSequence s' = fgNextSequence s \<and> fgLinkStats s' = fgLinkStats s \<and> normal_mode s' \<and>
      unat (fgVersionMajor s') = v1 \<and> unat (fgVersionMinor s') = v2 \<and> unat (fgVersionPatch s') = v3)"
proof -
  obtain r1 s1 where hs: "handshake_attempts RP_HANDSHAKE_ATTEMPTS (- ETIMEDOUT) s = Some (r1, s1)"
    using handshake_attempts_returns by blast
  obtain r2 s2 where hello: "receive_legacy_hello s1 = Some (r2, s2)"
    using receive_legacy_hello_returns by blast
  define good where "good \<longleftrightarrow> unat (fgVersionMajor s1) = v1 \<and> unat (fgVersionMinor s1) = v2 \<and>
    unat (fgVersionPatch s1) = v3"
  let ?s = "s2\<lparr>fgHandshakeComplete := True,
    rp_com := raspike_usb_set_mode RASPIKE_USB_MODE_NORMAL (rp_com s2)\<rparr>"
  have eq: "(r, s') = (if r1 < 0 then (r1, abandon s1) else if \<not> good then (- EPROTONOSUPPORT, abandon s1)
      else if r2 < 0 then (r2, abandon s2) else (0, ?s))"
    using assms(1) hs hello by (auto simp: init_link_def perform_handshake_def good_def split: if_splits)
  note p1 = handshake_attempts_props [OF hs] and p2 = receive_legacy_hello_props [OF hello]
  have step: "handshake_step s s1" "hello_step s1 s2" "r1 \<le> 0" "r2 \<le> 0" using p1 p2 by auto
  note fields = handshake_step_fields [OF step(1)] hello_step_fields [OF step(2)]
  show ?thesis
  proof (cases "r1 < 0 \<or> \<not> good \<or> r2 < 0")
    case True
    then show ?thesis using eq assms(2) fields
      by (auto simp: abandon_def closed_def split: if_splits)
  next
    case False
    then have s': "r = 0" "s' = ?s" and zero: "r1 = 0" "r2 = 0" and good using eq step by auto
    have up: "upcoming_bytes ?s = upcoming_bytes s2"
      by (simp add: upcoming_bytes_def incoming_def raspike_usb_set_mode_def)
    obtain payload where "hello_accepted payload s2" and r2: "reads_up_to (hello_header @ payload) s1 s2"
      using p2 zero by auto
    moreover from this have "hello_accepted payload ?s" by (auto simp: hello_accepted_def)
    moreover have "reads_up_to [RP_CMD_INIT, RP_CMD_INIT_MAGIC, fgVersionMajor s1, fgVersionMinor s1,
        fgVersionPatch s1] s s1" using p1 zero by simp
    ultimately have "negotiation s s'"
      unfolding negotiation_def s'(2) reads_up_to_def up using fields by fastforce
    then show ?thesis
      using s' fields \<open>good\<close> by (auto simp: good_def normal_mode_def raspike_usb_set_mode_def)
  qed
qed

lemma prot_init_up:
  assumes "raspike_prot_init (v1, v2, v3) desc s = Some (r, s')"
    and "length (gPortDevices s) = RP_PORT_NUMBER" "0 \<le> r"
  shows "r = 0 \<and> linked s' \<and> idle_ports s' \<and> fgDesc s' = desc \<and> fgActiveReceivers s' = 0 \<and>
    \<not> fgStopCommunication s' \<and> normal_mode s' \<and> fgNextSequence s' = 1 \<and>
    fgLinkStats s' = zero_link_stats \<and> negotiation s s' \<and>
    unat (fgVersionMajor s') = v1 \<and> unat (fgVersionMinor s') = v2 \<and> unat (fgVersionPatch s') = v3"
proof -
  obtain ok s1 where st: "init_state desc s = (ok, s1)" by (cases "init_state desc s")
  note props = init_state_props [OF st assms(2)]
  from assms st have desc: "desc \<noteq> None" and "ok" and link: "init_link (v1, v2, v3) s1 = Some (r, s')"
    by (auto simp: raspike_prot_init_def split: if_splits)
  from init_link_props [OF link props(2)] assms(3) have zero: "r = 0" by simp
  note up = init_link_props [OF link props(2), THEN conjunct2, THEN conjunct2, rule_format, OF zero]
  have "negotiation s s'" using up props(9) by (simp add: negotiation_def)
  moreover have "fgUseProtocolV2 s'" "fgSessionId s' \<noteq> 0"
    using up by (auto simp: negotiation_def hello_accepted_def)
  ultimately show ?thesis
    using up zero desc props \<open>ok\<close> by (simp add: linked_def idle_ports_def)
qed

lemma prot_init_down:
  assumes "raspike_prot_init v desc s = Some (r, s')" "r < 0"
    and "length (gPortDevices s) = RP_PORT_NUMBER"
  shows "closed s' \<or> (s' = s \<and> (desc = None \<and> r = - EINVAL \<or> fgDesc s \<noteq> None \<and> r = - EBUSY))"
proof (cases "desc = None \<or> fgDesc s \<noteq> None")
  case True
  with assms show ?thesis by (auto simp: raspike_prot_init_def split: if_splits)
next
  case False
  obtain v1 v2 v3 where v: "v = (v1, v2, v3)" by (cases v) auto
  obtain ok s1 where st: "init_state desc s = (ok, s1)" by (cases "init_state desc s")
  note props = init_state_props [OF st assms(3)]
  show ?thesis
  proof (cases ok)
    case True
    with False assms(1) st have "init_link (v1, v2, v3) s1 = Some (r, s')"
      by (auto simp: raspike_prot_init_def v)
    from init_link_props [OF this props(2)] assms(2) show ?thesis by simp
  next
    case no: False
    with False assms st props show ?thesis
      by (auto simp: raspike_prot_init_def closed_def)
  qed
qed

text \<open>
  Shutdown waits for the receivers. What it leaves is closed, with every request canceled and
  every device forgotten.
\<close>

lemma await_receivers_done: "await_receivers others s = Some s' \<Longrightarrow> fgActiveReceivers s' \<le> 0"
proof (induction others s rule: await_receivers.induct)
  case (1 others s)
  then show ?case
    unfolding await_receivers.simps [of others s] by (auto split: if_splits list.splits)
qed

lemma cancel_pending_idle: "\<not> pending (cancel_pending e session dev)"
  by (simp add: cancel_pending_def)

lemma prot_shutdown_closes:
  assumes "raspike_prot_shutdown others s = Some (r, desc', s')"
  shows "r = 0" "closed s'" "idle_ports s'" "\<not> fgUseProtocolV2 s'" "fgSessionId s' = 0"
proof -
  obtain s1 where wait: "await_receivers others (s\<lparr>fgStopCommunication := True\<rparr>) = Some s1"
    using assms by (cases "await_receivers others (s\<lparr>fgStopCommunication := True\<rparr>)")
      (auto simp: raspike_prot_shutdown_def)
  show "r = 0" "closed s'" "idle_ports s'" "\<not> fgUseProtocolV2 s'" "fgSessionId s' = 0"
    using assms wait
    by (auto simp: raspike_prot_shutdown_def closed_def idle_ports_def reset_port_state_def Let_def
        cancel_pending_idle split: if_splits prod.splits)
qed

text \<open>A closed descriptor cannot be used any more.\<close>

lemma prot_shutdown_descriptor:
  assumes "raspike_prot_shutdown [] s = Some (r, desc', s')" "usable (fgDesc s)"
  shows "\<exists>d. desc' = Some d \<and> d_desc d = -1"
  using assms usable_fd [OF assms(2)]
  by (auto simp: raspike_prot_shutdown_def await_receivers.simps Let_def usable_def
      raspike_com_close_def rp_usb_close_def reset_port_state_def split: if_splits prod.splits)

end
