(* ===== verification/Receive.thy ===== *)
theory Receive
  imports Handshake
begin

section \<open>Receiving and dispatching (\<^verbatim>\<open>src/raspike_protocol.c\<close>)\<close>

text \<open>
  \<^verbatim>\<open>raspike_prot_receive\<close> takes one frame off the stream, checks it and hands it to
  \<^verbatim>\<open>process_command\<close>. An operation that would follow the status pointer while it is
  \<^verbatim>\<open>NULL\<close> has the result \<open>None\<close>; on a link that is up there is no such call
  (\<open>prot_receive_safe\<close>).
\<close>

definition RP_FRAME_TIMEOUT_MS :: int where [simp]: "RP_FRAME_TIMEOUT_MS = 1000"
definition RP_PROTOCOL_BUFMAX :: int where [simp]: "RP_PROTOCOL_BUFMAX = 256"
definition RP_MOTOR_INDEX_COUNT :: nat where [simp]: "RP_MOTOR_INDEX_COUNT = 0"
definition RP_MOTOR_INDEX_SPEED :: nat where [simp]: "RP_MOTOR_INDEX_SPEED = 4"
definition RP_MOTOR_INDEX_POWER :: nat where [simp]: "RP_MOTOR_INDEX_POWER = 8"

subsection \<open>Dispatch\<close>

definition process_hello_payload :: "byte list \<Rightarrow> int \<Rightarrow> rp \<Rightarrow> rp" where
  "process_hello_payload buf n s =
     (if n \<noteq> int RP_V2_HELLO_PAYLOAD_SIZE \<or> buf ! 0 \<noteq> RP_V2_VERSION then s
      else let session = rp_v2_get_u32 buf 4 in
      if session = 0 \<or> session = fgSessionId s then s
      else let s1 = s\<lparr>fgSessionId := session, fgCapabilities := ucast (buf ! 1)\<rparr>;
               s2 = reset_port_state (- ESTALE) False s1;
               s3 = s2\<lparr>fgStatus := map_option (\<lambda>st. zero_status) (fgStatus s2)\<rparr>
           in s3\<lparr>fgRuntimeTelemetry := zero_runtime_telemetry\<rparr>)"

text \<open>\<^verbatim>\<open>fgStatus->ports[port]\<close> for a port below six.\<close>

definition update_port :: "byte \<Rightarrow> (port_status \<Rightarrow> port_status) \<Rightarrow> spike_status \<Rightarrow> spike_status" where
  "update_port port f st = st\<lparr>ports := (ports st)[unat port := f (ports st ! unat port)]\<rparr>"

text \<open>One turn of the loop over the motor slots.\<close>

definition drive_motor_slot :: "drive_telemetry \<Rightarrow> nat \<Rightarrow> spike_status \<Rightarrow> spike_status" where
  "drive_motor_slot t slot st =
     (if dt_flags t AND push_bit slot 1 = 0 then st
      else let motor_port = dt_motor_port t ! slot in
      if motor_port \<ge> RP_DEVICE_PORT_COUNT then st
      else update_port motor_port (\<lambda>p. p\<lparr>ps_port := motor_port,
             ps_data := poke RP_MOTOR_INDEX_POWER (le16 (dt_motor_power t ! slot))
                        (poke RP_MOTOR_INDEX_SPEED (le32 (dt_motor_speed_deg_s t ! slot))
                        (poke RP_MOTOR_INDEX_COUNT (le32 (dt_motor_count_deg t ! slot))
                          (ps_data p)))\<rparr>) st)"

text \<open>The reflection is widened to 32 bits with its sign.\<close>

definition drive_color :: "drive_telemetry \<Rightarrow> spike_status \<Rightarrow> spike_status" where
  "drive_color t st =
     (if dt_flags t AND RP_DRIVE_TELEMETRY_COLOR_VALID = 0 then st
      else if dt_color_port t < RP_DEVICE_PORT_COUNT
      then update_port (dt_color_port t) (\<lambda>p. p\<lparr>ps_port := dt_color_port t,
             ps_data := poke 0 (le32 (scast (dt_reflection t))) (ps_data p)\<rparr>) st
      else st)"

definition apply_drive_telemetry :: "drive_telemetry \<Rightarrow> spike_status \<Rightarrow> spike_status" where
  "apply_drive_telemetry t st =
     drive_color t (fold (drive_motor_slot t) [0..<RP_DRIVE_TELEMETRY_MOTOR_SLOTS] st)"

text \<open>The case of an acknowledgement, after its size was checked.\<close>

definition process_ack :: "byte \<Rightarrow> u32 \<Rightarrow> u32 \<Rightarrow> byte list \<Rightarrow> rp \<Rightarrow> int \<times> rp" where
  "process_ack port sequence session buf s =
     (case getDevice port of None \<Rightarrow> (- EINVAL, s)
      | Some i \<Rightarrow>
          let a_cmd = sint (rp_v2_get_u32 buf 0); a_data = sint (rp_v2_get_u32 buf 4);
              dev = gPortDevices s ! i;
              matches = (pending dev \<and> a_cmd \<ge> 0 \<and>
                (\<not> fgUseProtocolV2 s \<or>
                  (sequence = pending_sequence dev \<and> session = fgSessionId s)))
          in if matches
             then (0, update_device i (\<lambda>dev. dev\<lparr>ack_cmd := a_cmd, ack_data := a_data,
                        ack_sequence := sequence, ack_session := session, pending := False\<rparr>) s)
             else (- ESTALE, stats_increment stale_acks_update s))"

definition process_command ::
  "byte \<Rightarrow> byte \<Rightarrow> byte \<Rightarrow> u32 \<Rightarrow> u32 \<Rightarrow> byte list \<Rightarrow> int \<Rightarrow> rp \<Rightarrow> (int \<times> rp) option" where
  "process_command port cmd flags sequence session buf n s =
     (if cmd = RP_CMD_ID_LINK_HELLO then Some (0, process_hello_payload buf n s)
      else if \<not> raspike_is_valid_port port
      then Some (- EINVAL, stats_increment framing_errors_update s)
      else if fgUseProtocolV2 s \<and> session \<noteq> fgSessionId s
      then Some (- ESTALE, stats_increment session_errors_update s)
      else if cmd = RP_CMD_ID_ALL_STATUS then
        if n \<noteq> int sizeof_status then Some (- EMSGSIZE, s)
        else if fgStatus s = None then None
        else Some (0, s\<lparr>fgStatus := Some (decode_status buf)\<rparr>)
      else if cmd = RP_CMD_ID_RUNTIME_TELEMETRY then
        if n \<noteq> int sizeof_runtime_telemetry then Some (- EMSGSIZE, s)
        else Some (0, s\<lparr>fgRuntimeTelemetry := decode_runtime_telemetry buf\<rparr>)
      else if cmd = RP_CMD_ID_DRIVE_TELEMETRY then
        if n \<noteq> int sizeof_drive_telemetry then Some (- EMSGSIZE, s)
        else do {
          st \<leftarrow> fgStatus s;
          Some (0, s\<lparr>fgStatus := Some (apply_drive_telemetry (decode_drive_telemetry buf) st)\<rparr>)
        }
      else if cmd = RP_CMD_ID_ACK then
        if n \<noteq> 8 then Some (- EMSGSIZE, s)
        else Some (process_ack port sequence session buf s)
      else if cmd = RP_CMD_ID_LINK_STATS then Some (0, s)
      else Some (- ENOMSG, s))"

subsection \<open>Frames off the stream\<close>

definition receive_legacy_frame :: "rp \<Rightarrow> (int \<times> rp) option" where
  "receive_legacy_frame s =
     (let (ret, header, s1) = com_receive 3 RP_FRAME_TIMEOUT_MS s in
      if ret < 0 then Some (ret, s1) else
      let cmd = header ! 0; n = int (unat (header ! 1)); port = header ! 2 in
      if n > RP_PROTOCOL_BUFMAX \<or> \<not> raspike_is_valid_port port
      then Some (- EPROTO, stats_increment framing_errors_update s1) else
      let (ret, payload, s2) = (if n > 0 then com_receive (nat n) RP_FRAME_TIMEOUT_MS s1
                                else (0, [], s1)) in
      if ret < 0 then Some (ret, s2) else
      let s3 = stats_increment rx_legacy_frames_update s2
      in process_command port cmd 0 0 (fgSessionId s3) payload n s3)"

function discard_receive_bytes :: "int \<Rightarrow> rp \<Rightarrow> int \<times> rp" where
  "discard_receive_bytes n s =
     (if n > 0 then
        let chunk = (if n < 64 then n else 64);
            (result, scratch, s') = com_receive (nat chunk) RP_FRAME_TIMEOUT_MS s
        in if result < 0 then (result, s') else discard_receive_bytes (n - result) s'
      else (0, s))"
  by pat_completeness auto
termination
proof (relation "measure (\<lambda>(n, s). nat n)", goal_cases)
  case (2 n s chunk x result y scratch s')
  then have "com_receive (nat chunk) RP_FRAME_TIMEOUT_MS s = (result, scratch, s')" by simp
  with 2 rx.recv_exact [OF this] rx.recv_count [OF this] show ?case by (auto split: if_splits)
qed simp

declare discard_receive_bytes.simps [simp del]

definition receive_v2_frame :: "rp \<Rightarrow> (int \<times> rp) option" where
  "receive_v2_frame s =
     (let (ret, header, s1) = com_receive (RP_V2_HEADER_SIZE - 1) RP_FRAME_TIMEOUT_MS s;
          frame = RP_V2_START # header in
      if ret < 0 then Some (ret, s1) else
      let n = unat (frame ! RP_V2_OFFSET_SIZE) in
      if frame ! RP_V2_OFFSET_VERSION \<noteq> RP_V2_VERSION then
        let (_, s2) = discard_receive_bytes (int (n + RP_V2_CRC_SIZE)) s1
        in Some (- EPROTONOSUPPORT, stats_increment framing_errors_update s2)
      else if n > RP_V2_MAX_PAYLOAD then
        let (_, s2) = discard_receive_bytes (int (n + RP_V2_CRC_SIZE)) s1
        in Some (- EMSGSIZE, stats_increment framing_errors_update s2)
      else
      let (ret, tail, s2) = com_receive (n + RP_V2_CRC_SIZE) RP_FRAME_TIMEOUT_MS s1;
          frame = frame @ tail in
      if ret < 0 then Some (ret, s2) else
      let crc_offset = RP_V2_OFFSET_PAYLOAD + n;
          received_crc = rp_v2_get_u16 frame crc_offset;
          calculated_crc = rp_v2_crc16 (peek 1 ((RP_V2_HEADER_SIZE - 1) + n) frame) in
      if received_crc \<noteq> calculated_crc
      then Some (- EBADMSG, stats_increment crc_errors_update s2)
      else process_command (frame ! RP_V2_OFFSET_PORT) (frame ! RP_V2_OFFSET_CMD)
             (frame ! RP_V2_OFFSET_FLAGS) (rp_v2_get_u32 frame RP_V2_OFFSET_SEQUENCE)
             (rp_v2_get_u32 frame RP_V2_OFFSET_SESSION) (peek RP_V2_OFFSET_PAYLOAD n frame)
             (int n) s2)"

text \<open>A receive: the section in which the thread counts itself as a receiver, unless the link is down or
  about to be shut down, the reading of a frame, and the section in which it leaves again. The threads
  that shut the link down see the first and the last apart.\<close>

definition receive_enter :: "rp \<Rightarrow> rp option" where
  "receive_enter s =
     (if fgStopCommunication s \<or> fgDesc s = None \<or> \<not> fgHandshakeComplete s then None
      else Some (s\<lparr>fgActiveReceivers := fgActiveReceivers s + 1\<rparr>))"

definition receive_body :: "rp \<Rightarrow> (int \<times> rp) option" where
  "receive_body s =
     (let (ret, bs, s2) = com_receive 1 500 s in
      if ret = - ETIMEDOUT \<or> ret = - EAGAIN then Some (0, s2)
      else if ret < 0 then Some (ret, s2)
      else do {
        (result, s3) \<leftarrow>
          (if hd bs = RP_V2_START then receive_v2_frame s2
           else if hd bs = RP_CMD_START then receive_legacy_frame s2
           else Some (- EAGAIN, stats_increment framing_errors_update s2));
        Some (result, if result = 0 \<or> result = - ENOMSG \<or> result = - ESTALE
                      then stats_increment rx_frames_update s3 else s3)
      })"

definition receive_leave :: "rp \<Rightarrow> rp" where
  "receive_leave s = s\<lparr>fgActiveReceivers := fgActiveReceivers s - 1\<rparr>"

definition raspike_prot_receive :: "rp \<Rightarrow> (int \<times> rp) option" where
  "raspike_prot_receive s =
     (case receive_enter s of
        None \<Rightarrow> Some (- ENOTCONN, s)
      | Some s1 \<Rightarrow> do {
          (result, s2) \<leftarrow> receive_body s1;
          Some (result, receive_leave s2)
        })"

lemma raspike_prot_receive_whole:
  "raspike_prot_receive s =
     (if fgStopCommunication s \<or> fgDesc s = None \<or> \<not> fgHandshakeComplete s
      then Some (- ENOTCONN, s)
      else
        let s1 = s\<lparr>fgActiveReceivers := fgActiveReceivers s + 1\<rparr>;
            leave = (\<lambda>s. s\<lparr>fgActiveReceivers := fgActiveReceivers s - 1\<rparr>);
            (ret, bs, s2) = com_receive 1 500 s1 in
        if ret = - ETIMEDOUT \<or> ret = - EAGAIN then Some (0, leave s2)
        else if ret < 0 then Some (ret, leave s2)
        else do {
          (result, s3) \<leftarrow>
            (if hd bs = RP_V2_START then receive_v2_frame s2
             else if hd bs = RP_CMD_START then receive_legacy_frame s2
             else Some (- EAGAIN, stats_increment framing_errors_update s2));
          Some (result, leave (if result = 0 \<or> result = - ENOMSG \<or> result = - ESTALE
                               then stats_increment rx_frames_update s3 else s3))
        })"
  by (simp add: raspike_prot_receive_def receive_enter_def receive_body_def receive_leave_def Let_def
      case_prod_unfold bind_assoc)

subsection \<open>Drive telemetry port by port\<close>

text \<open>What one slot, and what the colour part, does to the data of port \<open>i\<close>.\<close>

definition slot_names :: "drive_telemetry \<Rightarrow> nat \<Rightarrow> nat \<Rightarrow> bool" where
  "slot_names t slot i \<longleftrightarrow> dt_flags t AND push_bit slot 1 \<noteq> 0 \<and> unat (dt_motor_port t ! slot) = i"

definition color_names :: "drive_telemetry \<Rightarrow> nat \<Rightarrow> bool" where
  "color_names t i \<longleftrightarrow> dt_flags t AND RP_DRIVE_TELEMETRY_COLOR_VALID \<noteq> 0 \<and> unat (dt_color_port t) = i"

definition motor_data :: "drive_telemetry \<Rightarrow> nat \<Rightarrow> byte list" where
  "motor_data t slot = le32 (dt_motor_count_deg t ! slot) @ le32 (dt_motor_speed_deg_s t ! slot) @
     le16 (dt_motor_power t ! slot)"

definition slot_effect :: "drive_telemetry \<Rightarrow> nat \<Rightarrow> nat \<Rightarrow> port_status \<Rightarrow> port_status" where
  "slot_effect t i slot p =
     (if slot_names t slot i
      then p\<lparr>ps_port := of_nat i, ps_data := motor_data t slot @ drop 10 (ps_data p)\<rparr> else p)"

definition color_effect :: "drive_telemetry \<Rightarrow> nat \<Rightarrow> port_status \<Rightarrow> port_status" where
  "color_effect t i p =
     (if color_names t i
      then p\<lparr>ps_port := of_nat i, ps_data := le32 (scast (dt_reflection t)) @ drop 4 (ps_data p)\<rparr>
      else p)"

lemma update_port_nth:
  assumes "length (ports st) = 6" "i < 6"
  shows "ports (update_port port f st) ! i = (if unat port = i then f (ports st ! i) else ports st ! i)"
  using assms by (simp add: update_port_def nth_list_update)

lemma length_update_port [simp]: "length (ports (update_port port f st)) = length (ports st)"
  by (simp add: update_port_def)

lemma port_small_iff: "(p :: byte) < 6 \<longleftrightarrow> unat p < 6" "6 \<le> p \<longleftrightarrow> 6 \<le> unat p"
  by (simp_all add: word_less_nat_alt word_le_nat_alt)

lemma pokes_motor:
  assumes "length d = 12" "length a = 4" "length b = 4" "length c = 2"
  shows "poke 8 c (poke 4 b (poke 0 a d)) = a @ b @ c @ drop 10 d"
  using assms by (simp add: poke_def min_def)

lemma drive_motor_slot_nth:
  assumes "length (ports st) = 6" "i < 6" "length (ps_data (ports st ! i)) = 12"
  shows "ports (drive_motor_slot t slot st) ! i = slot_effect t i slot (ports st ! i)"
  using assms pokes_motor [of "ps_data (ports st ! i)"]
  by (auto simp: drive_motor_slot_def slot_effect_def slot_names_def motor_data_def Let_def
      update_port_nth port_small_iff)

lemma drive_color_nth:
  assumes "length (ports st) = 6" "i < 6" "length (ps_data (ports st ! i)) = 12"
  shows "ports (drive_color t st) ! i = color_effect t i (ports st ! i)"
  using assms
  by (auto simp: drive_color_def color_effect_def color_names_def Let_def update_port_nth
      port_small_iff poke_def)

lemma length_slot_effect [simp]:
  "length (ps_data p) = 12 \<Longrightarrow> length (ps_data (slot_effect t i slot p)) = 12"
  by (simp add: slot_effect_def motor_data_def)

lemma length_drive [simp]: "length (ports (drive_motor_slot t slot st)) = length (ports st)"
  "length (ports (drive_color t st)) = length (ports st)"
  by (simp_all add: drive_motor_slot_def drive_color_def Let_def)

lemma slots_upt: "[0..<RP_DRIVE_TELEMETRY_MOTOR_SLOTS] = [0, 1]"
  by (simp add: upt_rec)

lemma apply_drive_telemetry_slots:
  "apply_drive_telemetry t st = drive_color t (drive_motor_slot t 1 (drive_motor_slot t 0 st))"
  by (simp only: apply_drive_telemetry_def slots_upt fold.simps comp_apply id_apply)

lemma apply_drive_telemetry_nth:
  assumes "wf_status st" "i < 6"
  shows "ports (apply_drive_telemetry t st) ! i =
    color_effect t i (slot_effect t i 1 (slot_effect t i 0 (ports st ! i)))"
proof -
  have "length (ports st) = 6" "length (ps_data (ports st ! i)) = 12"
    using assms by (auto simp: wf_status_def list_all_length wf_port_status_def)
  with assms(2) show ?thesis
    by (simp only: apply_drive_telemetry_slots length_drive
        drive_color_nth drive_motor_slot_nth length_slot_effect)
qed

lemma drive_rest:
  "voltage (apply_drive_telemetry t st) = voltage st" "current (apply_drive_telemetry t st) = current st"
  "acceleration (apply_drive_telemetry t st) = acceleration st"
  "angular_velocity (apply_drive_telemetry t st) = angular_velocity st"
  "heading (apply_drive_telemetry t st) = heading st" "is_ready (apply_drive_telemetry t st) = is_ready st"
  "is_statinary (apply_drive_telemetry t st) = is_statinary st" "button (apply_drive_telemetry t st) = button st"
  "length (ports (apply_drive_telemetry t st)) = length (ports st)"
  by (simp_all add: apply_drive_telemetry_slots drive_color_def drive_motor_slot_def update_port_def Let_def)

lemma effects_wf: "wf_port_status p \<Longrightarrow> wf_port_status (slot_effect t i slot p)"
  "wf_port_status p \<Longrightarrow> wf_port_status (color_effect t i p)"
  by (auto simp: slot_effect_def color_effect_def wf_port_status_def motor_data_def)

lemma wf_apply_drive_telemetry:
  assumes "wf_status st"
  shows "wf_status (apply_drive_telemetry t st)"
proof -
  have "wf_port_status (ports (apply_drive_telemetry t st) ! i)" if "i < 6" for i
    using assms that unfolding apply_drive_telemetry_nth [OF assms that]
    by (intro effects_wf) (simp add: wf_status_def list_all_length)
  then show ?thesis
    using assms by (auto simp: wf_status_def drive_rest list_all_length)
qed

subsection \<open>What a command may change\<close>

definition dispatch_step :: "rp \<Rightarrow> rp \<Rightarrow> bool" where
  "dispatch_step s s' \<longleftrightarrow>
     s' = s\<lparr>fgStatus := fgStatus s', fgRuntimeTelemetry := fgRuntimeTelemetry s',
            gPortDevices := gPortDevices s', fgSessionId := fgSessionId s',
            fgCapabilities := fgCapabilities s', fgLinkStats := fgLinkStats s'\<rparr>"

lemma dispatch_step_fields:
  assumes "dispatch_step s s'"
  shows "rp_com s' = rp_com s" "fgDesc s' = fgDesc s" "fgHandshakeComplete s' = fgHandshakeComplete s"
    "fgStopCommunication s' = fgStopCommunication s" "fgUseProtocolV2 s' = fgUseProtocolV2 s"
    "fgActiveReceivers s' = fgActiveReceivers s" "fgNextSequence s' = fgNextSequence s"
  using assms by (cases s, cases s', simp add: dispatch_step_def)+

lemma process_hello_props:
  assumes "linked s"
  shows "linked (process_hello_payload buf n s)" "dispatch_step s (process_hello_payload buf n s)"
  using assms
  by (auto simp: process_hello_payload_def Let_def linked_def reset_port_state_def dispatch_step_def)

lemma process_ack_props:
  assumes "process_ack port sequence session buf s = (r, s')" "linked s"
  shows "linked s'" "dispatch_step s s'" "r \<le> 0"
  using assms
  by (auto simp: process_ack_def Let_def linked_def update_device_def dispatch_step_def
      stats_increment_def split: option.splits if_splits)

lemma process_command_props:
  assumes "linked s" "n = int (length buf)"
  shows "\<exists>r s'. process_command port cmd flags sequence session buf n s = Some (r, s') \<and>
    linked s' \<and> dispatch_step s s' \<and> r \<le> 0"
proof -
  obtain st where st: "fgStatus s = Some st" "wf_status st" using assms by (auto simp: linked_def)
  have inc: "linked (stats_increment c s)" "dispatch_step s (stats_increment c s)" for c
    using assms(1) by (auto simp: linked_def dispatch_step_def stats_increment_def)
  have new: "linked (s\<lparr>fgStatus := Some st'\<rparr>)" if "wf_status st'" for st'
    using assms(1) that by (simp add: linked_def)
  have tel: "linked (s\<lparr>fgRuntimeTelemetry := tl\<rparr>)" for tl
    using assms(1) by (simp add: linked_def)
  have step: "dispatch_step s s" "dispatch_step s (s\<lparr>fgStatus := x\<rparr>)"
    "dispatch_step s (s\<lparr>fgRuntimeTelemetry := tl\<rparr>)" for x tl
    by (simp_all add: dispatch_step_def)
  obtain r s' where ack: "process_ack port sequence session buf s = (r, s')"
    by (cases "process_ack port sequence session buf s")
  have "wf_status (decode_status buf)" if "n = int sizeof_status"
    using that assms(2) by (intro wf_decode_status) simp
  then show ?thesis
    using process_hello_props [OF assms(1)] process_ack_props [OF ack assms(1)] ack
      wf_apply_drive_telemetry [OF st(2)] st(1) assms(1) inc new tel step
    unfolding process_command_def by auto
qed

subsection \<open>A prompt link\<close>

definition ready :: "rp \<Rightarrow> bool" where
  "ready s \<longleftrightarrow> prompt (com_os (rp_com s)) \<and> usable (fgDesc s)"

text \<open>On a prompt link a receive of bytes that are there gives them.\<close>

lemma ready_receive:
  assumes "ready s" "n \<le> length (upcoming_bytes s)" "0 < t" "t < 2 ^ 31"
  shows "\<exists>s'. com_receive n t s = (int n, take n (upcoming_bytes s), s') \<and> ready s' \<and>
    upcoming_bytes s' = drop n (upcoming_bytes s) \<and> same_but_com s s' \<and> wire_out s' = wire_out s"
proof -
  from prompt_receive [of "rp_com s" "fgDesc s" n t] assms obtain w' where
    w: "raspike_com_receive_timeout (fgDesc s) True (int n) t (rp_com s) =
        (int n, take n (incoming (rp_com s)), (rp_com s)\<lparr>com_os := w'\<rparr>)" "prompt w'"
      "rx_bytes (os_reads w') = drop n (incoming (rp_com s))" "os_tx w' = os_tx (com_os (rp_com s))"
    by (auto simp: ready_def upcoming_bytes_def)
  let ?s = "s\<lparr>rp_com := (rp_com s)\<lparr>com_os := w'\<rparr>\<rparr>"
  have "com_receive n t s = (int n, take n (upcoming_bytes s), ?s)"
    using w(1) by (simp add: com_receive_def upcoming_bytes_def)
  moreover have "ready ?s" "upcoming_bytes ?s = drop n (upcoming_bytes s)" "same_but_com s ?s"
    "wire_out ?s = wire_out s"
    using w assms(1) by (simp_all add: ready_def upcoming_bytes_def incoming_def same_but_com_def
        wire_out_def on_line_def)
  ultimately show ?thesis by blast
qed

subsection \<open>Version 2 frames off the stream\<close>

text \<open>Where a frame's fields are once the header and the rest are read.\<close>

definition v2_check :: "byte list \<Rightarrow> bool" where
  "v2_check frame \<longleftrightarrow> (let n = unat (frame ! RP_V2_OFFSET_SIZE) in
     rp_v2_get_u16 frame (RP_V2_OFFSET_PAYLOAD + n) = rp_v2_crc16 (peek 1 (13 + n) frame))"

definition v2_message_at :: "byte list \<Rightarrow> v2_message" where
  "v2_message_at bs =
     \<lparr>m_port = bs ! RP_V2_OFFSET_PORT, m_cmd = bs ! RP_V2_OFFSET_CMD,
      m_flags = bs ! RP_V2_OFFSET_FLAGS, m_sequence = rp_v2_get_u32 bs RP_V2_OFFSET_SEQUENCE,
      m_session = rp_v2_get_u32 bs RP_V2_OFFSET_SESSION,
      m_payload = peek RP_V2_OFFSET_PAYLOAD (unat (bs ! RP_V2_OFFSET_SIZE)) bs\<rparr>"

definition dispatch_message :: "v2_message \<Rightarrow> rp \<Rightarrow> (int \<times> rp) option" where
  "dispatch_message m s =
     process_command (m_port m) (m_cmd m) (m_flags m) (m_sequence m) (m_session m) (m_payload m)
       (int (length (m_payload m))) s"

text \<open>What is left of \<^verbatim>\<open>receive_v2_frame\<close> when both reads succeed.\<close>

lemma receive_v2_frame_reads:
  assumes h: "com_receive 13 RP_FRAME_TIMEOUT_MS s = (r1, header, s1)" "0 \<le> r1"
    and n: "n = unat (header ! 4)" "n \<le> 240" "header ! 0 = RP_V2_VERSION"
    and t: "com_receive (n + 2) RP_FRAME_TIMEOUT_MS s1 = (r2, tail, s2)" "0 \<le> r2"
  shows "receive_v2_frame s =
    (let frame = RP_V2_START # header @ tail
     in if v2_check frame then dispatch_message (v2_message_at frame) s2
        else Some (- EBADMSG, stats_increment crc_errors_update s2))"
proof -
  have len: "length header = 13" "length tail = n + 2"
    using rx.recv_exact [OF h] rx.recv_exact [OF t] by simp_all
  have size: "(header @ tail) ! 4 = header ! 4" using len by (simp add: nth_append)
  have "length (peek 14 n (RP_V2_START # header @ tail)) = n"
    using len by (intro length_peek) simp
  then have body: "length (peek 14 (unat (header ! 4)) (RP_V2_START # header @ tail)) =
      unat (header ! 4)" using n by simp
  show ?thesis
    using h n t size body
    apply (simp add: receive_v2_frame_def Let_def)
    apply (simp add: v2_check_def Let_def)
    apply (simp add: dispatch_message_def v2_message_at_def del: length_peek)
    done
qed

lemma frame_prefix:
  assumes "14 \<le> length xs"
  shows "take 14 xs = [xs ! 0, xs ! 1, xs ! 2, xs ! 3, xs ! 4, xs ! 5] @ [xs ! 6, xs ! 7, xs ! 8, xs ! 9]
    @ [xs ! 10, xs ! 11, xs ! 12, xs ! 13]"
proof -
  have "[0..<14] = [0, 1, 2, 3, 4, 5, 6, 7, 8, 9, 10, 11, 12, 13 :: nat]"
    by (simp add: upt_conv_Cons)
  moreover have "take 14 xs = map ((!) xs) [0..<14]"
    using assms by (intro nth_equalityI) simp_all
  ultimately show ?thesis by simp
qed

lemma two_elements: "length xs = 2 \<Longrightarrow> \<exists>a b. xs = [a, b]"
  by (auto simp: numeral_2_eq_2 length_Suc_conv)

lemma frame_suffix:
  assumes "length xs = 16 + n"
  shows "drop 14 xs = peek 14 n xs @ [xs ! (14 + n), xs ! (14 + n + 1)]"
proof -
  have "length (drop (14 + n) xs) = 2" using assms by simp
  then obtain a b where ab: "drop (14 + n) xs = [a, b]"
    using two_elements by blast
  have "xs ! (14 + n) = a" "xs ! (14 + n + 1) = b"
    using assms nth_drop [of "14 + n" xs 0] nth_drop [of "14 + n" xs 1] by (simp_all add: ab One_nat_def)
  moreover have "drop 14 xs = peek 14 n xs @ drop (14 + n) xs"
    using append_take_drop_id [of n "drop 14 xs"] by (simp add: peek_def add.commute)
  ultimately show ?thesis using ab by simp
qed

lemma frame_of_message_at:
  assumes "length frame = 16 + unat (frame ! 5)" "unat (frame ! 5) \<le> 240" "frame ! 0 = RP_V2_START"
    "frame ! 1 = RP_V2_VERSION" "v2_check frame"
  shows "v2_frame_bytes (v2_message_at frame) = frame" "v2_valid (v2_message_at frame)"
proof -
  let ?n = "unat (frame ! 5)" and ?m = "v2_message_at frame"
  have len: "length (m_payload ?m) = ?n" using assms(1) by (simp add: v2_message_at_def)
  then show "v2_valid (v2_message_at frame)" using assms(2) by (simp add: v2_valid_def)
  show "v2_frame_bytes (v2_message_at frame) = frame"
  proof -
    have "le32 (m_sequence ?m) = [frame ! 6, frame ! 7, frame ! 8, frame ! 9]"
      "le32 (m_session ?m) = [frame ! 10, frame ! 11, frame ! 12, frame ! 13]"
      using assms(1) le32_get [of 6 frame] le32_get [of 10 frame] by (simp_all add: v2_message_at_def)
    then have front: "RP_V2_START # v2_body ?m = take 14 frame @ peek 14 ?n frame"
      using len assms(1,3,4) frame_prefix [of frame]
      by (simp add: v2_body_def v2_message_at_def)
    moreover have "take 14 frame @ peek 14 ?n frame = take (14 + ?n) frame"
      by (simp add: take_add peek_def)
    ultimately have "v2_body ?m = tl (take (14 + ?n) frame)" by (metis list.sel(3))
    then have "v2_body ?m = peek 1 (13 + ?n) frame"
      by (simp add: tl_take peek_def drop_Suc One_nat_def)
    then have "le16 (rp_v2_crc16 (v2_body ?m)) = [frame ! (14 + ?n), frame ! (14 + ?n + 1)]"
      using assms(1,5) le16_get [of "14 + ?n" frame] by (simp add: v2_check_def Let_def)
    then show ?thesis
      using front frame_suffix [OF assms(1)] unfolding v2_frame_bytes_def
      by (metis append.assoc append_Cons append_take_drop_id)
  qed
qed

text \<open>
  The three ways out of \<^verbatim>\<open>receive_v2_frame\<close>: an error that changed nothing but the link
  and a counter, or a complete, valid frame that was taken off the stream and dispatched.
\<close>

definition counts_only :: "rp \<Rightarrow> rp \<Rightarrow> bool" where
  "counts_only s s' \<longleftrightarrow> s' = s\<lparr>rp_com := rp_com s', fgLinkStats := fgLinkStats s'\<rparr>"

lemma counts_onlyI:
  "same_but_com s s' \<Longrightarrow> counts_only s s'" "same_but_com s s' \<Longrightarrow> counts_only s (stats_increment c s')"
  by (cases s, cases s', simp add: same_but_com_def counts_only_def stats_increment_def)+

lemma discard_frame: "discard_receive_bytes n s = (r, s') \<Longrightarrow> same_but_com s s'"
proof (induction n s arbitrary: r s' rule: discard_receive_bytes.induct)
  case (1 n s)
  let ?chunk = "if n < 64 then n else 64"
  obtain result scratch s1 where rcv: "com_receive (nat ?chunk) RP_FRAME_TIMEOUT_MS s = (result, scratch, s1)"
    by (cases "com_receive (nat ?chunk) RP_FRAME_TIMEOUT_MS s") auto
  note step = com_receive_frame [OF rcv]
  show ?case
  proof (cases "n > 0 \<and> \<not> result < 0")
    case True
    with "1.prems" rcv have "discard_receive_bytes (n - result) s1 = (r, s')"
      by (simp add: discard_receive_bytes.simps [of n s])
    with "1.IH" [OF _ refl rcv [symmetric] refl refl] True step show ?thesis
      by (blast intro: same_but_com_trans)
  next
    case False
    with "1.prems" rcv step show ?thesis
      by (auto simp: discard_receive_bytes.simps [of n s] Let_def split: if_splits)
  qed
qed

lemma receive_v2_frame_cases:
  assumes "receive_v2_frame s = x"
  shows "(\<exists>r s'. x = Some (r, s') \<and> r < 0 \<and> counts_only s s') \<or>
    (\<exists>m s2. v2_valid m \<and> RP_V2_START # upcoming_bytes s = v2_frame_bytes m @ upcoming_bytes s2 \<and>
      same_but_com s s2 \<and> x = dispatch_message m s2)"
proof -
  obtain r1 header s1 where h: "com_receive 13 RP_FRAME_TIMEOUT_MS s = (r1, header, s1)"
    by (cases "com_receive 13 RP_FRAME_TIMEOUT_MS s") auto
  let ?n = "unat (header ! 4)"
  obtain r2 tail s2 where t: "com_receive (?n + 2) RP_FRAME_TIMEOUT_MS s1 = (r2, tail, s2)"
    by (cases "com_receive (?n + 2) RP_FRAME_TIMEOUT_MS s1") auto
  obtain r3 s3 where d: "discard_receive_bytes (int (?n + 2)) s1 = (r3, s3)"
    by (cases "discard_receive_bytes (int (?n + 2)) s1")
  note c1 = com_receive_frame [OF h]
  note c2 = same_but_com_trans [OF c1 com_receive_frame [OF t]]
  note c3 = same_but_com_trans [OF c1 discard_frame [OF d]]
  show ?thesis
  proof (cases "r1 < 0 \<or> header ! 0 \<noteq> RP_V2_VERSION \<or> ?n > 240 \<or> r2 < 0")
    case True
    then show ?thesis
      using assms h t d counts_onlyI(1) [OF c1] counts_onlyI(2) [OF c3] counts_onlyI(1) [OF c2]
      by (intro disjI1) (auto simp: receive_v2_frame_def Let_def)
  next
    case False
    let ?frame = "RP_V2_START # header @ tail"
    have ok: "0 \<le> r1" "0 \<le> r2" using False by auto
    have len: "length header = 13" "length tail = ?n + 2"
      using rx.recv_exact [OF h ok(1)] rx.recv_exact [OF t ok(2)] by simp_all
    have x: "x = (if v2_check ?frame then dispatch_message (v2_message_at ?frame) s2
        else Some (- EBADMSG, stats_increment crc_errors_update s2))"
      using receive_v2_frame_reads [OF h ok(1) refl _ _ t ok(2)] assms False by (simp add: Let_def)
    show ?thesis
    proof (cases "v2_check ?frame")
      case False
      with x counts_onlyI(2) [OF c2] show ?thesis by auto
    next
      case True
      have at: "?frame ! 5 = header ! 4" "?frame ! 1 = header ! 0"
        using len by (simp_all add: nth_append)
      have "v2_frame_bytes (v2_message_at ?frame) = ?frame" "v2_valid (v2_message_at ?frame)"
        using frame_of_message_at [of ?frame] True len False unfolding at by simp_all
      moreover have "upcoming_bytes s = header @ tail @ upcoming_bytes s2"
        using com_receive_reads [OF h] com_receive_reads [OF t] by simp
      ultimately show ?thesis using x True c2 by fastforce
    qed
  qed
qed

text \<open>On a prompt link, the frame that is there is the frame that is read, valid or not.\<close>

lemma receive_v2_frame_ready:
  assumes "ready s" "upcoming_bytes s = header @ tail @ rest" "length header = 13"
    and "header ! 0 = RP_V2_VERSION" "unat (header ! 4) \<le> 240" "length tail = unat (header ! 4) + 2"
  shows "\<exists>s2. ready s2 \<and> same_but_com s s2 \<and> upcoming_bytes s2 = rest \<and> wire_out s2 = wire_out s \<and>
    receive_v2_frame s =
      (let frame = RP_V2_START # header @ tail
       in if v2_check frame then dispatch_message (v2_message_at frame) s2
          else Some (- EBADMSG, stats_increment crc_errors_update s2))"
proof -
  obtain s1 where h: "com_receive 13 RP_FRAME_TIMEOUT_MS s = (13, header, s1)" "ready s1"
      "upcoming_bytes s1 = tail @ rest" "same_but_com s s1" "wire_out s1 = wire_out s"
    using ready_receive [OF assms(1), of 13 RP_FRAME_TIMEOUT_MS] assms(2,3) by auto
  obtain s2 where t: "com_receive (unat (header ! 4) + 2) RP_FRAME_TIMEOUT_MS s1 =
      (int (unat (header ! 4) + 2), tail, s2)" "ready s2" "upcoming_bytes s2 = rest"
      "same_but_com s1 s2" "wire_out s2 = wire_out s1"
    using ready_receive [OF h(2), of "unat (header ! 4) + 2" RP_FRAME_TIMEOUT_MS] h(3) assms(6) by auto
  have "receive_v2_frame s = (let frame = RP_V2_START # header @ tail
       in if v2_check frame then dispatch_message (v2_message_at frame) s2
          else Some (- EBADMSG, stats_increment crc_errors_update s2))"
    by (rule receive_v2_frame_reads [OF h(1) _ refl assms(5,4) t(1)]) simp_all
  with h t show ?thesis by (auto intro: same_but_com_trans)
qed

text \<open>A message's frame: its header, and the rest.\<close>

definition v2_header :: "v2_message \<Rightarrow> byte list" where
  "v2_header m = [RP_V2_VERSION, m_flags m, m_cmd m, m_port m, of_nat (length (m_payload m))] @
     le32 (m_sequence m) @ le32 (m_session m)"

definition v2_tail :: "v2_message \<Rightarrow> byte list" where
  "v2_tail m = m_payload m @ le16 (rp_v2_crc16 (v2_body m))"

lemma v2_frame_split:
  "v2_frame_bytes m = RP_V2_START # v2_header m @ v2_tail m" "v2_body m = v2_header m @ m_payload m"
  by (simp_all add: v2_frame_bytes_def v2_body_def v2_header_def v2_tail_def)

lemma v2_header_parts:
  assumes "v2_valid m"
  shows "length (v2_header m) = 13" "v2_header m ! 0 = RP_V2_VERSION"
    "unat (v2_header m ! 4) = length (m_payload m)" "length (m_payload m) \<le> 240"
    "length (v2_tail m) = length (m_payload m) + 2"
  using assms by (simp_all add: v2_header_def v2_tail_def v2_valid_def)

lemma v2_frame_checks:
  assumes "v2_valid m"
  shows "v2_check (v2_frame_bytes m)" "v2_message_at (v2_frame_bytes m) = m"
proof -
  have "parse_v2 (v2_frame_bytes m) = Some (m, [])"
    using parse_v2_frame [OF assms, of "[]"] by simp
  then show "v2_check (v2_frame_bytes m)" "v2_message_at (v2_frame_bytes m) = m"
    by (auto simp: parse_v2_def v2_check_def v2_message_at_def Let_def split: if_splits)
qed

lemma receive_v2_message:
  assumes "ready s" "v2_valid m" "RP_V2_START # upcoming_bytes s = v2_frame_bytes m @ rest"
  shows "\<exists>s2. ready s2 \<and> same_but_com s s2 \<and> upcoming_bytes s2 = rest \<and> wire_out s2 = wire_out s \<and>
    receive_v2_frame s = dispatch_message m s2"
proof -
  have "upcoming_bytes s = v2_header m @ v2_tail m @ rest"
    using assms(3) by (simp add: v2_frame_split)
  from receive_v2_frame_ready [OF assms(1) this] v2_header_parts [OF assms(2)]
    v2_frame_checks [OF assms(2)] show ?thesis
    by (simp add: v2_frame_split)
qed

subsection \<open>Damaged frames\<close>

text \<open>
  One byte of the frame changed, the start byte, the version and the length apart. The CRC
  differs, whichever byte it was.
\<close>

lemma crc_one_byte:
  assumes "i < length bs" "b \<noteq> bs ! i"
  shows "rp_v2_crc16 (bs[i := b]) \<noteq> rp_v2_crc16 bs"
proof -
  let ?c = "foldl crc16_byte 0xFFFF (take i bs)" and ?post = "drop (Suc i) bs"
  have old: "rp_v2_crc16 bs = foldl crc16_byte (crc16_byte ?c (bs ! i)) ?post"
    using id_take_nth_drop [OF assms(1)] unfolding rp_v2_crc16_def
    by (metis foldl_Cons foldl_append)
  have new: "rp_v2_crc16 (bs[i := b]) = foldl crc16_byte (crc16_byte ?c b) ?post"
    unfolding rp_v2_crc16_def upd_conv_take_nth_drop [OF assms(1)] by simp
  show ?thesis unfolding old new using assms(2) by (simp add: crc16_fold_inj)
qed

lemma v2_frame_at:
  assumes "v2_valid m"
  shows "v2_frame_bytes m ! 0 = RP_V2_START" "v2_frame_bytes m ! 1 = RP_V2_VERSION"
    "unat (v2_frame_bytes m ! 5) = length (m_payload m)"
  using v2_header_parts [OF assms] by (simp_all add: v2_frame_split nth_append)

lemma damaged_check:
  assumes "v2_valid m" "6 \<le> i \<or> i \<in> {2, 3, 4}" "i < length (v2_frame_bytes m)"
    and "b \<noteq> v2_frame_bytes m ! i"
  shows "\<not> v2_check ((v2_frame_bytes m)[i := b])"
proof -
  let ?f = "v2_frame_bytes m" and ?n = "length (m_payload m)"
  let ?g = "?f[i := b]"
  have len: "length ?f = 16 + ?n" "?n \<le> 240"
    using assms(1) by (simp_all add: length_v2_frame_bytes v2_valid_def)
  have size: "unat (?g ! 5) = ?n" "unat (?f ! 5) = ?n"
    using v2_frame_at [OF assms(1)] assms(2) by auto
  have eq: "rp_v2_get_u16 ?f (14 + ?n) = rp_v2_crc16 (peek 1 (13 + ?n) ?f)"
    using v2_frame_checks(1) [OF assms(1)] size(2) by (simp add: v2_check_def Let_def)
  show ?thesis
  proof (cases "i < 14 + ?n")
    case True
    have "peek 1 (13 + ?n) ?g = (peek 1 (13 + ?n) ?f)[i - 1 := b]"
      using True assms(2) unfolding peek_def by (auto simp: drop_update_swap take_update_swap)
    moreover have "peek 1 (13 + ?n) ?f ! (i - 1) = ?f ! i" "i - 1 < length (peek 1 (13 + ?n) ?f)"
      using True assms(2) len by (auto simp: peek_def)
    ultimately have "rp_v2_crc16 (peek 1 (13 + ?n) ?g) \<noteq> rp_v2_crc16 (peek 1 (13 + ?n) ?f)"
      using crc_one_byte assms(4) by metis
    moreover have "rp_v2_get_u16 ?g (14 + ?n) = rp_v2_get_u16 ?f (14 + ?n)"
      using True by (simp add: rp_v2_get_u16_def)
    ultimately show ?thesis using eq size by (simp add: v2_check_def Let_def)
  next
    case False
    then have "peek 1 (13 + ?n) ?g = peek 1 (13 + ?n) ?f"
      by (simp add: peek_def drop_update_swap)
    moreover have "rp_v2_get_u16 ?g (14 + ?n) \<noteq> rp_v2_get_u16 ?f (14 + ?n)"
    proof
      assume "rp_v2_get_u16 ?g (14 + ?n) = rp_v2_get_u16 ?f (14 + ?n)"
      with le16_get [of "14 + ?n" ?g] le16_get [of "14 + ?n" ?f] len
      have "?g ! (14 + ?n) = ?f ! (14 + ?n)" "?g ! (15 + ?n) = ?f ! (15 + ?n)" by simp_all
      moreover have "i = 14 + ?n \<or> i = 15 + ?n" using False assms(3) len by auto
      ultimately show False using assms(3,4) by (auto simp: nth_list_update)
    qed
    ultimately show ?thesis using eq size by (simp add: v2_check_def Let_def)
  qed
qed

lemma receive_damaged:
  assumes "ready s" "v2_valid m" "6 \<le> i \<or> i \<in> {2, 3, 4}" "i < length (v2_frame_bytes m)"
    and "b \<noteq> v2_frame_bytes m ! i"
    and "RP_V2_START # upcoming_bytes s = (v2_frame_bytes m)[i := b] @ rest"
  shows "\<exists>s2. ready s2 \<and> same_but_com s s2 \<and> upcoming_bytes s2 = rest \<and> wire_out s2 = wire_out s \<and>
    receive_v2_frame s = Some (- EBADMSG, stats_increment crc_errors_update s2)"
proof -
  let ?g = "(v2_frame_bytes m)[i := b]"
  let ?h = "take 13 (tl ?g)" and ?t = "drop 13 (tl ?g)"
  have len: "length ?g = 16 + length (m_payload m)" "length (m_payload m) \<le> 240"
    using assms(2) by (simp_all add: length_v2_frame_bytes v2_valid_def)
  have at: "?g ! 0 = RP_V2_START" "?g ! 1 = RP_V2_VERSION" "unat (?g ! 5) = length (m_payload m)"
    using v2_frame_at [OF assms(2)] assms(3) by auto
  have g: "?g = RP_V2_START # ?h @ ?t"
    using at(1) len(1) by (cases ?g) auto
  have "?h ! 0 = RP_V2_VERSION" "unat (?h ! 4) = length (m_payload m)"
    using at(2,3) len by (simp_all add: nth_tl One_nat_def)
  moreover have "upcoming_bytes s = ?h @ ?t @ rest" using assms(6) g by (metis append_Cons append_assoc list.inject)
  ultimately show ?thesis
    using receive_v2_frame_ready [OF assms(1), of ?h ?t rest] len g damaged_check [OF assms(2-5)]
    by (simp add: Let_def)
qed

subsection \<open>A link that is up stays up\<close>

text \<open>What a receive may change, the link below included.\<close>

definition receive_step :: "rp \<Rightarrow> rp \<Rightarrow> bool" where
  "receive_step s s' \<longleftrightarrow>
     s' = s\<lparr>rp_com := rp_com s', fgStatus := fgStatus s', fgRuntimeTelemetry := fgRuntimeTelemetry s',
            gPortDevices := gPortDevices s', fgSessionId := fgSessionId s',
            fgCapabilities := fgCapabilities s', fgLinkStats := fgLinkStats s'\<rparr>"

lemma receive_step_parts:
  "same_but_com s t \<Longrightarrow> receive_step s t" "dispatch_step s t \<Longrightarrow> receive_step s t"
  "counts_only s t \<Longrightarrow> receive_step s t" "receive_step s (stats_increment c s)" "receive_step s s"
  by (cases s, cases t, simp add: same_but_com_def dispatch_step_def counts_only_def
      stats_increment_def receive_step_def)+

lemma receive_step_trans: "receive_step s t \<Longrightarrow> receive_step t u \<Longrightarrow> receive_step s u"
  by (cases s, cases t, cases u) (simp add: receive_step_def)

lemma receive_step_fields:
  assumes "receive_step s s'"
  shows "fgDesc s' = fgDesc s" "fgHandshakeComplete s' = fgHandshakeComplete s"
    "fgStopCommunication s' = fgStopCommunication s" "fgUseProtocolV2 s' = fgUseProtocolV2 s"
    "fgActiveReceivers s' = fgActiveReceivers s" "fgNextSequence s' = fgNextSequence s"
  using assms by (cases s, cases s', simp add: receive_step_def)+

lemma linked_counts: "counts_only s s' \<Longrightarrow> linked s \<Longrightarrow> linked s'"
  by (cases s, cases s') (simp add: counts_only_def linked_def)

lemma linked_com: "same_but_com s s' \<Longrightarrow> linked s \<Longrightarrow> linked s'"
  by (rule linked_counts [OF counts_onlyI(1)])

lemma linked_increment [simp]: "linked (stats_increment c s) = linked s"
  by (simp add: linked_def)

definition stays_up :: "rp \<Rightarrow> (int \<times> rp) option \<Rightarrow> bool" where
  "stays_up s x \<longleftrightarrow> (\<exists>r s'. x = Some (r, s') \<and> linked s' \<and> receive_step s s' \<and> r \<le> 0)"

lemma stays_up_dispatch:
  assumes "linked s" "same_but_com s s2"
  shows "stays_up s (dispatch_message m s2)"
proof -
  from process_command_props [OF linked_com [OF assms(2,1)], of "int (length (m_payload m))" "m_payload m"]
  obtain r s' where "dispatch_message m s2 = Some (r, s')" "linked s'" "dispatch_step s2 s'" "r \<le> 0"
    unfolding dispatch_message_def by blast
  with assms(2) show ?thesis
    unfolding stays_up_def
    by (blast intro: receive_step_trans [OF receive_step_parts(1) [OF assms(2)]] receive_step_parts)
qed

lemma receive_v2_frame_up: "linked s \<Longrightarrow> stays_up s (receive_v2_frame s)"
  using receive_v2_frame_cases [OF refl, of s] stays_up_dispatch
  by (fastforce simp: stays_up_def intro: linked_counts receive_step_parts)

lemma receive_legacy_frame_up:
  assumes "linked s"
  shows "stays_up s (receive_legacy_frame s)"
proof -
  obtain r1 header s1 where h: "com_receive 3 RP_FRAME_TIMEOUT_MS s = (r1, header, s1)"
    by (cases "com_receive 3 RP_FRAME_TIMEOUT_MS s") auto
  define n where "n = int (unat (header ! 1))"
  obtain r2 payload s2 where p: "(if n > 0 then com_receive (nat n) RP_FRAME_TIMEOUT_MS s1 else (0, [], s1))
      = (r2, payload, s2)"
    by (cases "if n > 0 then com_receive (nat n) RP_FRAME_TIMEOUT_MS s1 else (0, [], s1)") auto
  have c1: "same_but_com s s1" by (rule com_receive_frame [OF h])
  have c2: "same_but_com s1 s2" using p by (auto split: if_splits intro: com_receive_frame)
  have "0 \<le> n" by (simp add: n_def)
  have len: "0 \<le> r2 \<Longrightarrow> n = int (length payload)"
    using p \<open>0 \<le> n\<close> by (auto split: if_splits dest: rx.recv_exact)
  have c12: "same_but_com s s2" by (rule same_but_com_trans [OF c1 c2])
  define s3 where "s3 = stats_increment rx_legacy_frames_update s2"
  have up: "linked s1" "linked s2" "linked s3"
    using linked_com [OF c1 assms] linked_com [OF c12 assms] by (simp_all add: s3_def)
  have steps: "receive_step s s1" "receive_step s (stats_increment framing_errors_update s1)"
    "receive_step s s2" "receive_step s s3"
    unfolding s3_def using receive_step_parts(1) [OF c1] receive_step_parts(1) [OF c12]
    by (auto intro: receive_step_trans [OF _ receive_step_parts(4)])
  have last: "stays_up s (process_command (header ! 2) (header ! 0) 0 0 (fgSessionId s3) payload n s3)"
    if "0 \<le> r2"
    using process_command_props [OF up(3) len [OF that]] steps(4)
    unfolding stays_up_def by (blast intro: receive_step_trans [OF steps(4)] receive_step_parts)
  have "receive_legacy_frame s = (if r1 < 0 then Some (r1, s1)
      else if n > RP_PROTOCOL_BUFMAX \<or> \<not> raspike_is_valid_port (header ! 2)
      then Some (- EPROTO, stats_increment framing_errors_update s1)
      else if r2 < 0 then Some (r2, s2)
      else process_command (header ! 2) (header ! 0) 0 0 (fgSessionId s3) payload n s3)"
    by (simp only: receive_legacy_frame_def Let_def h prod.case n_def [symmetric] p s3_def)
  then show ?thesis
    using last up steps by (auto simp: stays_up_def)
qed

text \<open>
  The whole receive: it never follows a missing status, keeps the link up, and leaves as many
  receivers as it found.
\<close>

lemma linked_receivers [simp]: "linked (s\<lparr>fgActiveReceivers := k\<rparr>) = linked s"
  by (simp add: linked_def)

lemma prot_receive_up:
  assumes "linked s"
  shows "stays_up s (raspike_prot_receive s)"
proof (cases "fgStopCommunication s \<or> fgDesc s = None \<or> \<not> fgHandshakeComplete s")
  case True
  with assms show ?thesis
    by (auto simp: raspike_prot_receive_whole stays_up_def intro: receive_step_parts)
next
  case False
  define leave where "leave = (\<lambda>s :: rp. s\<lparr>fgActiveReceivers := fgActiveReceivers s - 1\<rparr>)"
  define s1 where "s1 = s\<lparr>fgActiveReceivers := fgActiveReceivers s + 1\<rparr>"
  obtain r bs s2 where h: "com_receive 1 500 s1 = (r, bs, s2)" by (cases "com_receive 1 500 s1") auto
  define x where "x = (if hd bs = RP_V2_START then receive_v2_frame s2
    else if hd bs = RP_CMD_START then receive_legacy_frame s2
    else Some (- EAGAIN, stats_increment framing_errors_update s2))"
  have up: "linked s2" using linked_com [OF com_receive_frame [OF h]] assms by (simp add: s1_def)
  have "stays_up s2 x"
    using receive_v2_frame_up [OF up] receive_legacy_frame_up [OF up] up
    by (auto simp: x_def stays_up_def intro: receive_step_parts)
  then obtain r3 s3 where x: "x = Some (r3, s3)" "linked s3" "receive_step s2 s3" "r3 \<le> 0"
    by (auto simp: stays_up_def)
  note first = receive_step_parts(1) [OF com_receive_frame [OF h]]
  have s13: "receive_step s1 s3" by (rule receive_step_trans [OF first x(3)])
  have lv: "receive_step s1 t \<Longrightarrow> receive_step s (leave t)" for t
    by (cases s, cases t) (simp add: receive_step_def leave_def s1_def)
  have "receive_step s (leave s3)" "receive_step s (leave s2)"
    "receive_step s (leave (stats_increment c s3))" for c
    by (rule lv [OF s13], rule lv [OF first],
        rule lv [OF receive_step_trans [OF s13 receive_step_parts(4)]])
  moreover have "linked (leave t) = linked t" for t by (simp add: leave_def)
  ultimately show ?thesis
    using False h x up unfolding raspike_prot_receive_whole
    by (auto simp: stays_up_def x_def leave_def s1_def Let_def)
qed

subsection \<open>A stream of frames\<close>

text \<open>A dispatch neither sees nor touches the link below.\<close>

definition with_com :: "com \<Rightarrow> rp \<Rightarrow> rp" where
  "with_com c s = s\<lparr>rp_com := c\<rparr>"

lemma process_command_com:
  "process_command port cmd flags sequence session buf n (with_com c s) =
    map_option (map_prod id (with_com c)) (process_command port cmd flags sequence session buf n s)"
  by (auto simp: process_command_def process_hello_payload_def process_ack_def with_com_def
      stats_increment_def reset_port_state_def update_device_def Let_def
      split: option.split Option.bind_split)

text \<open>
  A receive of one valid frame, as a step on the state without the link: the dispatch, and the
  counter of frames.
\<close>

definition deliver :: "v2_message \<Rightarrow> rp \<Rightarrow> (int \<times> rp) option" where
  "deliver m s = do {
     (r, s') \<leftarrow> dispatch_message m s;
     Some (r, if r = 0 \<or> r = - ENOMSG \<or> r = - ESTALE
              then stats_increment rx_frames_update s' else s')
   }"

lemma dispatch_message_com:
  "dispatch_message m (with_com c s) = map_option (map_prod id (with_com c)) (dispatch_message m s)"
  by (simp add: dispatch_message_def process_command_com)

lemma stats_increment_com: "stats_increment f (with_com c s) = with_com c (stats_increment f s)"
  by (simp add: stats_increment_def with_com_def)

lemma deliver_com: "deliver m (with_com c s) = map_option (map_prod id (with_com c)) (deliver m s)"
  by (cases "dispatch_message m s") (auto simp: deliver_def dispatch_message_com stats_increment_com)

definition listening :: "rp \<Rightarrow> bool" where
  "listening s \<longleftrightarrow> linked s \<and> ready s \<and> \<not> fgStopCommunication s"

lemma same_but_com_with: "same_but_com s s' \<longleftrightarrow> s' = with_com (rp_com s') s"
  by (simp add: same_but_com_def with_com_def)

lemma dispatch_receivers:
  "dispatch_message m (s\<lparr>fgActiveReceivers := k\<rparr>) =
    map_option (map_prod id (\<lambda>s. s\<lparr>fgActiveReceivers := k\<rparr>)) (dispatch_message m s)"
  by (auto simp: dispatch_message_def process_command_def process_hello_payload_def process_ack_def
      stats_increment_def reset_port_state_def update_device_def Let_def
      split: option.split Option.bind_split)

lemma linked_with_com: "linked (with_com c s) = linked s"
  by (simp add: linked_def with_com_def)

lemma prot_receive_frame:
  assumes "listening s" "v2_valid m" "upcoming_bytes s = v2_frame_bytes m @ rest"
  shows "\<exists>c r s'. deliver m s = Some (r, s') \<and> raspike_prot_receive s = Some (r, with_com c s') \<and>
    listening (with_com c s') \<and> incoming c = rest \<and> on_line c = wire_out s"
proof -
  define s1 where "s1 = s\<lparr>fgActiveReceivers := fgActiveReceivers s + 1\<rparr>"
  have s1: "ready s1" "upcoming_bytes s1 = v2_frame_bytes m @ rest" "wire_out s1 = wire_out s"
    using assms(1,3) by (simp_all add: s1_def listening_def ready_def upcoming_bytes_def wire_out_def)
  obtain s2 where s2: "com_receive 1 500 s1 = (1, [RP_V2_START], s2)" "ready s2" "same_but_com s1 s2"
      "RP_V2_START # upcoming_bytes s2 = v2_frame_bytes m @ rest" "wire_out s2 = wire_out s"
    using ready_receive [OF s1(1), of 1 500] s1(2,3) by (auto simp: v2_frame_split One_nat_def)
  obtain s3 where s3: "ready s3" "same_but_com s2 s3" "upcoming_bytes s3 = rest" "wire_out s3 = wire_out s"
      "receive_v2_frame s2 = dispatch_message m s3"
    using receive_v2_message [OF s2(2) assms(2) s2(4)] s2(5) by auto
  define c where "c = rp_com s3"
  have s3c: "s3 = (with_com c s)\<lparr>fgActiveReceivers := fgActiveReceivers s + 1\<rparr>"
    using same_but_com_trans [OF s2(3) s3(2)] by (cases s, cases s3, simp add: same_but_com_with s1_def c_def with_com_def)
  have "linked (with_com c s)" using assms(1) by (simp add: listening_def linked_def with_com_def)
  with process_command_props [of s "int (length (m_payload m))" "m_payload m"] assms(1)
  obtain r s4 where d: "dispatch_message m s = Some (r, s4)" "linked s4" "dispatch_step s s4"
    unfolding dispatch_message_def listening_def by blast
  have "dispatch_message m s3 = Some (r, (with_com c s4)\<lparr>fgActiveReceivers := fgActiveReceivers s + 1\<rparr>)"
    using d(1) by (simp add: s3c dispatch_receivers dispatch_message_com)
  moreover define s5 where "s5 = (if r = 0 \<or> r = - ENOMSG \<or> r = - ESTALE
              then stats_increment rx_frames_update s4 else s4)"
  moreover note fields = dispatch_step_fields [OF d(3)]
  have "(with_com c s4)\<lparr>fgActiveReceivers := fgActiveReceivers s\<rparr> = with_com c s4"
    using fields(6) by (simp add: with_com_def)
  ultimately have "raspike_prot_receive s = Some (r, with_com c s5)"
    using s2(1) s3(5) assms(1) fields(6)
    by (auto simp: raspike_prot_receive_whole listening_def linked_def Let_def s1_def [symmetric]
        with_com_def stats_increment_def)
  moreover have "deliver m s = Some (r, s5)" using d(1) by (simp add: deliver_def s5_def)
  moreover have "listening (with_com c s5)"
  proof -
    have "linked s5" "fgDesc s5 = fgDesc s" "fgStopCommunication s5 = fgStopCommunication s"
      using d(2) fields by (simp_all add: s5_def)
    moreover have "fgDesc s3 = fgDesc s" by (subst s3c) (simp add: with_com_def)
    moreover have "rp_com s3 = c" by (simp add: c_def)
    ultimately show ?thesis
      using s3(1) assms(1) linked_with_com [of c s5] unfolding listening_def ready_def
      by (simp add: with_com_def)
  qed
  moreover have "incoming c = rest" "on_line c = wire_out s"
    using s3(3,4) by (simp_all add: c_def upcoming_bytes_def wire_out_def)
  ultimately show ?thesis by blast
qed

text \<open>Frame after frame.\<close>

primrec receive_times :: "nat \<Rightarrow> rp \<Rightarrow> (int list \<times> rp) option" where
  "receive_times 0 s = Some ([], s)"
| "receive_times (Suc n) s = do {
     (r, s1) \<leftarrow> raspike_prot_receive s;
     (rs, s2) \<leftarrow> receive_times n s1;
     Some (r # rs, s2)
   }"

primrec deliver_all :: "v2_message list \<Rightarrow> rp \<Rightarrow> (int list \<times> rp) option" where
  "deliver_all [] s = Some ([], s)"
| "deliver_all (m # ms) s = do {
     (r, s1) \<leftarrow> deliver m s;
     (rs, s2) \<leftarrow> deliver_all ms s1;
     Some (r # rs, s2)
   }"

lemma deliver_all_com:
  "deliver_all ms (with_com c s) = map_option (map_prod id (with_com c)) (deliver_all ms s)"
proof (induction ms arbitrary: s)
  case (Cons m ms)
  then show ?case
    by (cases "deliver m s") (auto simp: deliver_com split: Option.bind_split)
qed simp

lemma receive_stream:
  assumes "listening s" "list_all v2_valid ms"
    and "upcoming_bytes s = concat (map v2_frame_bytes ms) @ rest"
  shows "\<exists>c rs s'. deliver_all ms s = Some (rs, s') \<and>
    receive_times (length ms) s = Some (rs, with_com c s') \<and> incoming c = rest"
  using assms
proof (induction ms arbitrary: s)
  case Nil
  then show ?case by (auto simp: with_com_def upcoming_bytes_def intro!: exI [of _ "rp_com s"])
next
  case (Cons m ms)
  obtain c r s1 where m: "deliver m s = Some (r, s1)"
      "raspike_prot_receive s = Some (r, with_com c s1)" "listening (with_com c s1)"
      "incoming c = concat (map v2_frame_bytes ms) @ rest"
    using prot_receive_frame [OF Cons.prems(1), of m "concat (map v2_frame_bytes ms) @ rest"]
      Cons.prems(2,3) by auto
  have "upcoming_bytes (with_com c s1) = concat (map v2_frame_bytes ms) @ rest"
    using m(4) by (simp add: with_com_def)
  with Cons.IH [OF m(3)] Cons.prems(2) obtain c' rs s' where
    "deliver_all ms (with_com c s1) = Some (rs, s')"
    "receive_times (length ms) (with_com c s1) = Some (rs, with_com c' s')" "incoming c' = rest" by auto
  moreover from this obtain s'' where "deliver_all ms s1 = Some (rs, s'')" "s' = with_com c s''"
    by (auto simp: deliver_all_com)
  ultimately show ?case
    using m by (auto simp: with_com_def intro!: exI [of _ c'])
qed

end
