(* ===== verification/Request.thy ===== *)
theory Request
  imports Receive
begin

section \<open>Requests and their acknowledgements (\<^verbatim>\<open>src/raspike_protocol.c\<close>)\<close>

text \<open>
  A request waits for the receiving thread. What the other threads do meanwhile is an argument, a
  \<open>sched\<close>: \<open>s_steps\<close> are applied one by one where the caller waits for a mutex, \<open>s_waits\<close> where it
  waits on a condition variable, each with the result \<^verbatim>\<open>pthread_cond_timedwait\<close> gives then. One of
  them is all that the others do at that point, however many sections under a mutex that is: the
  classes of steps below are closed under composition. When \<open>s_steps\<close> is used up the others do
  nothing, when \<open>s_waits\<close> is the wait times out.
\<close>

definition RP_REQUEST_TIMEOUT_MS :: int where [simp]: "RP_REQUEST_TIMEOUT_MS = 1000"

record sched =
  s_steps :: "(rp \<Rightarrow> rp) list"
  s_waits :: "((rp \<Rightarrow> rp) \<times> int) list"

definition quiet :: sched where
  "quiet = \<lparr>s_steps = [], s_waits = []\<rparr>"

definition others_run :: "sched \<Rightarrow> rp \<Rightarrow> sched \<times> rp" where
  "others_run sc s =
     (case s_steps sc of [] \<Rightarrow> (sc, s) | f # rest \<Rightarrow> (sc\<lparr>s_steps := rest\<rparr>, f s))"

text \<open>A wait that ends with \<open>ETIMEDOUT\<close> ends when the clock has reached the deadline.\<close>

definition pass_until :: "timespec \<Rightarrow> rp \<Rightarrow> rp" where
  "pass_until deadline s =
     snd (on_os (\<lambda>w. ((), w\<lparr>os_now := max (os_now w)
       (tv_sec deadline * 10 ^ 9 + tv_nsec deadline)\<rparr>)) s)"

subsection \<open>A request\<close>

text \<open>The inner loop: the pair is \<open>result\<close> and what is left of the schedule.\<close>

fun await_ack ::
  "nat \<Rightarrow> timespec \<Rightarrow> ((rp \<Rightarrow> rp) \<times> int) list \<Rightarrow> int \<Rightarrow> rp \<Rightarrow> int \<times> ((rp \<Rightarrow> rp) \<times> int) list \<times> rp" where
  "await_ack i deadline waits result s =
     (if pending (gPortDevices s ! i) then
        (case waits of
           [] \<Rightarrow> (result, [], pass_until deadline s)
         | (f, wait_result) # rest \<Rightarrow>
             if wait_result = ETIMEDOUT then (result, rest, pass_until deadline (f s))
             else if wait_result \<noteq> 0 \<and> wait_result \<noteq> EINTR then (- wait_result, rest, f s)
             else await_ack i deadline rest result (f s))
      else (result, waits, s))"

declare await_ack.simps [simp del]

text \<open>The attempts that are left; the results are \<open>completed\<close> and \<open>result\<close>.\<close>

primrec request_attempts ::
  "nat \<Rightarrow> byte \<Rightarrow> byte \<Rightarrow> byte list option \<Rightarrow> int \<Rightarrow> u32 \<Rightarrow> int \<Rightarrow> nat \<Rightarrow> int \<Rightarrow> sched \<Rightarrow> rp \<Rightarrow>
    bool \<times> int \<times> sched \<times> rp" where
  "request_attempts 0 port cmd data n sequence timeout_ms i result sc s = (False, result, sc, s)"
| "request_attempts (Suc left) port cmd data n sequence timeout_ms i result sc s =
     (let (sc1, s1) = others_run sc s in
      if \<not> pending (gPortDevices s1 ! i) then (True, result, sc1, s1) else
      let (sc2, s2) = others_run sc1 s1;
          (sent, s3) = send_frame port cmd data n sequence RP_V2_FLAG_HIGH_PRIORITY True s2 in
      if sent < 0 then (False, sent, sc2, s3) else
      let (deadline, s4) = on_os (deadline_after_ms CLOCK_MONOTONIC timeout_ms) s3;
          (sc3, s5) = others_run sc2 s4;
          (result, waits, s6) = await_ack i deadline (s_waits sc3) result s5;
          sc4 = sc3\<lparr>s_waits := waits\<rparr> in
      if \<not> pending (gPortDevices s6 ! i) then (True, result, sc4, s6) else
      request_attempts left port cmd data n sequence timeout_ms i result sc4
        (if left > 0 then stats_increment request_retries_update s6 else s6))"

text \<open>The last section, under the device's mutex.\<close>

definition request_finish :: "byte \<Rightarrow> u32 \<Rightarrow> nat \<Rightarrow> bool \<Rightarrow> int \<Rightarrow> rp \<Rightarrow> int \<times> rp" where
  "request_finish cmd sequence i completed result s =
     (let dev = gPortDevices s ! i;
          (result, s1) =
            (if completed \<and> ack_cmd dev = -1 then (ack_data dev, s)
             else if completed \<and> ack_cmd dev = int (unat cmd) \<and>
               (\<not> fgUseProtocolV2 s \<or> (ack_sequence dev = sequence \<and> ack_session dev = fgSessionId s))
             then (ack_data dev, s)
             else if result = - ETIMEDOUT then (result, stats_increment request_timeouts_update s)
             else (result, s))
      in (result, update_device i (\<lambda>dev. dev\<lparr>pending := False\<rparr>) s1))"

abbreviation open_slot :: "u32 \<Rightarrow> port_device \<Rightarrow> port_device" where
  "open_slot sequence \<equiv> \<lambda>dev. dev\<lparr>pending := True, pending_sequence := sequence,
     ack_sequence := 0, ack_session := 0, ack_cmd := 0, ack_data := 0\<rparr>"

definition raspike_request ::
  "byte \<Rightarrow> byte \<Rightarrow> byte list option \<Rightarrow> int \<Rightarrow> int \<Rightarrow> sched \<Rightarrow> rp \<Rightarrow> int \<times> sched \<times> rp" where
  "raspike_request port cmd data n timeout_ms sc s =
     (if \<not> raspike_is_valid_port port then (- EINVAL, sc, s)
      else case getDevice port of
        None \<Rightarrow> (- EINVAL, sc, s)
      | Some i \<Rightarrow>
          let timeout_ms = (if timeout_ms \<le> 0 then RP_REQUEST_TIMEOUT_MS else timeout_ms);
              (sc1, s1) = others_run sc s;
              (sequence, s2) = next_sequence s1;
              (sc2, s3) = others_run sc1 s2;
              s4 = update_device i (open_slot sequence) s3;
              max_attempts = (if fgUseProtocolV2 s4 then 2 else 1);
              (completed, result, sc3, s5) =
                request_attempts max_attempts port cmd data n sequence timeout_ms i (- ETIMEDOUT) sc2 s4;
              (sc4, s6) = others_run sc3 s5;
              (result, s7) = request_finish cmd sequence i completed result s6
          in (result, sc4, s7))"

subsection \<open>Waiting for a port's mode\<close>

text \<open>The status pointer is read again after every wait; \<open>None\<close> is a read through \<^verbatim>\<open>NULL\<close>.\<close>

fun wait_port_loop ::
  "byte \<Rightarrow> byte \<Rightarrow> timespec \<Rightarrow> ((rp \<Rightarrow> rp) \<times> int) list \<Rightarrow> rp \<Rightarrow>
    (int \<times> ((rp \<Rightarrow> rp) \<times> int) list \<times> rp) option" where
  "wait_port_loop port wait_cmd deadline waits s =
     (case fgStatus s of None \<Rightarrow> None
      | Some st \<Rightarrow>
          if ps_cmd (ports st ! unat port) = wait_cmd then Some (0, waits, s)
          else (case waits of
             [] \<Rightarrow> Some (- ETIMEDOUT, [], pass_until deadline s)
           | (f, ret) # rest \<Rightarrow>
               if ret = ETIMEDOUT then Some (- ETIMEDOUT, rest, pass_until deadline (f s))
               else if ret \<noteq> 0 \<and> ret \<noteq> EINTR then Some (- ret, rest, f s)
               else wait_port_loop port wait_cmd deadline rest (f s)))"

declare wait_port_loop.simps [simp del]

definition raspike_wait_port_cmd_change ::
  "byte \<Rightarrow> byte \<Rightarrow> sched \<Rightarrow> rp \<Rightarrow> (int \<times> sched \<times> rp) option" where
  "raspike_wait_port_cmd_change port wait_cmd sc s =
     (if port \<ge> RP_DEVICE_PORT_COUNT \<or> fgStatus s = None then Some (- EINVAL, sc, s)
      else
        let (deadline, s1) = on_os (deadline_after_ms CLOCK_REALTIME 1000) s;
            (sc1, s2) = others_run sc s1
        in do {
          (ret, waits, s3) \<leftarrow> wait_port_loop port wait_cmd deadline (s_waits sc1) s2;
          Some (ret, sc1\<lparr>s_waits := waits\<rparr>, s3)
        })"

definition raspike_port_com_change_if_needed ::
  "byte \<Rightarrow> byte \<Rightarrow> sched \<Rightarrow> rp \<Rightarrow> (int \<times> sched \<times> rp) option" where
  "raspike_port_com_change_if_needed port wait_cmd sc s =
     (if port \<ge> RP_DEVICE_PORT_COUNT \<or> fgStatus s = None then Some (- EINVAL, sc, s)
      else
        let (sc1, s1) = others_run sc s in do {
          st \<leftarrow> fgStatus s1;
          if ps_cmd (ports st ! unat port) = wait_cmd then Some (0, sc1, s1) else
          let (sc2, s2) = others_run sc1 s1;
              (sent, s3) = raspike_prot_send_priority port wait_cmd None 0 s2 in
          if sent < 0 then Some (sent, sc2, s3)
          else raspike_wait_port_cmd_change port wait_cmd sc2 s3
        })"

subsection \<open>Drive and runtime calls\<close>

definition raspike_drive_configure :: "sched \<Rightarrow> rp \<Rightarrow> int \<times> sched \<times> rp" where
  "raspike_drive_configure sc s = raspike_request RP_PORT_NONE RP_CMD_ID_DRIVE_CONFIG None 0 3000 sc s"

definition raspike_drive_send_command :: "realtime_drive_command option \<Rightarrow> rp \<Rightarrow> int \<times> rp" where
  "raspike_drive_send_command command s =
     (case command of None \<Rightarrow> (- EINVAL, s)
      | Some c \<Rightarrow> raspike_prot_send_priority RP_PORT_NONE RP_CMD_ID_DRIVE_COMMAND
          (Some (encode_realtime_drive_command c)) (int sizeof_realtime_drive_command) s)"

definition raspike_runtime_inject_fault :: "u32 \<Rightarrow> u32 \<Rightarrow> sched \<Rightarrow> rp \<Rightarrow> int \<times> sched \<times> rp" where
  "raspike_runtime_inject_fault fault_mask duration_cycles sc s =
     raspike_request RP_PORT_NONE RP_CMD_ID_RUNTIME_FAULT
       (Some (encode_runtime_fault_command
          \<lparr>fc_fault_mask = fault_mask, fc_duration_cycles = duration_cycles\<rparr>))
       (int sizeof_runtime_fault_command) 1000 sc s"

text \<open>The flag is whether the caller passed a pointer; the second result is what it receives.\<close>

definition raspike_runtime_get_telemetry :: "bool \<Rightarrow> rp \<Rightarrow> int \<times> runtime_telemetry option" where
  "raspike_runtime_get_telemetry telemetry s =
     (if \<not> telemetry then (EINVAL, None)
      else (if rt_sequence (fgRuntimeTelemetry s) \<noteq> 0 then 0 else EAGAIN, Some (fgRuntimeTelemetry s)))"

record link_stats_report =
  lr_session_id :: u32
  lr_protocol_version :: byte
  lr_capabilities :: byte
  lr_tx_frames :: u64
  lr_rx_frames :: u64
  lr_crc_errors :: u64
  lr_framing_errors :: u64
  lr_session_errors :: u64
  lr_request_timeouts :: u64
  lr_request_retries :: u64
  lr_stale_acks :: u64

definition raspike_link_get_stats :: "bool \<Rightarrow> rp \<Rightarrow> int \<times> link_stats_report option" where
  "raspike_link_get_stats stats s =
     (if \<not> stats then (EINVAL, None)
      else (0, Some \<lparr>lr_session_id = fgSessionId s,
        lr_protocol_version = (if fgUseProtocolV2 s then RP_V2_VERSION else 1),
        lr_capabilities = ucast (fgCapabilities s),
        lr_tx_frames = tx_frames (fgLinkStats s), lr_rx_frames = rx_frames (fgLinkStats s),
        lr_crc_errors = crc_errors (fgLinkStats s),
        lr_framing_errors = framing_errors (fgLinkStats s),
        lr_session_errors = session_errors (fgLinkStats s),
        lr_request_timeouts = request_timeouts (fgLinkStats s),
        lr_request_retries = request_retries (fgLinkStats s),
        lr_stale_acks = stale_acks (fgLinkStats s)\<rparr>))"

subsection \<open>What a request relies on\<close>

text \<open>The receiving thread's step for a message, and the schedules made of such steps.\<close>

definition hub_step :: "v2_message \<Rightarrow> rp \<Rightarrow> rp" where
  "hub_step m s = (case dispatch_message m s of None \<Rightarrow> s | Some (r, s') \<Rightarrow> s')"

definition hub_like :: "v2_message set \<Rightarrow> (rp \<Rightarrow> rp) \<Rightarrow> bool" where
  "hub_like ms f \<longleftrightarrow> f = id \<or> (\<exists>m \<in> ms. f = hub_step m)"

definition waits_of :: "((rp \<Rightarrow> rp) \<Rightarrow> bool) \<Rightarrow> ((rp \<Rightarrow> rp) \<times> int) list \<Rightarrow> bool" where
  "waits_of like waits \<longleftrightarrow> (\<forall>(f, e) \<in> set waits. like f \<and> 0 \<le> e)"

definition sched_of :: "((rp \<Rightarrow> rp) \<Rightarrow> bool) \<Rightarrow> sched \<Rightarrow> bool" where
  "sched_of like sc \<longleftrightarrow> (\<forall>f \<in> set (s_steps sc). like f) \<and> waits_of like (s_waits sc)"

abbreviation sched_from :: "v2_message set \<Rightarrow> sched \<Rightarrow> bool" where
  "sched_from ms \<equiv> sched_of (hub_like ms)"

text \<open>A class of steps is closed if nothing to do, one step after another, and a step that depends on the
  state found are steps of it.\<close>

locale closed_steps =
  fixes like :: "(rp \<Rightarrow> rp) \<Rightarrow> bool"
  assumes doing_nothing: "like id"
    and sequence: "like f \<Longrightarrow> like g \<Longrightarrow> like (\<lambda>s. g (f s))"
    and depending: "(\<And>s. like (h s)) \<Longrightarrow> like (\<lambda>s. h s s)"
begin

lemma pointwise:
  assumes "\<And>s. \<exists>g. like g \<and> f s = g s"
  shows "like f"
proof -
  from assms obtain h where "\<forall>s. like (h s) \<and> f s = h s s" by metis
  then have "like (\<lambda>s. h s s)" "f = (\<lambda>s. h s s)" by (auto intro: depending)
  then show ?thesis by simp
qed

lemma folded: "list_all like fs \<Longrightarrow> like (fold (\<lambda>f. f) fs)"
proof (induction fs)
  case Nil
  show ?case unfolding fold.simps by (rule doing_nothing)
next
  case (Cons f fs)
  then show ?case using sequence [of f "fold (\<lambda>f. f) fs"] by (simp add: comp_def)
qed

end

text \<open>
  Beside a request on port \<open>i\<close>, which its \<^verbatim>\<open>request_mutex\<close> keeps to itself, the other threads take
  messages off the line and make any calls: they enter and leave as receivers, draw sequence numbers,
  send, count, open and close the slots of other ports, change what a driver keeps of a device, wait
  and sleep, and reset a motor's count in the saved status. These are the sections under one mutex
  such calls consist of. Between two points of the request there may be any number of them, one after
  the other, and which they are may depend on the state the other threads find.
\<close>

inductive beside :: "v2_message set \<Rightarrow> nat \<Rightarrow> (rp \<Rightarrow> rp) \<Rightarrow> bool" for ms i where
  idle: "beside ms i id"
| dispatch: "m \<in> ms \<Longrightarrow> beside ms i (hub_step m)"
| enter: "beside ms i (\<lambda>s. case receive_enter s of None \<Rightarrow> s | Some s1 \<Rightarrow> s1)"
| leave: "beside ms i receive_leave"
| number: "beside ms i (\<lambda>s. snd (next_sequence s))"
| frame: "beside ms i (\<lambda>s. snd (send_frame port cmd buf n q fl now s))"
| count: "beside ms i (stats_increment c)"
| slot: "j \<noteq> i \<Longrightarrow> beside ms i (update_device j g)"
| driver: "beside ms i (update_device j (\<lambda>dev. dev\<lparr>device := d (device dev)\<rparr>))"
| time: "beside ms i (\<lambda>s. snd (on_os (h :: os \<Rightarrow> unit \<times> os) s))"
| reset: "beside ms i (\<lambda>s. s\<lparr>fgStatus := map_option (update_port port
    (\<lambda>p. p\<lparr>ps_data := poke RP_MOTOR_INDEX_COUNT (replicate 4 0) (ps_data p)\<rparr>)) (fgStatus s)\<rparr>)"
| andthen: "beside ms i f \<Longrightarrow> beside ms i g \<Longrightarrow> beside ms i (\<lambda>s. g (f s))"
| choice: "(\<And>s. beside ms i (h s)) \<Longrightarrow> beside ms i (\<lambda>s. h s s)"

interpretation beside_steps: closed_steps "beside ms i" for ms i
  by unfold_locales (auto intro: beside.intros)

lemma hub_like_beside: "hub_like ms f \<Longrightarrow> beside ms i f"
  by (auto simp: hub_like_def intro: beside.intros)

lemma sched_of_mono: "(\<And>f. like f \<Longrightarrow> like' f) \<Longrightarrow> sched_of like sc \<Longrightarrow> sched_of like' sc"
  by (auto simp: sched_of_def waits_of_def)

text \<open>What holds of the state at every point of a request: an invariant that the others' steps keep, and
  a send, the clock and a counter.\<close>

locale request_context =
  fixes inv :: "rp \<Rightarrow> bool" and like :: "(rp \<Rightarrow> rp) \<Rightarrow> bool"
  assumes like_inv: "like f \<Longrightarrow> inv s \<Longrightarrow> inv (f s)"
    and send_inv: "send_frame port cmd buf n q fl now s = (r, s') \<Longrightarrow> inv s \<Longrightarrow> inv s'"
    and time_inv: "inv s \<Longrightarrow> inv (s\<lparr>rp_com := (rp_com s)\<lparr>com_os := w\<rparr>\<rparr>)"
    and count_inv: "inv s \<Longrightarrow> inv (stats_increment c s)"
    and number_inv: "inv s \<Longrightarrow> inv (snd (next_sequence s))"
begin

lemma run_inv:
  "others_run sc s = (sc', s') \<Longrightarrow> sched_of like sc \<Longrightarrow> inv s \<Longrightarrow> sched_of like sc' \<and> inv s'"
  using like_inv by (auto simp: others_run_def sched_of_def split: list.splits)

lemma until_inv: "inv s \<Longrightarrow> inv (pass_until d s)"
  by (simp add: pass_until_def on_os_def time_inv)

lemma clock_inv: "on_os f s = (x, s') \<Longrightarrow> inv s \<Longrightarrow> inv s'"
  by (auto simp: on_os_def time_inv split: prod.splits)

lemma await_inv:
  assumes "await_ack i d waits result s = (r, waits', s')" "waits_of like waits" "inv s"
  shows "waits_of like waits' \<and> inv s' \<and> (result < 0 \<longrightarrow> r < 0)"
  using assms
proof (induction i d waits result s rule: await_ack.induct)
  case (1 i d waits result s)
  note unfold = await_ack.simps [of i d waits result s]
  show ?case
  proof (cases "pending (gPortDevices s ! i)")
    case False
    with 1 show ?thesis by (simp add: unfold)
  next
    case True
    show ?thesis
    proof (cases waits)
      case Nil
      with 1 True until_inv show ?thesis by (auto simp: unfold [unfolded Nil])
    next
      case (Cons w rest)
      obtain f e where w: "w = (f, e)" by (cases w)
      have ok: "inv (f s)" "0 \<le> e" "waits_of like rest" using 1(3,4) like_inv by (auto simp: Cons w waits_of_def)
      then show ?thesis
        using 1 True until_inv [OF ok(1)] by (auto simp: unfold [unfolded Cons w] Cons w split: if_splits)
    qed
  qed
qed

lemma attempts_inv:
  assumes "request_attempts left port cmd data n q t i result sc s = (completed, r, sc', s')"
    and "sched_of like sc" "inv s" "result < 0"
  shows "sched_of like sc' \<and> inv s' \<and> r < 0"
  using assms
proof (induction left arbitrary: result sc s)
  case 0
  then show ?case by simp
next
  case (Suc left)
  obtain sc1 s1 where o1: "others_run sc s = (sc1, s1)" by (cases "others_run sc s")
  note i1 = run_inv [OF o1 Suc.prems(2,3)]
  show ?case
  proof (cases "pending (gPortDevices s1 ! i)")
    case False
    with Suc.prems o1 i1 show ?thesis by simp
  next
    case True
    obtain sc2 s2 where o2: "others_run sc1 s1 = (sc2, s2)" by (cases "others_run sc1 s1")
    obtain sent s3 where snd: "send_frame port cmd data n q RP_V2_FLAG_HIGH_PRIORITY True s2 = (sent, s3)"
      by (cases "send_frame port cmd data n q RP_V2_FLAG_HIGH_PRIORITY True s2")
    obtain dl s4 where dl: "on_os (deadline_after_ms CLOCK_MONOTONIC t) s3 = (dl, s4)"
      by (cases "on_os (deadline_after_ms CLOCK_MONOTONIC t) s3")
    obtain sc3 s5 where o3: "others_run sc2 s4 = (sc3, s5)" by (cases "others_run sc2 s4")
    obtain res ws s6 where aw: "await_ack i dl (s_waits sc3) result s5 = (res, ws, s6)"
      by (cases "await_ack i dl (s_waits sc3) result s5") auto
    note i2 = run_inv [OF o2 conjunct1 [OF i1] conjunct2 [OF i1]]
    note i3 = send_inv [OF snd conjunct2 [OF i2]]
    note i4 = run_inv [OF o3 conjunct1 [OF i2] clock_inv [OF dl i3]]
    have "waits_of like (s_waits sc3)" using i4 by (simp add: sched_of_def)
    note i6 = await_inv [OF aw this conjunct2 [OF i4]]
    have sc4: "sched_of like (sc3\<lparr>s_waits := ws\<rparr>)" using i4 i6 by (simp add: sched_of_def)
    have res: "res < 0" using i6 Suc.prems(4) by simp
    show ?thesis
    proof (cases "sent < 0 \<or> \<not> pending (gPortDevices s6 ! i)")
      case True
      with Suc.prems o1 o2 snd dl o3 aw \<open>pending _\<close> i2 i3 i6 sc4 show ?thesis
        by (auto simp: Let_def split: if_splits)
    next
      case False
      with Suc.prems(1) o1 o2 snd dl o3 aw \<open>pending _\<close>
      have "request_attempts left port cmd data n q t i res (sc3\<lparr>s_waits := ws\<rparr>)
          (if left > 0 then stats_increment request_retries_update s6 else s6) = (completed, r, sc', s')"
        by (simp add: Let_def)
      from Suc.IH [OF this sc4 _ res] i6 count_inv show ?thesis by simp
    qed
  qed
qed

end

text \<open>Where there is a status besides, the waits for a port's mode return, and return 0 only when the
  status shows the mode.\<close>

definition port_mode :: "byte \<Rightarrow> rp \<Rightarrow> byte option" where
  "port_mode port s = map_option (\<lambda>st. ps_cmd (ports st ! unat port)) (fgStatus s)"

locale status_context = request_context +
  assumes has_status: "inv s \<Longrightarrow> \<exists>st. fgStatus s = Some st"
begin

lemma wait_loop_inv:
  assumes "inv s" "waits_of like waits"
  shows "\<exists>r waits' s'. wait_port_loop port cmd d waits s = Some (r, waits', s') \<and> inv s' \<and> r \<le> 0 \<and>
    waits_of like waits' \<and> (r = 0 \<longrightarrow> port_mode port s' = Some cmd)"
  using assms
proof (induction waits arbitrary: s)
  case Nil
  obtain st where "fgStatus s = Some st" using has_status [OF Nil(1)] by blast
  with Nil until_inv show ?case by (subst wait_port_loop.simps) (simp add: port_mode_def)
next
  case (Cons x waits)
  obtain f e where x: "x = (f, e)" by (cases x)
  have step: "like f" "0 \<le> e" and rest: "waits_of like waits" using Cons.prems(2) x by (simp_all add: waits_of_def)
  note up = like_inv [OF step(1) Cons.prems(1)]
  obtain r ws s' where IH: "wait_port_loop port cmd d waits (f s) = Some (r, ws, s')" "inv s'" "r \<le> 0"
    "waits_of like ws" "r = 0 \<longrightarrow> port_mode port s' = Some cmd"
    using Cons.IH [OF up rest] by blast
  obtain st where st: "fgStatus s = Some st" using has_status [OF Cons.prems(1)] by blast
  let ?now = "ps_cmd (ports st ! unat port) = cmd"
  have "wait_port_loop port cmd d (x # waits) s = (if ?now then Some (0, x # waits, s)
      else if e = ETIMEDOUT then Some (- ETIMEDOUT, waits, pass_until d (f s))
      else if e \<noteq> 0 \<and> e \<noteq> EINTR then Some (- e, waits, f s) else Some (r, ws, s'))"
    using st IH(1) x by (subst wait_port_loop.simps) simp
  moreover have "?now \<Longrightarrow> port_mode port s = Some cmd" using st by (simp add: port_mode_def)
  ultimately show ?case
    using Cons.prems IH(2-5) step(2) rest up until_inv [OF up] by (cases ?now) auto
qed

lemma wait_inv:
  assumes "sched_of like sc" "inv s"
  shows "\<exists>r sc' s'. raspike_wait_port_cmd_change port cmd sc s = Some (r, sc', s') \<and> sched_of like sc' \<and>
    inv s' \<and> r \<le> 0 \<and> (r = 0 \<longrightarrow> port_mode port s' = Some cmd)"
proof (cases "port \<ge> RP_DEVICE_PORT_COUNT")
  case True
  with assms show ?thesis by (simp add: raspike_wait_port_cmd_change_def)
next
  case False
  obtain d s1 where dl: "on_os (deadline_after_ms CLOCK_REALTIME 1000) s = (d, s1)"
    by (cases "on_os (deadline_after_ms CLOCK_REALTIME 1000) s")
  obtain sc2 s2 where o2: "others_run sc s1 = (sc2, s2)" by (cases "others_run sc s1")
  note i2 = run_inv [OF o2 assms(1) clock_inv [OF dl assms(2)]]
  then have "waits_of like (s_waits sc2)" by (simp add: sched_of_def)
  from wait_loop_inv [OF conjunct2 [OF i2] this, of port cmd d] obtain r ws s3 where
    w: "wait_port_loop port cmd d (s_waits sc2) s2 = Some (r, ws, s3)" "inv s3" "r \<le> 0" "waits_of like ws"
      "r = 0 \<longrightarrow> port_mode port s3 = Some cmd" by blast
  have "sched_of like (sc2\<lparr>s_waits := ws\<rparr>)" using i2 w(4) by (simp add: sched_of_def)
  with False dl o2 w has_status [OF assms(2)] show ?thesis by (auto simp: raspike_wait_port_cmd_change_def)
qed

lemma priority_inv: "raspike_prot_send_priority port cmd buf n s = (r, s') \<Longrightarrow> inv s \<Longrightarrow> inv s'"
  using send_inv number_inv [of s] by (auto simp: raspike_prot_send_priority_def split: prod.splits)

lemma change_inv:
  assumes "sched_of like sc" "inv s"
  shows "\<exists>r sc' s'. raspike_port_com_change_if_needed port cmd sc s = Some (r, sc', s') \<and> sched_of like sc' \<and>
    inv s' \<and> r \<le> 0 \<and> (r = 0 \<longrightarrow> port_mode port s' = Some cmd)"
proof (cases "port \<ge> RP_DEVICE_PORT_COUNT")
  case True
  with assms show ?thesis by (simp add: raspike_port_com_change_if_needed_def)
next
  case False
  obtain sc1 s1 where o1: "others_run sc s = (sc1, s1)" by (cases "others_run sc s")
  note i1 = run_inv [OF o1 assms]
  obtain sc2 s2 where o2: "others_run sc1 s1 = (sc2, s2)" by (cases "others_run sc1 s1")
  note i2 = run_inv [OF o2 conjunct1 [OF i1] conjunct2 [OF i1]]
  obtain sent s3 where snd3: "raspike_prot_send_priority port cmd None 0 s2 = (sent, s3)"
    by (cases "raspike_prot_send_priority port cmd None 0 s2")
  note i3 = priority_inv [OF snd3 conjunct2 [OF i2]]
  obtain r sc4 s4 where w: "raspike_wait_port_cmd_change port cmd sc2 s3 = Some (r, sc4, s4)"
      "sched_of like sc4" "inv s4" "r \<le> 0" "r = 0 \<longrightarrow> port_mode port s4 = Some cmd"
    using wait_inv [OF conjunct1 [OF i2] i3, of port cmd] by blast
  obtain st st1 where st: "fgStatus s = Some st" "fgStatus s1 = Some st1"
    using has_status [OF assms(2)] has_status [OF conjunct2 [OF i1]] by blast
  let ?now = "ps_cmd (ports st1 ! unat port) = cmd"
  have "raspike_port_com_change_if_needed port cmd sc s = (if ?now then Some (0, sc1, s1)
      else if sent < 0 then Some (sent, sc2, s3) else Some (r, sc4, s4))"
    using False o1 o2 snd3 w(1) st by (simp add: raspike_port_com_change_if_needed_def)
  moreover have "?now \<Longrightarrow> port_mode port s1 = Some cmd" using st by (simp add: port_mode_def)
  ultimately show ?thesis using i1 i2 i3 w by (cases ?now) auto
qed

end

text \<open>The states a request's slot goes through until the request reads it.\<close>

definition answers :: "nat \<Rightarrow> u32 \<Rightarrow> v2_message \<Rightarrow> port_device \<Rightarrow> bool" where
  "answers i q m dev \<longleftrightarrow> m_cmd m = RP_CMD_ID_ACK \<and> getDevice (m_port m) = Some i \<and>
     length (m_payload m) = 8 \<and> m_sequence m = q \<and> ack_session dev = m_session m \<and>
     ack_cmd dev = sint (rp_v2_get_u32 (m_payload m) 0) \<and>
     ack_data dev = sint (rp_v2_get_u32 (m_payload m) 4)"

definition slot_ok :: "v2_message set \<Rightarrow> nat \<Rightarrow> u32 \<Rightarrow> port_device \<Rightarrow> bool" where
  "slot_ok ms i q dev \<longleftrightarrow>
     (pending dev \<and> pending_sequence dev = q \<and> ack_sequence dev = 0 \<and> ack_cmd dev = 0) \<or>
     (\<not> pending dev \<and> ack_cmd dev = -1 \<and> ack_data dev < 0) \<or>
     (\<not> pending dev \<and> ack_sequence dev = 0 \<and> ack_cmd dev = 0) \<or>
     (\<not> pending dev \<and> 0 \<le> ack_cmd dev \<and> (\<exists>m \<in> ms. answers i q m dev))"

definition request_inv :: "v2_message set \<Rightarrow> nat \<Rightarrow> u32 \<Rightarrow> rp \<Rightarrow> bool" where
  "request_inv ms i q s \<longleftrightarrow> linked s \<and> i < RP_PORT_NUMBER \<and> slot_ok ms i q (gPortDevices s ! i)"

lemma getDevice_bound: "getDevice p = Some i \<Longrightarrow> i < RP_PORT_NUMBER"
  by (auto simp: getDevice_def word_less_nat_alt word_le_nat_alt split: if_splits)

lemma slot_ok_cancel: "slot_ok ms i q dev \<Longrightarrow> e < 0 \<Longrightarrow> slot_ok ms i q (cancel_pending e x dev)"
  by (auto simp: slot_ok_def cancel_pending_def)

lemma nth_reset_port_state:
  "i < length (gPortDevices s) \<Longrightarrow> gPortDevices (reset_port_state e False s) ! i =
    cancel_pending e (fgSessionId s) (gPortDevices s ! i)"
  by (simp add: reset_port_state_def)

lemma process_hello_slot:
  assumes "request_inv ms i q s"
  shows "request_inv ms i q (process_hello_payload buf n s)"
proof -
  have "gPortDevices (process_hello_payload buf n s) ! i = gPortDevices s ! i \<or>
      (\<exists>x. gPortDevices (process_hello_payload buf n s) ! i =
        cancel_pending (- ESTALE) x (gPortDevices s ! i))"
    using assms by (auto simp: process_hello_payload_def Let_def request_inv_def linked_def
        reset_port_state_def)
  with assms process_hello_props(1) slot_ok_cancel [of ms i q _ "- ESTALE"] show ?thesis
    by (auto simp: request_inv_def)
qed

lemma process_ack_slot:
  assumes "request_inv ms i q s" "process_ack (m_port m) (m_sequence m) (m_session m) (m_payload m) s = (r, s')"
    and "m \<in> ms" "m_cmd m = RP_CMD_ID_ACK" "length (m_payload m) = 8"
  shows "request_inv ms i q s'"
proof (cases "gPortDevices s' ! i = gPortDevices s ! i")
  case True
  with assms process_ack_props(1) show ?thesis by (auto simp: request_inv_def)
next
  case False
  have V2: "fgUseProtocolV2 s" and len: "length (gPortDevices s) = 7" "i < 7"
    using assms(1) by (auto simp: request_inv_def linked_def)
  have here: "getDevice (m_port m) = Some i"
  proof (rule ccontr)
    assume "getDevice (m_port m) \<noteq> Some i"
    with False assms(2) show False
      by (auto simp: process_ack_def Let_def update_device_def split: option.splits if_splits)
  qed
  from False assms(2) V2 len here have dev: "getDevice (m_port m) = Some i" "pending (gPortDevices s ! i)"
    "m_sequence m = pending_sequence (gPortDevices s ! i)" "0 \<le> sint (rp_v2_get_u32 (m_payload m) 0)"
    "gPortDevices s' ! i = (gPortDevices s ! i)\<lparr>ack_cmd := sint (rp_v2_get_u32 (m_payload m) 0),
      ack_data := sint (rp_v2_get_u32 (m_payload m) 4), ack_sequence := m_sequence m,
      ack_session := m_session m, pending := False\<rparr>"
    by (auto simp: process_ack_def Let_def update_device_def split: if_splits)
  moreover from this assms(1) have "m_sequence m = q" by (auto simp: request_inv_def slot_ok_def)
  ultimately have "answers i q m (gPortDevices s' ! i)"
    using assms(4,5) by (simp add: answers_def)
  with dev assms(1,3) process_ack_props(1) [OF assms(2)] show ?thesis
    by (auto simp: request_inv_def slot_ok_def)
qed

lemma hub_step_slot:
  assumes "request_inv ms i q s" "hub_like ms f"
  shows "request_inv ms i q (f s)"
proof -
  have "request_inv ms i q (hub_step m s)" if "m \<in> ms" for m
  proof -
    obtain r s' where ack: "process_ack (m_port m) (m_sequence m) (m_session m) (m_payload m) s = (r, s')"
      by (cases "process_ack (m_port m) (m_sequence m) (m_session m) (m_payload m) s")
    obtain r2 s2 where d: "dispatch_message m s = Some (r2, s2)" "linked s2"
      using process_command_props [of s "int (length (m_payload m))" "m_payload m"] assms(1)
      unfolding dispatch_message_def request_inv_def by blast
    consider "m_cmd m = RP_CMD_ID_LINK_HELLO" | "s2 = s'" "m_cmd m = RP_CMD_ID_ACK" "length (m_payload m) = 8"
      | "gPortDevices s2 = gPortDevices s"
      using d(1) ack unfolding dispatch_message_def process_command_def
      by (auto split: if_splits Option.bind_splits)
    then have "request_inv ms i q s2"
    proof cases
      case 1
      then have "s2 = process_hello_payload (m_payload m) (int (length (m_payload m))) s"
        using d(1) by (simp add: dispatch_message_def process_command_def)
      then show ?thesis using process_hello_slot [OF assms(1)] by simp
    next
      case 2
      then show ?thesis using process_ack_slot [OF assms(1) ack that] by simp
    next
      case 3
      then show ?thesis using assms(1) d(2) by (simp add: request_inv_def)
    qed
    then show ?thesis using d(1) by (simp add: hub_step_def)
  qed
  with assms show ?thesis by (auto simp: hub_like_def)
qed

lemma pass_until_fields [simp]:
  "gPortDevices (pass_until d s) = gPortDevices s" "linked (pass_until d s) = linked s"
  "wire_out (pass_until d s) = wire_out s"
  by (simp_all add: pass_until_def on_os_def linked_def wire_out_def on_line_def)

lemma send_frame_counts:
  assumes "send_frame port cmd buf n q fl now s = (r, s')"
  shows "counts_only s s'"
proof -
  obtain r1 s1 where sent: "(if fgUseProtocolV2 s then send_v2_frame port cmd buf n q fl s
      else send_legacy_frame port cmd buf n s) = (r1, s1)"
    by (cases "if fgUseProtocolV2 s then send_v2_frame port cmd buf n q fl s
      else send_legacy_frame port cmd buf n s")
  obtain r2 s2 where flushed: "(if r1 \<ge> 0 \<and> now then let (flush_result, s') = com_flush s1
      in (if flush_result < 0 then flush_result else r1, s') else (r1, s1)) = (r2, s2)"
    by (cases "if r1 \<ge> 0 \<and> now then let (flush_result, s') = com_flush s1
      in (if flush_result < 0 then flush_result else r1, s') else (r1, s1)")
  have "same_but_com s s1"
    using sent by (auto simp: send_v2_frame_def send_legacy_frame_def split: if_splits intro: com_send_frame)
  moreover have "same_but_com s1 s2"
    using flushed by (auto simp: Let_def split: if_splits prod.splits intro: com_flush_frame)
  ultimately have "same_but_com s s2" by (rule same_but_com_trans)
  moreover have "s' = s \<or> s' = s2 \<or> s' = stats_increment tx_frames_update s2"
    using assms unfolding send_frame_def sent Let_def prod.case flushed [unfolded Let_def]
    by (auto split: if_splits)
  ultimately show ?thesis using counts_onlyI same_but_com_refl by blast
qed

lemma counts_only_ports: "counts_only s s' \<Longrightarrow> gPortDevices s' = gPortDevices s"
  by (cases s, cases s') (simp add: counts_only_def)

lemma request_inv_counts: "counts_only s s' \<Longrightarrow> request_inv ms i q s \<Longrightarrow> request_inv ms i q s'"
  using linked_counts counts_only_ports by (simp add: request_inv_def)

lemma on_os_same: "on_os f s = (x, s') \<Longrightarrow> same_but_com s s'"
  by (auto simp: on_os_def same_but_com_def split: prod.splits)

lemma next_sequence_linked: "next_sequence s = (q, s') \<Longrightarrow> linked s' = linked s"
  by (auto simp: next_sequence_def linked_def Let_def)

lemma getDevice_valid: "raspike_is_valid_port p \<Longrightarrow> \<exists>i. getDevice p = Some i"
  by (auto simp: raspike_is_valid_port_def getDevice_def)

lemma hub_like_linked:
  assumes "hub_like ms f" "linked s"
  shows "linked (f s)"
proof -
  have "linked (hub_step m s)" for m
    using stays_up_dispatch [OF assms(2) same_but_com_refl, of m]
    by (auto simp: stays_up_def hub_step_def)
  with assms show ?thesis by (auto simp: hub_like_def)
qed

text \<open>The link stays up and the slot keeps its meaning, whatever the others do.\<close>

lemma wf_reset_count: "wf_status st \<Longrightarrow> wf_status (update_port port
    (\<lambda>p. p\<lparr>ps_data := poke RP_MOTOR_INDEX_COUNT (replicate 4 0) (ps_data p)\<rparr>) st)"
  by (cases "unat port < 6")
    (auto simp: wf_status_def update_port_def list_all_length wf_port_status_def nth_list_update)

lemma beside_linked: "beside ms i f \<Longrightarrow> linked s \<Longrightarrow> linked (f s)"
proof (induction arbitrary: s rule: beside.induct)
  case (dispatch m)
  have "hub_like {m} (hub_step m)" by (auto simp: hub_like_def)
  then show ?case by (rule hub_like_linked [OF _ dispatch(2)])
next
  case number
  then show ?case using next_sequence_linked [OF prod.collapse [symmetric], of s] by simp
next
  case (frame port cmd buf n q fl now)
  then show ?case by (rule linked_counts [OF send_frame_counts [OF prod.collapse [symmetric]]])
next
  case (time h)
  then show ?case by (rule linked_com [OF on_os_same [OF prod.collapse [symmetric]]])
next
  case (reset port)
  then show ?case using wf_reset_count by (auto simp: linked_def)
qed (simp_all add: linked_def update_device_def receive_leave_def receive_enter_def)

lemma request_inv_ports:
  "request_inv ms i q s \<Longrightarrow> linked s' \<Longrightarrow> gPortDevices s' = gPortDevices s \<Longrightarrow> request_inv ms i q s'"
  by (simp add: request_inv_def)

lemma beside_slot: "beside ms i f \<Longrightarrow> request_inv ms i q s \<Longrightarrow> request_inv ms i q (f s)"
proof (induction arbitrary: s rule: beside.induct)
  case (dispatch m)
  then have "hub_like ms (hub_step m)" by (auto simp: hub_like_def)
  then show ?case by (rule hub_step_slot [OF dispatch(2)])
next
  case (driver j d)
  then show ?case
    by (cases "j = i") (simp_all add: request_inv_def update_device_def linked_def slot_ok_def answers_def)
next
  case number
  then show ?case
    by (rule request_inv_ports) (use number beside_linked [OF beside.number] next_sequence_fields(7)
      [OF prod.collapse [symmetric]] in \<open>simp_all add: request_inv_def\<close>)
next
  case (frame port cmd buf n q' fl now)
  then show ?case
    by (rule request_inv_ports) (use frame beside_linked [OF beside.frame] counts_only_ports [OF send_frame_counts
      [OF prod.collapse [symmetric]]] in \<open>simp_all add: request_inv_def\<close>)
next
  case (time h)
  then show ?case
    by (rule request_inv_ports) (use time beside_linked [OF beside.time] same_but_com_fields(3) [OF on_os_same
      [OF prod.collapse [symmetric]]] in \<open>simp_all add: request_inv_def\<close>)
next
  case (reset port)
  then show ?case
    by (rule request_inv_ports) (use reset beside_linked [OF beside.reset] in \<open>simp_all add: request_inv_def\<close>)
next
  case (slot j g)
  then show ?case by (simp add: request_inv_def update_device_def linked_def)
qed (simp_all add: request_inv_def linked_def receive_leave_def receive_enter_def)

lemma time_counts: "counts_only s (s\<lparr>rp_com := (rp_com s)\<lparr>com_os := w\<rparr>\<rparr>)"
  by (simp add: counts_only_def)

interpretation on_link: request_context linked "beside ms i" for ms i
  using beside_linked linked_counts [OF send_frame_counts] linked_counts [OF time_counts]
    next_sequence_linked [OF prod.collapse [symmetric]]
  by unfold_locales simp_all

interpretation up_link: status_context linked "beside ms i" for ms i
  by unfold_locales (auto simp: linked_def)

interpretation on_slot: request_context "request_inv ms i q" "beside ms i" for ms i q
proof (unfold_locales, goal_cases)
  case (1 f s)
  then show ?case by (rule beside_slot)
next
  case (2 port cmd buf n q' fl now s r s')
  then show ?case by (blast intro: request_inv_counts send_frame_counts)
next
  case (3 s w)
  then show ?case by (rule request_inv_counts [OF time_counts])
next
  case (4 s c)
  then show ?case by (simp add: request_inv_def)
next
  case (5 s)
  have "gPortDevices (snd (next_sequence s)) = gPortDevices s" "linked (snd (next_sequence s)) = linked s"
    using next_sequence_fields(7) [OF prod.collapse [symmetric]] next_sequence_linked [OF prod.collapse [symmetric]]
    by simp_all
  with 5 show ?case by (simp add: request_inv_def)
qed

text \<open>The parts of a request on a valid port.\<close>

lemma request_parts:
  assumes "raspike_request port cmd data n t sc s = (r, sc', s')" "raspike_is_valid_port port"
  obtains i sc1 s1 q s2 sc2 s3 left t' completed result sc3 s5 s6 where
    "getDevice port = Some i" "i < RP_PORT_NUMBER" "others_run sc s = (sc1, s1)"
    "next_sequence s1 = (q, s2)" "others_run sc1 s2 = (sc2, s3)"
    "request_attempts left port cmd data n q t' i (- ETIMEDOUT) sc2
      (update_device i (open_slot q) s3) = (completed, result, sc3, s5)"
    "others_run sc3 s5 = (sc', s6)" "request_finish cmd q i completed result s6 = (r, s')"
proof -
  from assms(2) obtain i where i: "getDevice port = Some i" using getDevice_valid by blast
  have i7: "i < RP_PORT_NUMBER" by (rule getDevice_bound [OF i])
  obtain sc1 s1 where o1: "others_run sc s = (sc1, s1)" by (cases "others_run sc s")
  obtain q s2 where sq: "next_sequence s1 = (q, s2)" by (cases "next_sequence s1")
  obtain sc2 s3 where o2: "others_run sc1 s2 = (sc2, s3)" by (cases "others_run sc1 s2")
  let ?s4 = "update_device i (open_slot q) s3"
  let ?left = "if fgUseProtocolV2 ?s4 then 2 else 1" and ?t = "if t \<le> 0 then RP_REQUEST_TIMEOUT_MS else t"
  obtain completed result sc3 s5 where att: "request_attempts ?left
      port cmd data n q ?t i (- ETIMEDOUT) sc2 ?s4 = (completed, result, sc3, s5)"
    by (cases "request_attempts ?left port cmd data n q ?t i (- ETIMEDOUT) sc2 ?s4") auto
  obtain sc4 s6 where o4: "others_run sc3 s5 = (sc4, s6)" by (cases "others_run sc3 s5")
  obtain r7 s7 where fin: "request_finish cmd q i completed result s6 = (r7, s7)"
    by (cases "request_finish cmd q i completed result s6")
  have "sc' = sc4" "r = r7" "s' = s7"
    using assms i o1 sq o2 att o4 fin by (simp_all add: raspike_request_def Let_def)
  with that [OF i i7 o1 sq o2 att _ _] o4 fin show thesis by simp
qed

lemma request_finish_linked: "request_finish cmd q i completed result s = (r, s') \<Longrightarrow> linked s' = linked s"
  by (auto simp: request_finish_def Let_def update_device_def linked_def stats_increment_def split: if_splits)

text \<open>A whole request, by an invariant that holds up to the opening of its slot and one that holds from
  there.\<close>

locale request_phases = before: request_context closed_inv like + request_context open_inv like
  for closed_inv open_inv :: "rp \<Rightarrow> bool" and like :: "(rp \<Rightarrow> rp) \<Rightarrow> bool" +
  fixes i :: nat and q :: u32
  assumes opened: "closed_inv s \<Longrightarrow> i < RP_PORT_NUMBER \<Longrightarrow> open_inv (update_device i (open_slot q) s)"
begin

lemma request_ends:
  assumes "raspike_request port cmd data n t sc s = (r, sc', s')" "raspike_is_valid_port port"
    and "getDevice port = Some i" "fgNextSequence (snd (others_run sc s)) = q"
    and "closed_inv s" "sched_of like sc"
  obtains completed result s6 where "result < 0" "open_inv s6" "sched_of like sc'"
    "request_finish cmd q i completed result s6 = (r, s')"
proof (rule request_parts [OF assms(1,2)])
  fix i' sc1 s1 q' s2 sc2 s3 left t' completed result sc3 s5 s6
  assume i': "getDevice port = Some i'" "i' < RP_PORT_NUMBER" and o1: "others_run sc s = (sc1, s1)"
    and sq: "next_sequence s1 = (q', s2)" and o2: "others_run sc1 s2 = (sc2, s3)"
    and att: "request_attempts left port cmd data n q' t' i' (- ETIMEDOUT) sc2
      (update_device i' (open_slot q') s3) = (completed, result, sc3, s5)"
    and o4: "others_run sc3 s5 = (sc', s6)" and fin: "request_finish cmd q' i' completed result s6 = (r, s')"
  have same: "i' = i" "q' = q" using i'(1) assms(3,4) next_sequence_fields(1) [OF sq] o1 by simp_all
  note i1 = before.run_inv [OF o1 assms(6,5)]
  have i2: "closed_inv s2" using before.number_inv [OF conjunct2 [OF i1]] sq by simp
  note i3 = before.run_inv [OF o2 conjunct1 [OF i1] i2]
  note i5 = attempts_inv [OF att [unfolded same] conjunct1 [OF i3] opened [OF conjunct2 [OF i3] i'(2) [unfolded same]]]
  then have "sched_of like sc3" "open_inv s5" "result < 0" by simp_all
  with run_inv [OF o4] fin [unfolded same] show thesis by (intro that [of result s6 completed]) simp_all
qed

end

interpretation link_phases: request_phases linked linked "beside ms k" i q for ms k i q
  by unfold_locales (simp add: linked_def update_device_def)

interpretation slot_phases: request_phases linked "request_inv ms i q" "beside ms i" i q for ms i q
  by unfold_locales (simp add: request_inv_def linked_def update_device_def slot_ok_def)

lemma request_linked:
  assumes "raspike_request port cmd data n t sc s = (r, sc', s')" "linked s" "sched_of (beside ms k) sc"
  shows "linked s' \<and> sched_of (beside ms k) sc'"
proof (cases "raspike_is_valid_port port")
  case False
  with assms show ?thesis by (auto simp: raspike_request_def)
next
  case True
  from getDevice_valid [OF this] obtain i where i: "getDevice port = Some i" by blast
  show ?thesis
  proof (rule link_phases.request_ends [OF assms(1) True i refl assms(2,3)])
    fix completed result s6
    assume "linked s6" "sched_of (beside ms k) sc'"
      "request_finish cmd (fgNextSequence (snd (others_run sc s))) i completed result s6 = (r, s')"
    then show ?thesis using request_finish_linked by simp
  qed
qed

text \<open>What the result of a finished request says about its slot.\<close>

lemma request_finish_result:
  assumes "request_finish cmd q i completed result s = (r, s')" "result < 0" "0 \<le> r"
    and "slot_ok ms i q (gPortDevices s ! i)" "q \<noteq> 0" "fgUseProtocolV2 s \<or> cmd \<noteq> 0"
  shows "\<exists>m \<in> ms. m_cmd m = RP_CMD_ID_ACK \<and> getDevice (m_port m) = Some i \<and>
    length (m_payload m) = 8 \<and> m_sequence m = q \<and> (fgUseProtocolV2 s' \<longrightarrow> m_session m = fgSessionId s') \<and>
    sint (rp_v2_get_u32 (m_payload m) 0) = int (unat cmd) \<and>
    sint (rp_v2_get_u32 (m_payload m) 4) = r"
proof -
  let ?dev = "gPortDevices s ! i"
  have same: "fgSessionId s' = fgSessionId s" "fgUseProtocolV2 s' = fgUseProtocolV2 s"
    using assms(1) by (auto simp: request_finish_def Let_def update_device_def split: if_splits)
  have r: "completed \<and> ack_cmd ?dev = -1 \<and> r = ack_data ?dev \<or>
      completed \<and> ack_cmd ?dev = int (unat cmd) \<and> r = ack_data ?dev \<and> (fgUseProtocolV2 s \<longrightarrow>
        ack_sequence ?dev = q \<and> ack_session ?dev = fgSessionId s) \<or> r = result"
    using assms(1) by (auto simp: request_finish_def Let_def split: if_splits)
  with assms(2-4) have here: "ack_cmd ?dev = int (unat cmd)" "r = ack_data ?dev"
    "fgUseProtocolV2 s \<Longrightarrow> ack_sequence ?dev = q \<and> ack_session ?dev = fgSessionId s"
    by (auto simp: slot_ok_def)
  have "cmd = 0" if "int (unat cmd) = 0" using that by (metis of_nat_0_eq_iff unat_eq_zero)
  then have "\<not> (ack_sequence ?dev = 0 \<and> ack_cmd ?dev = 0)" using here(1,3) assms(5,6) by auto
  moreover have "0 \<le> ack_cmd ?dev" unfolding here(1) by (rule of_nat_0_le_iff)
  ultimately obtain m where "m \<in> ms" "answers i q m ?dev"
    using assms(3,4) here by (auto simp: slot_ok_def)
  with here same show ?thesis by (intro bexI [of _ m]) (simp_all add: answers_def)
qed

lemma request_answered:
  assumes "raspike_request port cmd data n t sc s = (r, sc', s')" "0 \<le> r" "getDevice port = Some i"
    and "linked s" "sched_of (beside ms i) sc" "fgNextSequence (snd (others_run sc s)) = q" "q \<noteq> 0"
  shows "\<exists>m \<in> ms. m_cmd m = RP_CMD_ID_ACK \<and> getDevice (m_port m) = Some i \<and>
    length (m_payload m) = 8 \<and> m_sequence m = q \<and> m_session m = fgSessionId s' \<and>
    sint (rp_v2_get_u32 (m_payload m) 0) = int (unat cmd) \<and>
    sint (rp_v2_get_u32 (m_payload m) 4) = r"
proof -
  from assms(1,2) have port: "raspike_is_valid_port port" by (auto simp: raspike_request_def split: if_splits)
  show ?thesis
  proof (rule slot_phases.request_ends [OF assms(1) port assms(3,6,4,5)])
    fix completed result s6
    assume fin: "request_finish cmd q i completed result s6 = (r, s')"
      and s6: "result < 0" "request_inv ms i q s6"
    then have "linked s6" "slot_ok ms i q (gPortDevices s6 ! i)" by (simp_all add: request_inv_def)
    moreover from this have "linked s'" using request_finish_linked [OF fin] by simp
    ultimately show ?thesis
      using request_finish_result [OF fin s6(1) assms(2) _ assms(7)] by (auto simp: linked_def)
  qed
qed

end
