(* ===== verification/Devices.thy ===== *)
theory Devices
  imports Request
begin

section \<open>The port devices (\<^verbatim>\<open>src/raspike_internal.h\<close> and the drivers)\<close>

text \<open>
  The macros the drivers share and the drivers of the motor and of the colour, ultrasonic and
  force sensors. A device pointer is the index of its entry in \<^verbatim>\<open>gPortDevices\<close>, or \<open>None\<close>
  for \<^verbatim>\<open>NULL\<close>. A result \<open>None\<close> of a sensor function is a read through a status pointer that is
  gone or beyond its ports. Values read as raw bytes are the bytes \<^verbatim>\<open>memcpy\<close> copies, decoded as
  the little-endian machine reads them.
\<close>

datatype pbio_error = PBIO_SUCCESS | PBIO_ERROR_FAILED | PBIO_ERROR_INVALID_ARG | PBIO_ERROR_IO
  | PBIO_ERROR_BUSY | PBIO_ERROR_NO_DEV | PBIO_ERROR_NOT_IMPLEMENTED | PBIO_ERROR_NOT_SUPPORTED
  | PBIO_ERROR_AGAIN | PBIO_ERROR_INVALID_OP | PBIO_ERROR_TIMEDOUT | PBIO_ERROR_CANCELED

definition RP_MOTOR_STU_INDEX_DIRECTION :: nat where [simp]: "RP_MOTOR_STU_INDEX_DIRECTION = 0"
definition RP_MOTOR_STU_INDEX_RESETCOUNT :: nat where [simp]: "RP_MOTOR_STU_INDEX_RESETCOUNT = 4"
definition RP_MOTOR_INDEX_ISSTALLED :: nat where [simp]: "RP_MOTOR_INDEX_ISSTALLED = 10"
definition RP_FORCESENSOR_INDEX_FRC :: nat where [simp]: "RP_FORCESENSOR_INDEX_FRC = 0"
definition RP_FORCESENSOR_INDEX_DST :: nat where [simp]: "RP_FORCESENSOR_INDEX_DST = 4"
definition RP_FORCESENSOR_INDEX_TCH :: nat where [simp]: "RP_FORCESENSOR_INDEX_TCH = 8"
definition RP_US_LGT_SET_INDEX_BV1 :: nat where [simp]: "RP_US_LGT_SET_INDEX_BV1 = 0"
definition RP_US_LGT_SET_INDEX_BV2 :: nat where [simp]: "RP_US_LGT_SET_INDEX_BV2 = 4"
definition RP_US_LGT_SET_INDEX_BV3 :: nat where [simp]: "RP_US_LGT_SET_INDEX_BV3 = 8"
definition RP_US_LGT_SET_INDEX_BV4 :: nat where [simp]: "RP_US_LGT_SET_INDEX_BV4 = 12"
definition RP_US_INDEX_DISTANCE :: nat where [simp]: "RP_US_INDEX_DISTANCE = 0"
definition RP_US_INDEX_PRESENCE :: nat where [simp]: "RP_US_INDEX_PRESENCE = 4"

definition PORT_TO_RASPIKE :: "byte \<Rightarrow> byte" where "PORT_TO_RASPIKE port = port - 0x41"
definition PORT_FROM_RASPIKE :: "byte \<Rightarrow> byte" where "PORT_FROM_RASPIKE port = port + 0x41"

subsection \<open>The shared macros\<close>

definition set_device :: "nat \<Rightarrow> (pup_device \<Rightarrow> pup_device) \<Rightarrow> rp \<Rightarrow> rp" where
  "set_device i f s = update_device i (\<lambda>dev. dev\<lparr>device := f (device dev)\<rparr>) s"

text \<open>The first step of the others is taken while the caller waits for the device's mutex.\<close>

definition GET_DEVICE_COMMON :: "byte \<Rightarrow> byte \<Rightarrow> sched \<Rightarrow> rp \<Rightarrow> nat option \<times> sched \<times> rp" where
  "GET_DEVICE_COMMON fgDeviceType port sc s =
     (let r_port = PORT_TO_RASPIKE port in
      if \<not> raspike_is_valid_port r_port \<or> r_port = RP_PORT_NONE then (None, sc, s)
      else case getDevice r_port of
        None \<Rightarrow> (None, sc, s)
      | Some i \<Rightarrow>
          let (sc1, s1) = others_run sc s;
              dev = device (gPortDevices s1 ! i) in
          if device_type dev = fgDeviceType then (Some i, sc1, s1)
          else if device_type dev \<noteq> 0 then (None, sc1, s1)
          else
            let (config_result, sc2, s2) =
                  raspike_request r_port (MAKE_CMD fgDeviceType 0) None 0 1500 sc1 s1 in
            if config_result \<noteq> 1 then (None, sc2, s2)
            else (Some i, sc2,
              set_device i (\<lambda>dev. dev\<lparr>device_type := fgDeviceType, port_id := r_port\<rparr>) s2))"

text \<open>\<^verbatim>\<open>memcpy\<close> of \<open>n\<close> bytes at \<open>index\<close> of a port's data, through the status pointer.\<close>

definition port_bytes :: "byte \<Rightarrow> nat \<Rightarrow> nat \<Rightarrow> rp \<Rightarrow> byte list option" where
  "port_bytes port index n s = do {
     st \<leftarrow> fgStatus s;
     if unat port < length (ports st) then Some (peek index n (ps_data (ports st ! unat port)))
     else None
   }"

definition pdev_port :: "nat \<Rightarrow> rp \<Rightarrow> byte" where
  "pdev_port i s = port_id (device (gPortDevices s ! i))"

definition DELAYED_SENSOR_COMMON ::
  "nat \<Rightarrow> byte \<Rightarrow> nat option \<Rightarrow> sched \<Rightarrow> rp \<Rightarrow> (byte list \<times> sched \<times> rp) option" where
  "DELAYED_SENSOR_COMMON n cmd pdev sc s =
     (case pdev of None \<Rightarrow> Some (replicate n 0, sc, s)
      | Some i \<Rightarrow>
          if \<not> raspike_is_valid_port (pdev_port i s) then Some (replicate n 0, sc, s)
          else let port = pdev_port i s in do {
            (changed, sc1, s1) \<leftarrow> raspike_port_com_change_if_needed port cmd sc s;
            if changed \<noteq> 0 then Some (replicate n 0, sc1, s1)
            else if fgStatus s1 = None then Some (replicate n 0, sc1, s1)
            else let (sc2, s2) = others_run sc1 s1 in do {
              bs \<leftarrow> port_bytes port 0 n s2;
              Some (bs, sc2, s2)
            }
          })"

definition GET_AND_RET_SENSOR_COMMON ::
  "nat \<Rightarrow> nat \<Rightarrow> nat option \<Rightarrow> sched \<Rightarrow> rp \<Rightarrow> (byte list \<times> sched \<times> rp) option" where
  "GET_AND_RET_SENSOR_COMMON n index pdev sc s =
     (case pdev of None \<Rightarrow> Some (replicate n 0, sc, s)
      | Some i \<Rightarrow>
          if \<not> raspike_is_valid_port (pdev_port i s) then Some (replicate n 0, sc, s)
          else if fgStatus s = None then Some (replicate n 0, sc, s)
          else let port = pdev_port i s; (sc1, s1) = others_run sc s in do {
            bs \<leftarrow> port_bytes port index n s1;
            Some (bs, sc1, s1)
          })"

text \<open>The C value a sensor function makes of the bytes.\<close>

definition as_result :: "(byte list \<Rightarrow> 'a) \<Rightarrow> (byte list \<times> sched \<times> rp) option \<Rightarrow> ('a \<times> sched \<times> rp) option" where
  "as_result f r = map_option (\<lambda>(bs, sc, s). (f bs, sc, s)) r"

definition bool_of :: "byte list \<Rightarrow> bool" where
  "bool_of bs = (bs ! 0 \<noteq> 0)"

definition i32_of :: "byte list \<Rightarrow> int" where
  "i32_of bs = sint (rp_v2_get_u32 bs 0)"

definition i16_of :: "byte list \<Rightarrow> int" where
  "i16_of bs = sint (rp_v2_get_u16 bs 0)"

text \<open>The two drivers' translations of a result differ in one line.\<close>

definition motor_result_to_pbio :: "int \<Rightarrow> pbio_error" where
  "motor_result_to_pbio result =
     (if result = 1 \<or> result = 0 then PBIO_SUCCESS
      else if result = - ETIMEDOUT then PBIO_ERROR_TIMEDOUT
      else if result = - EINVAL then PBIO_ERROR_INVALID_ARG
      else if result = - ENODEV \<or> result = - ENOTCONN then PBIO_ERROR_NO_DEV
      else PBIO_ERROR_IO)"

definition color_result_to_pbio :: "int \<Rightarrow> pbio_error" where
  "color_result_to_pbio result =
     (if result = 1 \<or> result = 0 then PBIO_SUCCESS
      else if result = - ETIMEDOUT then PBIO_ERROR_TIMEDOUT
      else if result = - EINVAL then PBIO_ERROR_INVALID_ARG
      else PBIO_ERROR_IO)"

definition sent_to_pbio :: "int \<times> rp \<Rightarrow> pbio_error \<times> rp" where
  "sent_to_pbio r = (case r of (sent, s) \<Rightarrow> (if sent < 0 then PBIO_ERROR_IO else PBIO_SUCCESS, s))"

subsection \<open>The motor\<close>

definition pup_motor_get_device :: "byte \<Rightarrow> sched \<Rightarrow> rp \<Rightarrow> nat option \<times> sched \<times> rp" where
  "pup_motor_get_device port = GET_DEVICE_COMMON RP_CMD_TYPE_MOTOR port"

text \<open>A request on a device, its result translated.\<close>

definition motor_request ::
  "nat option \<Rightarrow> byte \<Rightarrow> byte list option \<Rightarrow> int \<Rightarrow> int \<Rightarrow> sched \<Rightarrow> rp \<Rightarrow> pbio_error \<times> sched \<times> rp" where
  "motor_request motor cmd data n timeout_ms sc s =
     (case motor of None \<Rightarrow> (PBIO_ERROR_INVALID_ARG, sc, s)
      | Some i \<Rightarrow>
          let (result, sc1, s1) = raspike_request (pdev_port i s) cmd data n timeout_ms sc s
          in (motor_result_to_pbio result, sc1, s1))"

definition pup_motor_setup ::
  "nat option \<Rightarrow> u32 \<Rightarrow> bool \<Rightarrow> sched \<Rightarrow> rp \<Rightarrow> pbio_error \<times> sched \<times> rp" where
  "pup_motor_setup motor positive_direction reset_count sc s =
     (let data = replicate (RP_MOTOR_STU_INDEX_RESETCOUNT + 1) 0;
          data = poke RP_MOTOR_STU_INDEX_DIRECTION (le32 positive_direction) data;
          data = poke RP_MOTOR_STU_INDEX_RESETCOUNT [of_bool reset_count] data
      in motor_request motor RP_CMD_ID_MOT_STU (Some data) 5 2000 sc s)"

text \<open>The count is also cleared in the saved status when the hub has done it.\<close>

definition pup_motor_reset_count ::
  "nat option \<Rightarrow> sched \<Rightarrow> rp \<Rightarrow> (pbio_error \<times> sched \<times> rp) option" where
  "pup_motor_reset_count motor sc s =
     (case motor of None \<Rightarrow> Some (PBIO_ERROR_INVALID_ARG, sc, s)
      | Some i \<Rightarrow>
          let (result, sc1, s1) = raspike_request (pdev_port i s) RP_CMD_ID_MOT_RST None 0 2000 sc s in
          if result = 1 \<and> fgStatus s1 \<noteq> None then
            let (sc2, s2) = others_run sc1 s1; port = pdev_port i s2 in do {
              st \<leftarrow> fgStatus s2;
              if unat port < length (ports st) then
                Some (motor_result_to_pbio result, sc2, s2\<lparr>fgStatus := Some (update_port port
                  (\<lambda>p. p\<lparr>ps_data := poke RP_MOTOR_INDEX_COUNT (replicate 4 0) (ps_data p)\<rparr>) st)\<rparr>)
              else None
            }
          else Some (motor_result_to_pbio result, sc1, s1))"

definition pup_motor_get_count :: "nat option \<Rightarrow> sched \<Rightarrow> rp \<Rightarrow> (int \<times> sched \<times> rp) option" where
  "pup_motor_get_count motor sc s =
     as_result i32_of (GET_AND_RET_SENSOR_COMMON 4 RP_MOTOR_INDEX_COUNT motor sc s)"

definition pup_motor_get_speed :: "nat option \<Rightarrow> sched \<Rightarrow> rp \<Rightarrow> (int \<times> sched \<times> rp) option" where
  "pup_motor_get_speed motor sc s =
     as_result i32_of (GET_AND_RET_SENSOR_COMMON 4 RP_MOTOR_INDEX_SPEED motor sc s)"

definition pup_motor_set_speed :: "nat option \<Rightarrow> i32 \<Rightarrow> rp \<Rightarrow> pbio_error \<times> rp" where
  "pup_motor_set_speed motor speed s =
     (case motor of None \<Rightarrow> (PBIO_ERROR_INVALID_ARG, s)
      | Some i \<Rightarrow>
          let s1 = set_device i (\<lambda>dev. dev\<lparr>pd_cmd := RP_CMD_ID_MOT_SPD\<rparr>) s
          in sent_to_pbio (raspike_prot_send (pdev_port i s1) RP_CMD_ID_MOT_SPD (Some (le32 speed)) 4 s1))"

text \<open>The power that was commanded is answered from the device, otherwise from the status.\<close>

definition pup_motor_get_power :: "nat option \<Rightarrow> sched \<Rightarrow> rp \<Rightarrow> (int \<times> sched \<times> rp) option" where
  "pup_motor_get_power motor sc s =
     (case motor of None \<Rightarrow> Some (0, sc, s)
      | Some i \<Rightarrow>
          if pd_cmd (device (gPortDevices s ! i)) = RP_CMD_ID_MOT_POW
          then Some (pd_power (device (gPortDevices s ! i)), sc, s)
          else as_result i16_of (GET_AND_RET_SENSOR_COMMON 2 RP_MOTOR_INDEX_POWER motor sc s))"

definition pup_motor_set_power :: "nat option \<Rightarrow> i32 \<Rightarrow> rp \<Rightarrow> pbio_error \<times> rp" where
  "pup_motor_set_power motor pw s =
     (case motor of None \<Rightarrow> (PBIO_ERROR_INVALID_ARG, s)
      | Some i \<Rightarrow>
          let pw = (if sint pw < -100 then -100 else pw);
              pw = (if sint pw > 100 then 100 else pw);
              s1 = set_device i (\<lambda>dev. dev\<lparr>pd_cmd := RP_CMD_ID_MOT_POW, pd_power := sint pw\<rparr>) s
          in sent_to_pbio (raspike_prot_send (pdev_port i s1) RP_CMD_ID_MOT_POW (Some (le32 pw)) 4 s1))"

definition pup_motor_stop :: "nat option \<Rightarrow> sched \<Rightarrow> rp \<Rightarrow> pbio_error \<times> sched \<times> rp" where
  "pup_motor_stop motor = motor_request motor RP_CMD_ID_MOT_STP None 0 1000"

definition pup_motor_brake :: "nat option \<Rightarrow> sched \<Rightarrow> rp \<Rightarrow> pbio_error \<times> sched \<times> rp" where
  "pup_motor_brake motor = motor_request motor RP_CMD_ID_MOT_STP_BRK None 0 1000"

definition pup_motor_hold :: "nat option \<Rightarrow> sched \<Rightarrow> rp \<Rightarrow> pbio_error \<times> sched \<times> rp" where
  "pup_motor_hold motor = motor_request motor RP_CMD_ID_MOT_STP_HLD None 0 1000"

definition pup_motor_is_stalled :: "nat option \<Rightarrow> sched \<Rightarrow> rp \<Rightarrow> (bool \<times> sched \<times> rp) option" where
  "pup_motor_is_stalled motor sc s =
     as_result bool_of (GET_AND_RET_SENSOR_COMMON 1 RP_MOTOR_INDEX_ISSTALLED motor sc s)"

definition pup_motor_set_duty_limit :: "nat option \<Rightarrow> i32 \<Rightarrow> sched \<Rightarrow> rp \<Rightarrow> int \<times> sched \<times> rp" where
  "pup_motor_set_duty_limit motor duty_limit sc s =
     (case motor of None \<Rightarrow> (- EINVAL, sc, s)
      | Some i \<Rightarrow> raspike_request (pdev_port i s) RP_CMD_ID_MOT_SET_DTY (Some (le32 duty_limit)) 4 1000 sc s)"

definition pup_motor_restore_duty_limit :: "nat option \<Rightarrow> i32 \<Rightarrow> sched \<Rightarrow> rp \<Rightarrow> sched \<times> rp" where
  "pup_motor_restore_duty_limit motor old_value sc s =
     (case motor of None \<Rightarrow> (sc, s)
      | Some i \<Rightarrow> snd (raspike_request (pdev_port i s) RP_CMD_ID_MOT_RST_DTY (Some (le32 old_value)) 4 1000 sc s))"

subsection \<open>The colour sensor\<close>

record pup_color_hsv =
  hsv_h :: u16
  hsv_s :: byte
  hsv_v :: byte

record pup_color_rgb =
  rgb_r :: u16
  rgb_g :: u16
  rgb_b :: u16

definition hsv_of :: "byte list \<Rightarrow> pup_color_hsv" where
  "hsv_of bs = \<lparr>hsv_h = rp_v2_get_u16 bs 0, hsv_s = bs ! 2, hsv_v = bs ! 3\<rparr>"

definition rgb_of :: "byte list \<Rightarrow> pup_color_rgb" where
  "rgb_of bs = \<lparr>rgb_r = rp_v2_get_u16 bs 0, rgb_g = rp_v2_get_u16 bs 2, rgb_b = rp_v2_get_u16 bs 4\<rparr>"

definition pup_color_sensor_get_device :: "byte \<Rightarrow> sched \<Rightarrow> rp \<Rightarrow> nat option \<times> sched \<times> rp" where
  "pup_color_sensor_get_device port = GET_DEVICE_COMMON RP_CMD_TYPE_COLOR port"

definition pup_color_sensor_color ::
  "nat option \<Rightarrow> bool \<Rightarrow> sched \<Rightarrow> rp \<Rightarrow> (pup_color_hsv \<times> sched \<times> rp) option" where
  "pup_color_sensor_color pdev surface sc s =
     (let cmd = (if surface then RP_CMD_ID_COL_COL else RP_CMD_ID_COL_COL_SUR_OFF)
      in as_result hsv_of (DELAYED_SENSOR_COMMON 4 cmd pdev sc s))"

definition pup_color_sensor_rgb ::
  "nat option \<Rightarrow> sched \<Rightarrow> rp \<Rightarrow> (pup_color_rgb \<times> sched \<times> rp) option" where
  "pup_color_sensor_rgb pdev sc s =
     as_result rgb_of (DELAYED_SENSOR_COMMON 6 RP_CMD_ID_COL_RGB pdev sc s)"

definition pup_color_sensor_hsv ::
  "nat option \<Rightarrow> bool \<Rightarrow> sched \<Rightarrow> rp \<Rightarrow> (pup_color_hsv \<times> sched \<times> rp) option" where
  "pup_color_sensor_hsv pdev surface sc s =
     (let cmd = (if surface then RP_CMD_ID_COL_HSV else RP_CMD_ID_COL_HSV_SUR_OFF)
      in as_result hsv_of (DELAYED_SENSOR_COMMON 4 cmd pdev sc s))"

definition pup_color_sensor_reflection :: "nat option \<Rightarrow> sched \<Rightarrow> rp \<Rightarrow> (int \<times> sched \<times> rp) option" where
  "pup_color_sensor_reflection pdev sc s =
     as_result i32_of (DELAYED_SENSOR_COMMON 4 RP_CMD_ID_COL_REF pdev sc s)"

definition pup_color_sensor_ambient :: "nat option \<Rightarrow> sched \<Rightarrow> rp \<Rightarrow> (int \<times> sched \<times> rp) option" where
  "pup_color_sensor_ambient pdev sc s =
     as_result i32_of (DELAYED_SENSOR_COMMON 4 RP_CMD_ID_COL_AMB pdev sc s)"

definition pup_color_sensor_light_set ::
  "nat option \<Rightarrow> i32 \<Rightarrow> i32 \<Rightarrow> i32 \<Rightarrow> sched \<Rightarrow> rp \<Rightarrow> pbio_error \<times> sched \<times> rp" where
  "pup_color_sensor_light_set pdev bv1 bv2 bv3 sc s =
     (case pdev of None \<Rightarrow> (PBIO_ERROR_INVALID_ARG, sc, s)
      | Some i \<Rightarrow>
          let data = concat (map le32 [bv1, bv2, bv3]);
              (result, sc1, s1) =
                raspike_request (pdev_port i s) RP_CMD_ID_COL_LIGHT_SET (Some data) 12 1000 sc s
          in (color_result_to_pbio result, sc1, s1))"

text \<open>A command without an answer, as the lights use it.\<close>

definition send_light :: "nat option \<Rightarrow> byte \<Rightarrow> byte list option \<Rightarrow> int \<Rightarrow> rp \<Rightarrow> pbio_error \<times> rp" where
  "send_light pdev cmd data n s =
     (case pdev of None \<Rightarrow> (PBIO_ERROR_INVALID_ARG, s)
      | Some i \<Rightarrow> sent_to_pbio (raspike_prot_send_priority (pdev_port i s) cmd data n s))"

definition pup_color_sensor_light_on :: "nat option \<Rightarrow> rp \<Rightarrow> pbio_error \<times> rp" where
  "pup_color_sensor_light_on pdev = send_light pdev RP_CMD_ID_COL_LIGHT_ON None 0"

definition pup_color_sensor_light_off :: "nat option \<Rightarrow> rp \<Rightarrow> pbio_error \<times> rp" where
  "pup_color_sensor_light_off pdev = send_light pdev RP_CMD_ID_COL_LIGHT_OFF None 0"

definition pup_color_sensor_detectable_colors ::
  "int \<Rightarrow> pup_color_hsv list option \<Rightarrow> pup_color_hsv list option" where
  "pup_color_sensor_detectable_colors n colors = None"

subsection \<open>The ultrasonic sensor\<close>

definition pup_ultrasonic_sensor_get_device :: "byte \<Rightarrow> sched \<Rightarrow> rp \<Rightarrow> nat option \<times> sched \<times> rp" where
  "pup_ultrasonic_sensor_get_device port = GET_DEVICE_COMMON RP_CMD_TYPE_US port"

definition pup_ultrasonic_sensor_distance :: "nat option \<Rightarrow> sched \<Rightarrow> rp \<Rightarrow> (int \<times> sched \<times> rp) option" where
  "pup_ultrasonic_sensor_distance pdev sc s =
     as_result i32_of (GET_AND_RET_SENSOR_COMMON 4 RP_US_INDEX_DISTANCE pdev sc s)"

definition pup_ultrasonic_sensor_presence :: "nat option \<Rightarrow> sched \<Rightarrow> rp \<Rightarrow> (bool \<times> sched \<times> rp) option" where
  "pup_ultrasonic_sensor_presence pdev sc s =
     as_result bool_of (GET_AND_RET_SENSOR_COMMON 1 RP_US_INDEX_PRESENCE pdev sc s)"

definition pup_ultrasonic_sensor_light_set ::
  "nat option \<Rightarrow> i32 \<Rightarrow> i32 \<Rightarrow> i32 \<Rightarrow> i32 \<Rightarrow> rp \<Rightarrow> pbio_error \<times> rp" where
  "pup_ultrasonic_sensor_light_set pdev bv1 bv2 bv3 bv4 s =
     (let data = replicate 16 0;
          data = poke RP_US_LGT_SET_INDEX_BV1 (le32 bv1) data;
          data = poke RP_US_LGT_SET_INDEX_BV2 (le32 bv2) data;
          data = poke RP_US_LGT_SET_INDEX_BV3 (le32 bv3) data;
          data = poke RP_US_LGT_SET_INDEX_BV4 (le32 bv4) data
      in send_light pdev RP_CMD_ID_US_LGT_SET (Some data) 16 s)"

definition pup_ultrasonic_sensor_light_on :: "nat option \<Rightarrow> rp \<Rightarrow> pbio_error \<times> rp" where
  "pup_ultrasonic_sensor_light_on pdev = send_light pdev RP_CMD_ID_US_LGT_ON None 0"

definition pup_ultrasonic_sensor_light_off :: "nat option \<Rightarrow> rp \<Rightarrow> pbio_error \<times> rp" where
  "pup_ultrasonic_sensor_light_off pdev = send_light pdev RP_CMD_ID_US_LGT_OFF None 0"

subsection \<open>The force sensor\<close>

text \<open>
  The comparison of two \<^verbatim>\<open>float\<close>s on their bits, as IEEE 754 has it: nothing compares with a
  NaN, otherwise sign and magnitude order the values, the two zeros being equal.
\<close>

definition float_is_nan :: "float_bits \<Rightarrow> bool" where
  "float_is_nan x \<longleftrightarrow> 0x7F800000 < x AND 0x7FFFFFFF"

definition float_order :: "float_bits \<Rightarrow> int" where
  "float_order x = (if bit x 31 then - uint (x AND 0x7FFFFFFF) else uint (x AND 0x7FFFFFFF))"

definition float_ge :: "float_bits \<Rightarrow> float_bits \<Rightarrow> bool" where
  "float_ge x y \<longleftrightarrow> \<not> float_is_nan x \<and> \<not> float_is_nan y \<and> float_order y \<le> float_order x"

definition float_of :: "byte list \<Rightarrow> float_bits" where
  "float_of bs = rp_v2_get_u32 bs 0"

definition pup_force_sensor_get_device :: "byte \<Rightarrow> sched \<Rightarrow> rp \<Rightarrow> nat option \<times> sched \<times> rp" where
  "pup_force_sensor_get_device port = GET_DEVICE_COMMON RP_CMD_TYPE_FORCE port"

definition pup_force_sensor_force :: "nat option \<Rightarrow> sched \<Rightarrow> rp \<Rightarrow> (float_bits \<times> sched \<times> rp) option" where
  "pup_force_sensor_force pdev sc s =
     as_result float_of (GET_AND_RET_SENSOR_COMMON 4 RP_FORCESENSOR_INDEX_FRC pdev sc s)"

definition pup_force_sensor_distance :: "nat option \<Rightarrow> sched \<Rightarrow> rp \<Rightarrow> (float_bits \<times> sched \<times> rp) option" where
  "pup_force_sensor_distance pdev sc s =
     as_result float_of (GET_AND_RET_SENSOR_COMMON 4 RP_FORCESENSOR_INDEX_DST pdev sc s)"

definition pup_force_sensor_pressed ::
  "nat option \<Rightarrow> float_bits \<Rightarrow> sched \<Rightarrow> rp \<Rightarrow> (bool \<times> sched \<times> rp) option" where
  "pup_force_sensor_pressed pdev force sc s =
     map_option (\<lambda>(f, sc', s'). (float_ge f force, sc', s')) (pup_force_sensor_force pdev sc s)"

definition pup_force_sensor_touched :: "nat option \<Rightarrow> sched \<Rightarrow> rp \<Rightarrow> (bool \<times> sched \<times> rp) option" where
  "pup_force_sensor_touched pdev sc s =
     as_result bool_of (GET_AND_RET_SENSOR_COMMON 1 RP_FORCESENSOR_INDEX_TCH pdev sc s)"

end
