(* ===== verification/Hub.thy ===== *)
theory Hub
  imports Devices
begin

section \<open>The hub (\<^verbatim>\<open>src/raspike_hub.c\<close>)\<close>

text \<open>
  Battery, buttons, display, inertial unit, light, speaker and the system calls. Pointers are
  options; a text is the bytes of its memory, up to and without the terminating zero or longer.
\<close>

definition RP_SOFT_RESET_MAGIC :: u32 where [simp]: "RP_SOFT_RESET_MAGIC = 0x52535431"
definition RP_UPDATE_MODE_MAGIC :: u32 where [simp]: "RP_UPDATE_MODE_MAGIC = 0x55504431"
definition RP_HUB_DISP_PIX_INDEX_ROW :: nat where [simp]: "RP_HUB_DISP_PIX_INDEX_ROW = 0"
definition RP_HUB_DISP_PIX_INDEX_COL :: nat where [simp]: "RP_HUB_DISP_PIX_INDEX_COL = 1"
definition RP_HUB_DISP_PIX_INDEX_BRT :: nat where [simp]: "RP_HUB_DISP_PIX_INDEX_BRT = 2"
definition RP_HUB_DISP_TXT_INDEX_ON :: nat where [simp]: "RP_HUB_DISP_TXT_INDEX_ON = 0"
definition RP_HUB_DISP_TXT_INDEX_OFF :: nat where [simp]: "RP_HUB_DISP_TXT_INDEX_OFF = 4"
definition RP_HUB_DISP_TXT_INDEX_TXT :: nat where [simp]: "RP_HUB_DISP_TXT_INDEX_TXT = 8"
definition RP_HUB_DISP_TXT_SCR_INDEX_DLY :: nat where [simp]: "RP_HUB_DISP_TXT_SCR_INDEX_DLY = 0"
definition RP_HUB_DISP_TXT_SCR_INDEX_TXT :: nat where [simp]: "RP_HUB_DISP_TXT_SCR_INDEX_TXT = 4"
definition RP_HUB_SPK_PLY_TON_INDEX_DUR :: nat where [simp]: "RP_HUB_SPK_PLY_TON_INDEX_DUR = 0"
definition RP_HUB_SPK_PLY_TON_INDEX_FRQ :: nat where [simp]: "RP_HUB_SPK_PLY_TON_INDEX_FRQ = 4"
definition SOUND_MANUAL_STOP :: i32 where [simp]: "SOUND_MANUAL_STOP = -1"

subsection \<open>Reading the status\<close>

definition read_status_snapshot :: "sched \<Rightarrow> rp \<Rightarrow> (int \<times> spike_status \<times> sched \<times> rp) option" where
  "read_status_snapshot sc s =
     (if fgStatus s = None then Some (- ENOTCONN, zero_status, sc, s)
      else let (sc1, s1) = others_run sc s in do {
        st \<leftarrow> fgStatus s1;
        Some (0, st, sc1, s1)
      })"

text \<open>A getter: the field when there is a status, the default otherwise.\<close>

definition from_snapshot ::
  "(spike_status \<Rightarrow> 'a) \<Rightarrow> 'a \<Rightarrow> sched \<Rightarrow> rp \<Rightarrow> ('a \<times> sched \<times> rp) option" where
  "from_snapshot f otherwise sc s =
     map_option (\<lambda>(r, st, sc', s'). (if r = 0 then f st else otherwise, sc', s'))
       (read_status_snapshot sc s)"

definition hub_battery_get_voltage :: "sched \<Rightarrow> rp \<Rightarrow> (u16 \<times> sched \<times> rp) option" where
  "hub_battery_get_voltage = from_snapshot voltage 0"

definition hub_battery_get_current :: "sched \<Rightarrow> rp \<Rightarrow> (u16 \<times> sched \<times> rp) option" where
  "hub_battery_get_current = from_snapshot current 0"

text \<open>The flag is whether the caller passed a pointer, the second result what is stored there.\<close>

definition hub_button_is_pressed ::
  "bool \<Rightarrow> sched \<Rightarrow> rp \<Rightarrow> (pbio_error \<times> u32 option \<times> sched \<times> rp) option" where
  "hub_button_is_pressed pressed sc s =
     (if \<not> pressed then Some (PBIO_ERROR_INVALID_ARG, None, sc, s)
      else map_option (\<lambda>(r, st, sc', s').
        if r \<noteq> 0 then (PBIO_ERROR_NO_DEV, Some 0, sc', s')
        else (PBIO_SUCCESS, Some (button st), sc', s')) (read_status_snapshot sc s))"

definition hub_imu_init :: pbio_error where
  "hub_imu_init = PBIO_SUCCESS"

definition hub_imu_get_acceleration ::
  "bool \<Rightarrow> sched \<Rightarrow> rp \<Rightarrow> (float_bits list option \<times> sched \<times> rp) option" where
  "hub_imu_get_acceleration accel sc s =
     (if \<not> accel then Some (None, sc, s)
      else from_snapshot (\<lambda>st. Some (acceleration st)) (Some (replicate 3 0)) sc s)"

definition hub_imu_get_angular_velocity ::
  "bool \<Rightarrow> sched \<Rightarrow> rp \<Rightarrow> (float_bits list option \<times> sched \<times> rp) option" where
  "hub_imu_get_angular_velocity out sc s =
     (if \<not> out then Some (None, sc, s)
      else from_snapshot (\<lambda>st. Some (angular_velocity st)) (Some (replicate 3 0)) sc s)"

definition hub_imu_get_temperature :: float_bits where
  "hub_imu_get_temperature = 0"

definition hub_imu_is_ready :: "sched \<Rightarrow> rp \<Rightarrow> (bool \<times> sched \<times> rp) option" where
  "hub_imu_is_ready = from_snapshot (\<lambda>st. is_ready st \<noteq> 0) False"

definition hub_imu_is_stationary :: "sched \<Rightarrow> rp \<Rightarrow> (bool \<times> sched \<times> rp) option" where
  "hub_imu_is_stationary = from_snapshot (\<lambda>st. is_statinary st \<noteq> 0) False"

definition hub_imu_get_heading :: "sched \<Rightarrow> rp \<Rightarrow> (float_bits \<times> sched \<times> rp) option" where
  "hub_imu_get_heading = from_snapshot heading 0"

subsection \<open>Commands\<close>

definition send_hub_command :: "byte \<Rightarrow> byte list option \<Rightarrow> nat \<Rightarrow> rp \<Rightarrow> pbio_error \<times> rp" where
  "send_hub_command command data n s =
     (if n > RP_V2_MAX_PAYLOAD then (PBIO_ERROR_INVALID_ARG, s)
      else let (result, s') = raspike_prot_send_priority RP_PORT_NONE command data (int n) s
           in (if result \<ge> 0 then PBIO_SUCCESS
               else if result = - EINVAL then PBIO_ERROR_INVALID_ARG
               else if result = - ENOTCONN then PBIO_ERROR_NO_DEV
               else PBIO_ERROR_IO, s'))"

definition hub_display_orientation :: "byte \<Rightarrow> rp \<Rightarrow> pbio_error \<times> rp" where
  "hub_display_orientation up = send_hub_command RP_CMD_ID_HUB_DISP_ORI (Some [up]) 1"

definition hub_display_off :: "rp \<Rightarrow> pbio_error \<times> rp" where
  "hub_display_off = send_hub_command RP_CMD_ID_HUB_DISP_OFF None 0"

definition hub_display_pixel :: "byte \<Rightarrow> byte \<Rightarrow> byte \<Rightarrow> rp \<Rightarrow> pbio_error \<times> rp" where
  "hub_display_pixel row column brightness =
     send_hub_command RP_CMD_ID_HUB_DISP_PIX (Some [row, column, brightness]) 3"

definition hub_display_image :: "byte list option \<Rightarrow> rp \<Rightarrow> pbio_error \<times> rp" where
  "hub_display_image picture s =
     (if picture = None then (PBIO_ERROR_INVALID_ARG, s)
      else send_hub_command RP_CMD_ID_HUB_DISP_IMG picture 25 s)"

definition hub_display_number :: "byte \<Rightarrow> rp \<Rightarrow> pbio_error \<times> rp" where
  "hub_display_number num = send_hub_command RP_CMD_ID_HUB_DISP_NUM (Some [num]) 1"

definition hub_display_char :: "byte \<Rightarrow> rp \<Rightarrow> pbio_error \<times> rp" where
  "hub_display_char c = send_hub_command RP_CMD_ID_HUB_DISP_CHR (Some [c]) 1"

definition strnlen :: "byte list \<Rightarrow> nat \<Rightarrow> nat" where
  "strnlen text n = min n (length (takeWhile (\<lambda>b. b \<noteq> 0) text))"

definition hub_display_text :: "byte list option \<Rightarrow> u32 \<Rightarrow> u32 \<Rightarrow> rp \<Rightarrow> pbio_error \<times> rp" where
  "hub_display_text text on off s =
     (case text of None \<Rightarrow> (PBIO_ERROR_INVALID_ARG, s)
      | Some txt \<Rightarrow>
          let prefix = RP_HUB_DISP_TXT_INDEX_TXT;
              data = replicate RP_V2_MAX_PAYLOAD 0;
              max_chars = RP_V2_MAX_PAYLOAD - prefix - 1;
              text_length = strnlen txt (max_chars + 1) in
          if text_length > max_chars then (PBIO_ERROR_INVALID_ARG, s)
          else
            let data = poke RP_HUB_DISP_TXT_INDEX_ON (le32 on) data;
                data = poke RP_HUB_DISP_TXT_INDEX_OFF (le32 off) data;
                data = poke prefix (take text_length txt) data;
                data = data[prefix + text_length := 0]
            in send_hub_command RP_CMD_ID_HUB_DISP_TXT (Some data) (prefix + text_length + 1) s)"

definition hub_display_text_scroll :: "byte list option \<Rightarrow> u32 \<Rightarrow> rp \<Rightarrow> pbio_error \<times> rp" where
  "hub_display_text_scroll text delay s =
     (case text of None \<Rightarrow> (PBIO_ERROR_INVALID_ARG, s)
      | Some txt \<Rightarrow>
          let prefix = RP_HUB_DISP_TXT_SCR_INDEX_TXT;
              data = replicate RP_V2_MAX_PAYLOAD 0;
              max_chars = RP_V2_MAX_PAYLOAD - prefix - 1;
              text_length = strnlen txt (max_chars + 1) in
          if text_length > max_chars then (PBIO_ERROR_INVALID_ARG, s)
          else
            let data = poke RP_HUB_DISP_TXT_SCR_INDEX_DLY (le32 delay) data;
                data = poke prefix (take text_length txt) data;
                data = data[prefix + text_length := 0]
            in send_hub_command RP_CMD_ID_HUB_DISP_TXT_SCR (Some data) (prefix + text_length + 1) s)"

definition hub_imu_set_tilt :: "float_bits \<Rightarrow> rp \<Rightarrow> rp" where
  "hub_imu_set_tilt angle s = snd (send_hub_command RP_CMD_ID_HUB_IMU_SET_TLT (Some (le32 angle)) 4 s)"

definition hub_imu_reset_heading :: "rp \<Rightarrow> rp" where
  "hub_imu_reset_heading s = snd (send_hub_command RP_CMD_ID_HUB_IMU_RST_HDG None 0 s)"

definition hub_light_on_hsv :: "pup_color_hsv option \<Rightarrow> rp \<Rightarrow> pbio_error \<times> rp" where
  "hub_light_on_hsv hsv s =
     (case hsv of None \<Rightarrow> (PBIO_ERROR_INVALID_ARG, s)
      | Some c \<Rightarrow> send_hub_command RP_CMD_ID_HUB_LGT_ON_HSV
          (Some (le16 (hsv_h c) @ [hsv_s c, hsv_v c])) 4 s)"

definition hub_light_on_color :: "u32 \<Rightarrow> rp \<Rightarrow> pbio_error \<times> rp" where
  "hub_light_on_color color = send_hub_command RP_CMD_ID_HUB_LGT_ON_COL (Some (le32 color)) 4"

definition hub_light_off :: "rp \<Rightarrow> pbio_error \<times> rp" where
  "hub_light_off = send_hub_command RP_CMD_ID_HUB_LGT_OFF None 0"

definition hub_speaker_set_volume :: "byte \<Rightarrow> rp \<Rightarrow> rp" where
  "hub_speaker_set_volume volume s =
     (let volume = (if volume > 100 then 100 else volume)
      in snd (send_hub_command RP_CMD_ID_HUB_SPK_SET_VOL (Some [volume]) 1 s))"

definition hub_speaker_stop :: "rp \<Rightarrow> rp" where
  "hub_speaker_stop s = snd (send_hub_command RP_CMD_ID_HUB_SPK_STP None 0 s)"

text \<open>The sleep is taken up again with the time that was left when a signal ended it.\<close>

function sleep_all :: "timespec \<Rightarrow> os \<Rightarrow> os" where
  "sleep_all request w =
     (let (ret, remaining, w') = sys_nanosleep request w
      in if ret \<noteq> 0 \<and> os_errno w' = EINTR then sleep_all remaining w' else w')"
  by pat_completeness auto
termination
  by (relation "measure (\<lambda>(r, w). length (os_sleeps w))")
    (auto simp: sys_nanosleep_def Let_def split: list.splits sleep_answer.splits)

declare sleep_all.simps [simp del]

definition hub_speaker_play_tone :: "u16 \<Rightarrow> i32 \<Rightarrow> rp \<Rightarrow> rp" where
  "hub_speaker_play_tone frequency duration s =
     (let data = replicate 6 0;
          remote_duration = SOUND_MANUAL_STOP;
          data = poke RP_HUB_SPK_PLY_TON_INDEX_DUR (le32 remote_duration) data;
          data = poke RP_HUB_SPK_PLY_TON_INDEX_FRQ (le16 frequency) data;
          (sent, s1) = send_hub_command RP_CMD_ID_HUB_SPK_PLY_TON (Some data) 6 s in
      if sent \<noteq> PBIO_SUCCESS then s1
      else if sint duration \<ge> 0 then
        let request = \<lparr>tv_sec = c_div (sint duration) 1000,
                       tv_nsec = c_mod (sint duration) 1000 * 1000000\<rparr>
        in hub_speaker_stop (snd (on_os (\<lambda>w. ((), sleep_all request w)) s1))
      else s1)"

subsection \<open>System\<close>

definition hub_system_restart :: "sched \<Rightarrow> rp \<Rightarrow> sched \<times> rp" where
  "hub_system_restart sc s =
     snd (raspike_request RP_PORT_NONE RP_CMD_ID_SOFT_RST (Some (le32 RP_SOFT_RESET_MAGIC)) 4 2000 sc s)"

definition hub_system_enter_update_mode :: "sched \<Rightarrow> rp \<Rightarrow> sched \<times> rp" where
  "hub_system_enter_update_mode sc s =
     snd (raspike_request RP_PORT_NONE RP_CMD_ID_UPDATE_MODE (Some (le32 RP_UPDATE_MODE_MAGIC)) 4 2000 sc s)"

definition hub_system_shutdown :: "(rp \<Rightarrow> rp) list \<Rightarrow> rp \<Rightarrow> (com_desc option \<times> rp) option" where
  "hub_system_shutdown others s =
     (let (_, s1) = send_hub_command RP_CMD_ID_SHT_DWN None 0 s
      in map_option snd (raspike_prot_shutdown others s1))"

end
