(* ===== verification/Dispatch_Properties.thy ===== *)
theory Dispatch_Properties
  imports Receive Instances
begin

section \<open>Properties of reception\<close>

text \<open>
  What a receive does with the bytes that come in: it keeps the link up, takes whole valid frames
  off the stream in order, drops damaged ones, and lets through only what belongs to the session
  and to a request that is waiting.
\<close>

subsection \<open>A link on which frames arrive\<close>

lemma demo_link_linked: "linked (demo_link reads writes)"
  by (simp add: linked_def)

lemma demo_link_listening:
  assumes "\<forall>a \<in> set reads. \<exists>bs. a = ReadBytes bs \<and> bs \<noteq> []" "length (rx_bytes reads) \<le> 200"
  shows "listening (demo_link reads writes)"
proof -
  have "prompt (com_os (rp_com (demo_link reads writes)))"
    using assms by (auto simp: prompt_def demo_link_def demo_start_def demo_com_def demo_os_def idle_os_def)
  moreover have "usable (fgDesc (demo_link reads writes))" by (simp add: usable_def demo_desc_def)
  ultimately show ?thesis by (simp add: listening_def ready_def demo_link_linked)
qed

lemma demo_link_upcoming: "upcoming_bytes (demo_link reads writes) = rx_bytes reads"
  by (simp add: upcoming_bytes_def incoming_def demo_link_def demo_start_def demo_com_def demo_os_def)

subsection \<open>The stream\<close>

text \<open>C12. On a link that is up a receive never follows a missing status: it returns, keeps the link
  up with a well-formed status, reports no positive result, and leaves as many receivers inside as
  it found, whatever bytes come.\<close>

theorem receive_keeps_link:
  assumes "linked s"
  shows "\<exists>r s'. raspike_prot_receive s = Some (r, s') \<and> linked s' \<and> r \<le> 0 \<and>
    fgActiveReceivers s' = fgActiveReceivers s \<and> fgDesc s' = fgDesc s \<and>
    fgNextSequence s' = fgNextSequence s"
  using prot_receive_up [OF assms] receive_step_fields unfolding stays_up_def by blast

theorem receive_keeps_link_witness:
  "\<exists>r s'. raspike_prot_receive (demo_link [ReadBytes [0xEB, 1, 2], ReadFail EIO] []) = Some (r, s') \<and>
    linked s' \<and> r \<le> 0 \<and>
    fgActiveReceivers s' = fgActiveReceivers (demo_link [ReadBytes [0xEB, 1, 2], ReadFail EIO] []) \<and>
    fgDesc s' = fgDesc (demo_link [ReadBytes [0xEB, 1, 2], ReadFail EIO] []) \<and>
    fgNextSequence s' = fgNextSequence (demo_link [ReadBytes [0xEB, 1, 2], ReadFail EIO] [])"
  by (rule receive_keeps_link [OF demo_link_linked])

text \<open>C1. Receiving implements delivering: as many receives as there are valid frames on the stream
  have the effect, on everything but the link below, of handing the messages to the dispatcher one
  by one in order, with the same results, and leave the stream just after the last frame, however
  the bytes are cut into chunks.\<close>

theorem receive_refines_deliver:
  assumes "listening s" "list_all v2_valid ms"
    and "upcoming_bytes s = concat (map v2_frame_bytes ms) @ rest"
  shows "\<exists>c rs s'. deliver_all ms s = Some (rs, s') \<and>
    receive_times (length ms) s = Some (rs, with_com c s') \<and> incoming c = rest"
  by (rule receive_stream [OF assms])

definition demo_message :: "byte \<Rightarrow> byte \<Rightarrow> u32 \<Rightarrow> byte list \<Rightarrow> v2_message" where
  "demo_message port cmd sequence payload = \<lparr>m_port = port, m_cmd = cmd, m_flags = 0,
     m_sequence = sequence, m_session = 10000, m_payload = payload\<rparr>"

lemma demo_message_valid [simp]: "length payload \<le> 240 \<Longrightarrow> v2_valid (demo_message p c q payload)"
  by (simp add: v2_valid_def demo_message_def)

lemma demo_message_length [simp]:
  "length (v2_frame_bytes (demo_message p c q payload)) = 16 + length payload"
  by (simp add: length_v2_frame_bytes demo_message_def)

lemma demo_frame_nonempty [simp]: "v2_frame_bytes (demo_message p c q payload) \<noteq> []"
  by (simp add: v2_frame_bytes_def)

theorem receive_refines_deliver_witness:
  "\<exists>c rs s'. deliver_all [demo_message 255 0x0A 0 [], demo_message 1 0x0A 0 [7]]
      (demo_link [ReadBytes (v2_frame_bytes (demo_message 255 0x0A 0 [])),
        ReadBytes (v2_frame_bytes (demo_message 1 0x0A 0 [7]) @ [0xEB])] []) = Some (rs, s') \<and>
    receive_times (length [demo_message 255 0x0A 0 [], demo_message 1 0x0A 0 [7]])
      (demo_link [ReadBytes (v2_frame_bytes (demo_message 255 0x0A 0 [])),
        ReadBytes (v2_frame_bytes (demo_message 1 0x0A 0 [7]) @ [0xEB])] []) = Some (rs, with_com c s') \<and>
    incoming c = [0xEB]"
  by (rule receive_refines_deliver, rule demo_link_listening)
    (simp_all add: demo_link_upcoming)

lemma receive_v2_start:
  assumes "listening s" "upcoming_bytes s = RP_V2_START # bs"
  obtains s2 where "ready s2" "upcoming_bytes s2 = bs"
    "same_but_com (s\<lparr>fgActiveReceivers := fgActiveReceivers s + 1\<rparr>) s2"
    "raspike_prot_receive s = do {
      (result, s3) \<leftarrow> receive_v2_frame s2;
      Some (result, (if result = 0 \<or> result = - ENOMSG \<or> result = - ESTALE
        then stats_increment rx_frames_update s3 else s3)
        \<lparr>fgActiveReceivers := fgActiveReceivers
          (if result = 0 \<or> result = - ENOMSG \<or> result = - ESTALE
           then stats_increment rx_frames_update s3 else s3) - 1\<rparr>)
    }"
proof -
  define s1 where "s1 = s\<lparr>fgActiveReceivers := fgActiveReceivers s + 1\<rparr>"
  have s1: "ready s1" "upcoming_bytes s1 = RP_V2_START # bs"
    using assms by (simp_all add: s1_def listening_def ready_def upcoming_bytes_def)
  obtain s2 where s2: "com_receive 1 500 s1 = (1, [RP_V2_START], s2)" "ready s2" "same_but_com s1 s2"
      "upcoming_bytes s2 = bs"
    using ready_receive [OF s1(1), of 1 500] s1(2) by (auto simp: One_nat_def)
  have "raspike_prot_receive s = do {
      (result, s3) \<leftarrow> receive_v2_frame s2;
      Some (result, (if result = 0 \<or> result = - ENOMSG \<or> result = - ESTALE
        then stats_increment rx_frames_update s3 else s3)
        \<lparr>fgActiveReceivers := fgActiveReceivers
          (if result = 0 \<or> result = - ENOMSG \<or> result = - ESTALE
           then stats_increment rx_frames_update s3 else s3) - 1\<rparr>)
    }"
    using s2(1) assms(1)
    by (auto simp: raspike_prot_receive_whole s1_def [symmetric] Let_def listening_def linked_def)
  with s2 that show ?thesis by (simp add: s1_def)
qed

text \<open>C13. A frame in which one byte was changed, but neither the start byte nor the version nor the size
  (where the receive fails otherwise, or loses its place in the stream), is read to its end and
  dropped: the receive reports \<open>-EBADMSG\<close>, counts one CRC error, changes nothing else but the link
  below, and the next receive starts at the next frame.\<close>

theorem damaged_frame_dropped:
  assumes "listening s" "v2_valid m" "6 \<le> i \<or> i \<in> {2, 3, 4}" "i < length (v2_frame_bytes m)"
    and "b \<noteq> v2_frame_bytes m ! i" "upcoming_bytes s = (v2_frame_bytes m)[i := b] @ rest"
  shows "\<exists>c. raspike_prot_receive s = Some (- EBADMSG, stats_increment crc_errors_update (with_com c s)) \<and>
    incoming c = rest"
proof -
  have "i \<noteq> 0" using assms(3) by auto
  then have "upcoming_bytes s = RP_V2_START # tl ((v2_frame_bytes m)[i := b]) @ rest"
    using assms(6) by (cases i) (simp_all add: v2_frame_bytes_def)
  from receive_v2_start [OF assms(1) this] obtain s2 where s2: "ready s2"
    "upcoming_bytes s2 = tl ((v2_frame_bytes m)[i := b]) @ rest"
    "same_but_com (s\<lparr>fgActiveReceivers := fgActiveReceivers s + 1\<rparr>) s2"
    and rcv: "raspike_prot_receive s = do {
      (result, s3) \<leftarrow> receive_v2_frame s2;
      Some (result, (if result = 0 \<or> result = - ENOMSG \<or> result = - ESTALE
        then stats_increment rx_frames_update s3 else s3)
        \<lparr>fgActiveReceivers := fgActiveReceivers
          (if result = 0 \<or> result = - ENOMSG \<or> result = - ESTALE
           then stats_increment rx_frames_update s3 else s3) - 1\<rparr>)
    }" .
  have "RP_V2_START # upcoming_bytes s2 = (v2_frame_bytes m)[i := b] @ rest"
    using s2(2) \<open>i \<noteq> 0\<close> by (cases i) (simp_all add: v2_frame_bytes_def)
  from receive_damaged [OF s2(1) assms(2-5) this] obtain s3 where
    s3: "same_but_com s2 s3" "upcoming_bytes s3 = rest"
      "receive_v2_frame s2 = Some (- EBADMSG, stats_increment crc_errors_update s3)" by blast
  define c where "c = rp_com s3"
  have "s3 = (with_com c s)\<lparr>fgActiveReceivers := fgActiveReceivers s + 1\<rparr>"
    using same_but_com_trans [OF s2(3) s3(1)]
    by (cases s, cases s3, simp add: same_but_com_with c_def with_com_def)
  then have "raspike_prot_receive s = Some (- EBADMSG, stats_increment crc_errors_update (with_com c s))"
    by (simp add: rcv s3(3) stats_increment_def with_com_def)
  moreover have "incoming c = rest" using s3(2) by (simp add: c_def upcoming_bytes_def)
  ultimately show ?thesis by blast
qed

theorem damaged_frame_dropped_witness:
  "\<exists>c. raspike_prot_receive (demo_link [ReadBytes ((v2_frame_bytes (demo_message 1 0x0A 0 [7]))[14 := 8] @ [9])] []) =
      Some (- EBADMSG, stats_increment crc_errors_update (with_com c
        (demo_link [ReadBytes ((v2_frame_bytes (demo_message 1 0x0A 0 [7]))[14 := 8] @ [9])] []))) \<and>
    incoming c = [9]"
  by (rule damaged_frame_dropped [where m = "demo_message 1 0x0A 0 [7]" and i = 14 and b = 8],
      rule demo_link_listening)
    (simp_all add: demo_link_upcoming, simp_all add: v2_frame_bytes_def v2_body_def demo_message_def le32_def)

subsection \<open>Sessions and requests\<close>

text \<open>C11. No dispatched message ends a waiting request but these two: an acknowledgement for its own port,
  with its own sequence number, in the current session, whose values it then has; or a hello that
  starts a new session, and then it is canceled with \<open>-ESTALE\<close>. (What ends it without a message is
  its own thread, by a time-out or a failed send, or a shutdown, C9.)\<close>

theorem pending_ends_only:
  assumes "linked s" "dispatch_message m s = Some (r, s')" "i < RP_PORT_NUMBER"
    and "pending (gPortDevices s ! i)" "\<not> pending (gPortDevices s' ! i)"
  shows "(m_cmd m = RP_CMD_ID_ACK \<and> getDevice (m_port m) = Some i \<and> m_session m = fgSessionId s \<and>
      m_sequence m = pending_sequence (gPortDevices s ! i) \<and> length (m_payload m) = 8 \<and> r = 0 \<and>
      0 \<le> ack_cmd (gPortDevices s' ! i) \<and>
      ack_cmd (gPortDevices s' ! i) = sint (rp_v2_get_u32 (m_payload m) 0) \<and>
      ack_data (gPortDevices s' ! i) = sint (rp_v2_get_u32 (m_payload m) 4)) \<or>
    (m_cmd m = RP_CMD_ID_LINK_HELLO \<and> length (m_payload m) = RP_V2_HELLO_PAYLOAD_SIZE \<and>
      fgSessionId s' = rp_v2_get_u32 (m_payload m) 4 \<and> fgSessionId s' \<noteq> fgSessionId s \<and> fgSessionId s' \<noteq> 0 \<and>
      ack_cmd (gPortDevices s' ! i) = -1 \<and> ack_data (gPortDevices s' ! i) = - ESTALE)"
proof -
  have len: "length (gPortDevices s) = 7" and V2: "fgUseProtocolV2 s" using assms(1) by (simp_all add: linked_def)
  obtain ra sa where ack: "process_ack (m_port m) (m_sequence m) (m_session m) (m_payload m) s = (ra, sa)"
    by (cases "process_ack (m_port m) (m_sequence m) (m_session m) (m_payload m) s")
  consider "m_cmd m = RP_CMD_ID_LINK_HELLO" "s' = process_hello_payload (m_payload m) (int (length (m_payload m))) s"
    | "s' = sa" "r = ra" "m_cmd m = RP_CMD_ID_ACK" "length (m_payload m) = 8" "m_session m = fgSessionId s"
    | "gPortDevices s' = gPortDevices s"
    using assms(2) ack V2 unfolding dispatch_message_def process_command_def
    by (auto split: if_splits Option.bind_splits)
  then show ?thesis
  proof cases
    case 1
    then show ?thesis using assms(3-5) len
      by (auto simp: process_hello_payload_def Let_def reset_port_state_def cancel_pending_def split: if_splits)
  next
    case 2
    have here: "getDevice (m_port m) = Some i"
    proof (rule ccontr)
      assume "getDevice (m_port m) \<noteq> Some i"
      with 2(1) ack assms(4,5) show False
        by (auto simp: process_ack_def Let_def update_device_def split: option.splits if_splits)
    qed
    with 2 assms(3-5) len ack V2 show ?thesis
      by (auto simp: process_ack_def Let_def update_device_def split: if_splits)
  next
    case 3
    then show ?thesis using assms(4,5) by simp
  qed
qed

definition demo_waiting :: rp where
  "demo_waiting = update_device 1 (\<lambda>dev. dev\<lparr>pending := True, pending_sequence := 5\<rparr>) (demo_link [] [])"

definition demo_ack :: v2_message where
  "demo_ack = demo_message 1 RP_CMD_ID_ACK 5 (le32 0x60 @ le32 1)"

lemma demo_waiting_up: "linked demo_waiting" "pending (gPortDevices demo_waiting ! 1)"
  by (simp_all add: linked_def demo_waiting_def update_device_def)

lemma demo_ack_matches:
  "\<exists>s'. dispatch_message demo_ack demo_waiting = Some (0, s') \<and> \<not> pending (gPortDevices s' ! 1)"
proof -
  have "map_option (\<lambda>(r, s'). (r, pending (gPortDevices s' ! 1))) (dispatch_message demo_ack demo_waiting) =
    Some (0, False)" by code_simp
  then show ?thesis by auto
qed

theorem pending_ends_only_witness:
  "\<exists>s'. dispatch_message demo_ack demo_waiting = Some (0, s') \<and>
    ack_data (gPortDevices s' ! 1) = sint (rp_v2_get_u32 (m_payload demo_ack) 4)"
proof -
  obtain s' where s': "dispatch_message demo_ack demo_waiting = Some (0, s')" "\<not> pending (gPortDevices s' ! 1)"
    using demo_ack_matches by blast
  have "m_cmd demo_ack \<noteq> RP_CMD_ID_LINK_HELLO" by (simp add: demo_ack_def demo_message_def cmd_id_values)
  then show ?thesis
    using pending_ends_only [OF demo_waiting_up(1) s'(1) _ demo_waiting_up(2) s'(2)] s'(1) by auto
qed

text \<open>C15. End to end: when the bytes of a valid frame of another session arrive that is not a hello,
  whatever its command and its payload, one receive reports \<open>-ESTALE\<close> and changes nothing but the
  link below and two counters, of frames and of session errors; if it names no port it reports
  \<open>-EINVAL\<close> and counts a framing error. The next receive starts just after it. (A hello of another
  session moves the link to it, C14.)\<close>

theorem stale_session_refused:
  assumes "listening s" "v2_valid m" "upcoming_bytes s = v2_frame_bytes m @ rest"
    and "m_session m \<noteq> fgSessionId s" "m_cmd m \<noteq> RP_CMD_ID_LINK_HELLO"
  shows "\<exists>c. incoming c = rest \<and> raspike_prot_receive s = Some (if raspike_is_valid_port (m_port m)
    then (- ESTALE, stats_increment rx_frames_update (stats_increment session_errors_update (with_com c s)))
    else (- EINVAL, stats_increment framing_errors_update (with_com c s)))"
proof -
  have "fgUseProtocolV2 s" using assms(1) by (simp add: listening_def linked_def)
  then have "deliver m s = Some (if raspike_is_valid_port (m_port m)
      then (- ESTALE, stats_increment rx_frames_update (stats_increment session_errors_update s))
      else (- EINVAL, stats_increment framing_errors_update s))"
    using assms(4,5) by (simp add: deliver_def dispatch_message_def process_command_def)
  with prot_receive_frame [OF assms(1-3)] show ?thesis by (auto simp: stats_increment_com split: if_splits)
qed

definition demo_stale :: v2_message where
  "demo_stale = (demo_message 1 RP_CMD_ID_ACK 5 (le32 0x60 @ le32 1)) \<lparr>m_session := 9\<rparr>"

theorem stale_session_refused_witness:
  "\<exists>c. incoming c = [0xEB] \<and>
    raspike_prot_receive (demo_link [ReadBytes (v2_frame_bytes demo_stale @ [0xEB])] []) =
      Some (- ESTALE, stats_increment rx_frames_update (stats_increment session_errors_update
        (with_com c (demo_link [ReadBytes (v2_frame_bytes demo_stale @ [0xEB])] []))))"
proof -
  let ?s = "demo_link [ReadBytes (v2_frame_bytes demo_stale @ [0xEB])] []"
  have m: "v2_valid demo_stale" "raspike_is_valid_port (m_port demo_stale)" "m_session demo_stale \<noteq> fgSessionId ?s"
    "m_cmd demo_stale \<noteq> RP_CMD_ID_LINK_HELLO" "length (m_payload demo_stale) = 8"
    by (simp_all add: demo_stale_def v2_valid_def demo_message_def raspike_is_valid_port_def cmd_id_values)
  then have "listening ?s" by (intro demo_link_listening) (simp_all add: length_v2_frame_bytes)
  from stale_session_refused [OF this m(1) _ m(3,4), of "[0xEB]"] m(2) show ?thesis
    by (simp add: demo_link_upcoming)
qed

text \<open>C14. A hello of a new session moves the link to it: the session and the capabilities are the
  hub's, every waiting request is canceled with \<open>-ESTALE\<close>, the saved status and the telemetry of
  the old session are zeroed, and the devices keep their types and ports.\<close>

theorem session_change:
  assumes "linked s" "m_cmd m = RP_CMD_ID_LINK_HELLO" "length (m_payload m) = RP_V2_HELLO_PAYLOAD_SIZE"
    and "m_payload m ! 0 = RP_V2_VERSION" "rp_v2_get_u32 (m_payload m) 4 = session"
    and "session \<noteq> 0" "session \<noteq> fgSessionId s"
  shows "\<exists>s'. dispatch_message m s = Some (0, s') \<and> linked s' \<and> fgSessionId s' = session \<and>
    fgCapabilities s' = ucast (m_payload m ! 1) \<and> fgStatus s' = Some zero_status \<and>
    fgRuntimeTelemetry s' = zero_runtime_telemetry \<and>
    (\<forall>i < RP_PORT_NUMBER. \<not> pending (gPortDevices s' ! i) \<and>
      device (gPortDevices s' ! i) = device (gPortDevices s ! i) \<and>
      (pending (gPortDevices s ! i) \<longrightarrow>
        ack_cmd (gPortDevices s' ! i) = -1 \<and> ack_data (gPortDevices s' ! i) = - ESTALE))"
proof -
  let ?s = "process_hello_payload (m_payload m) (int (length (m_payload m))) s"
  have "dispatch_message m s = Some (0, ?s)"
    using assms(2) by (simp add: dispatch_message_def process_command_def)
  moreover have "linked ?s" by (rule process_hello_props [OF assms(1)])
  ultimately show ?thesis
    using assms
    by (auto simp: process_hello_payload_def Let_def reset_port_state_def cancel_pending_def linked_def)
qed

theorem session_change_witness:
  "\<exists>s'. dispatch_message (demo_message 255 RP_CMD_ID_LINK_HELLO 0 demo_hello) demo_waiting = Some (0, s') \<and>
    fgSessionId s' = 7 \<and> ack_data (gPortDevices s' ! 1) = - ESTALE"
proof -
  let ?m = "demo_message 255 RP_CMD_ID_LINK_HELLO 0 demo_hello"
  have m: "m_cmd ?m = RP_CMD_ID_LINK_HELLO" "length (m_payload ?m) = RP_V2_HELLO_PAYLOAD_SIZE"
    "m_payload ?m ! 0 = RP_V2_VERSION" "rp_v2_get_u32 (m_payload ?m) 4 = 7" "(7 :: u32) \<noteq> 0"
    "7 \<noteq> fgSessionId demo_waiting"
    by (simp_all add: demo_message_def demo_hello_def rp_v2_get_u32_def demo_waiting_def update_device_def)
  from session_change [OF demo_waiting_up(1) m] demo_waiting_up(2) show ?thesis by force
qed

subsection \<open>Status and telemetry\<close>

text \<open>C18. End to end: when the bytes of a status frame of the session arrive, one receive returns 0
  and the saved status is the structure the hub encoded, field by field; the frame is counted and
  the stream is just after it.\<close>

theorem status_frame_saved:
  assumes "listening s" "wf_status st" "m_cmd m = RP_CMD_ID_ALL_STATUS" "raspike_is_valid_port (m_port m)"
    and "m_session m = fgSessionId s" "m_payload m = encode_status st"
    and "upcoming_bytes s = v2_frame_bytes m @ rest"
  shows "\<exists>s'. raspike_prot_receive s = Some (0, s') \<and> fgStatus s' = Some st \<and> upcoming_bytes s' = rest \<and>
    rx_frames (fgLinkStats s') = rx_frames (fgLinkStats s) + 1 \<and> gPortDevices s' = gPortDevices s"
proof -
  have len: "length (m_payload m) = 136" using assms(2,6) by (simp add: length_encode_status)
  then have valid: "v2_valid m" by (simp add: v2_valid_def)
  have up: "fgStatus s \<noteq> None" using assms(1) by (auto simp: listening_def linked_def)
  have "dispatch_message m s = Some (0, s\<lparr>fgStatus := Some st\<rparr>)"
    using assms(2-6) up len
    by (simp add: dispatch_message_def process_command_def decode_encode_status cmd_id_values)
  then have del: "deliver m s = Some (0, stats_increment rx_frames_update (s\<lparr>fgStatus := Some st\<rparr>))"
    by (simp add: deliver_def)
  from prot_receive_frame [OF assms(1) valid assms(7)] del obtain c where
    "raspike_prot_receive s = Some (0, with_com c (stats_increment rx_frames_update (s\<lparr>fgStatus := Some st\<rparr>)))"
    "incoming c = rest" by auto
  then show ?thesis by (simp add: with_com_def stats_increment_def upcoming_bytes_def)
qed

definition demo_status :: spike_status where
  "demo_status = zero_status\<lparr>voltage := 8123, ports := (ports zero_status)
     [1 := zero_port\<lparr>ps_port := 1, ps_cmd := 0x60, ps_data := le32 (-90) @ replicate 8 0\<rparr>]\<rparr>"

lemma wf_demo_status: "wf_status demo_status"
  by (simp add: demo_status_def zero_status_def wf_status_def wf_port_status_def zero_port_def list_all_length
      nth_list_update)

definition demo_status_message :: v2_message where
  "demo_status_message = demo_message 255 RP_CMD_ID_ALL_STATUS 0 (encode_status demo_status)"

theorem status_frame_saved_witness:
  "\<exists>s'. raspike_prot_receive (demo_link [ReadBytes (v2_frame_bytes demo_status_message)] []) = Some (0, s') \<and>
    fgStatus s' = Some demo_status \<and> upcoming_bytes s' = [] \<and>
    rx_frames (fgLinkStats s') =
      rx_frames (fgLinkStats (demo_link [ReadBytes (v2_frame_bytes demo_status_message)] [])) + 1 \<and>
    gPortDevices s' = gPortDevices (demo_link [ReadBytes (v2_frame_bytes demo_status_message)] [])"
proof (rule status_frame_saved [OF _ wf_demo_status])
  show "listening (demo_link [ReadBytes (v2_frame_bytes demo_status_message)] [])"
    using wf_demo_status by (intro demo_link_listening) (simp_all add: demo_status_message_def length_encode_status)
  show "upcoming_bytes (demo_link [ReadBytes (v2_frame_bytes demo_status_message)] []) =
      v2_frame_bytes demo_status_message @ []" by (simp add: demo_link_upcoming)
qed (simp_all add: demo_status_message_def demo_message_def raspike_is_valid_port_def)

lemma drive_telemetry_saved:
  assumes "linked s" "fgStatus s = Some st" "m_cmd m = RP_CMD_ID_DRIVE_TELEMETRY"
    and "raspike_is_valid_port (m_port m)" "m_session m = fgSessionId s"
    and "m_payload m = encode_drive_telemetry t" "wf_drive_telemetry t"
  shows "\<exists>st'. dispatch_message m s = Some (0, s\<lparr>fgStatus := Some st'\<rparr>) \<and> wf_status st' \<and>
    (\<forall>i < 6. ports st' ! i = color_effect t i (slot_effect t i 1 (slot_effect t i 0 (ports st ! i)))) \<and>
    voltage st' = voltage st \<and> current st' = current st \<and> acceleration st' = acceleration st \<and>
    angular_velocity st' = angular_velocity st \<and> heading st' = heading st \<and> button st' = button st"
proof -
  have wf: "wf_status st" using assms(1,2) by (simp add: linked_def)
  let ?st = "apply_drive_telemetry t st"
  have "dispatch_message m s = Some (0, s\<lparr>fgStatus := Some ?st\<rparr>)"
    using assms by (simp add: dispatch_message_def process_command_def cmd_id_values
        length_encode_drive_telemetry decode_encode_drive_telemetry)
  then show ?thesis
    using wf_apply_drive_telemetry [OF wf] apply_drive_telemetry_nth [OF wf] drive_rest by blast
qed

text \<open>C19. Drive telemetry reaches exactly the ports it names: port by port, a valid motor slot
  replaces count, speed and power and a valid colour part the reflection, sign-extended to 32 bits,
  the later part winning where two name the same port; the rest of every port's data, the ports
  that are not named and the other fields of the status keep their values, and a port number
  beyond the six is ignored.\<close>

theorem drive_telemetry_ports:
  assumes "linked s" "fgStatus s = Some st" "m_cmd m = RP_CMD_ID_DRIVE_TELEMETRY"
    and "raspike_is_valid_port (m_port m)" "m_session m = fgSessionId s"
    and "m_payload m = encode_drive_telemetry t" "wf_drive_telemetry t"
  shows "\<exists>st'. dispatch_message m s = Some (0, s\<lparr>fgStatus := Some st'\<rparr>) \<and> wf_status st' \<and>
    (\<forall>i < 6. ports st' ! i = color_effect t i (slot_effect t i 1 (slot_effect t i 0 (ports st ! i)))) \<and>
    voltage st' = voltage st \<and> current st' = current st \<and> acceleration st' = acceleration st \<and>
    angular_velocity st' = angular_velocity st \<and> heading st' = heading st \<and> button st' = button st"
  by (rule drive_telemetry_saved [OF assms])

definition demo_telemetry :: drive_telemetry where
  "demo_telemetry = decode_drive_telemetry (replicate 32 1 @ [3, 7])"

theorem drive_telemetry_ports_witness:
  "\<exists>st'. dispatch_message (demo_message 255 RP_CMD_ID_DRIVE_TELEMETRY 0 (encode_drive_telemetry demo_telemetry))
      (demo_link [] []) = Some (0, (demo_link [] [])\<lparr>fgStatus := Some st'\<rparr>) \<and>
    ports st' ! 3 = color_effect demo_telemetry 3 (slot_effect demo_telemetry 3 1
      (slot_effect demo_telemetry 3 0 (ports zero_status ! 3)))"
proof -
  let ?m = "demo_message 255 RP_CMD_ID_DRIVE_TELEMETRY 0 (encode_drive_telemetry demo_telemetry)"
  have m: "fgStatus (demo_link [] []) = Some zero_status" "m_cmd ?m = RP_CMD_ID_DRIVE_TELEMETRY"
    "raspike_is_valid_port (m_port ?m)" "m_session ?m = fgSessionId (demo_link [] [])"
    "m_payload ?m = encode_drive_telemetry demo_telemetry" "wf_drive_telemetry demo_telemetry"
    by (simp_all add: demo_message_def raspike_is_valid_port_def demo_telemetry_def)
  from drive_telemetry_ports [OF demo_link_linked m] obtain st' where
    "dispatch_message ?m (demo_link [] []) = Some (0, (demo_link [] [])\<lparr>fgStatus := Some st'\<rparr>)"
    "\<forall>i < 6. ports st' ! i = color_effect demo_telemetry i (slot_effect demo_telemetry i 1
      (slot_effect demo_telemetry i 0 (ports zero_status ! i)))" by blast
  then show ?thesis by force
qed

end
