(* ===== verification/Link_Properties.thy ===== *)
theory Link_Properties
  imports Handshake Instances
begin

section \<open>Properties of the link\<close>

text \<open>
  The serial layer, the deadlines, and what initialisation and shutdown leave behind.
\<close>

subsection \<open>Writing and reading\<close>

text \<open>Whatever the system does, \<^verbatim>\<open>write_all_fd\<close> puts a prefix of the buffer on the line, in
  order and nothing else; its result is the length exactly when the prefix is the whole buffer, and
  an error otherwise.\<close>

lemma write_all_or_error:
  assumes "write_all_fd (Some bs) (length bs) timeout_ms w = (r, w')"
  shows "\<exists>m \<le> length bs. os_tx w' = os_tx w @ take m bs \<and>
    (r = int (length bs) \<and> m = length bs \<or> r < 0 \<and> m < length bs)"
proof -
  from write_all_fd_props [OF assms] obtain m where m: "m \<le> length bs" "os_tx w' = os_tx w @ take m bs"
    "0 \<le> r \<longrightarrow> m = length bs \<and> r = int m" "r < 0 \<longrightarrow> m < length bs" by auto
  from m(3,4) have "r = int (length bs) \<and> m = length bs \<or> r < 0 \<and> m < length bs"
    by (cases "0 \<le> r") simp_all
  with m(1,2) show ?thesis by (intro exI [of _ m]) simp
qed

lemma write_all_or_error_witness:
  "\<exists>m \<le> length [1, 2, 3 :: byte].
    os_tx (snd (write_all_fd (Some [1, 2, 3]) (length [1, 2, 3 :: byte]) 5
      (demo_os [] [WriteCount 2, WriteFail EINTR, WriteCount 9]))) =
    os_tx (demo_os [] [WriteCount 2, WriteFail EINTR, WriteCount 9]) @ take m [1, 2, 3] \<and>
    (fst (write_all_fd (Some [1, 2, 3]) (length [1, 2, 3 :: byte]) 5
      (demo_os [] [WriteCount 2, WriteFail EINTR, WriteCount 9])) = int (length [1, 2, 3 :: byte]) \<and>
      m = length [1, 2, 3 :: byte] \<or>
     fst (write_all_fd (Some [1, 2, 3]) (length [1, 2, 3 :: byte]) 5
      (demo_os [] [WriteCount 2, WriteFail EINTR, WriteCount 9])) < 0 \<and> m < length [1, 2, 3 :: byte])"
  by (rule write_all_or_error [OF surjective_pairing])

text \<open>A receive loses, invents and reorders nothing: what it stores is the front of the bytes to
  come and the rest is still to come, however the system cuts them into chunks, interrupts or times
  out. When it succeeds it has stored exactly the number asked for.\<close>

lemma receive_takes_front:
  assumes "raspike_com_receive_timeout desc True (int n) timeout_ms c = (r, bs, c')"
  shows "incoming c = bs @ incoming c' \<and> length bs \<le> n \<and>
    (0 \<le> r \<longrightarrow> r = int n \<and> bs = take n (incoming c) \<and> incoming c' = drop n (incoming c))"
proof (intro conjI impI)
  show "incoming c = bs @ incoming c'" by (rule link.recv_stream [OF assms])
  show "length bs \<le> n" by (rule link.recv_bound [OF assms])
  assume ok: "0 \<le> r"
  show "r = int n" using link.recv_count [OF assms ok] link.recv_exact [OF assms ok] by simp
  show "bs = take n (incoming c)" "incoming c' = drop n (incoming c)"
    by (rule link.recv_take [OF assms ok])+
qed

lemma receive_takes_front_witness:
  "\<exists>r bs c'. raspike_com_receive_timeout (Some demo_desc) True (int 3) 10
      (demo_com [ReadBytes [1], ReadFail EINTR, ReadBytes [2, 3, 4]] []) = (r, bs, c') \<and>
    incoming (demo_com [ReadBytes [1], ReadFail EINTR, ReadBytes [2, 3, 4]] []) = bs @ incoming c' \<and>
    length bs \<le> 3 \<and> (0 \<le> r \<longrightarrow> r = int 3 \<and>
      bs = take 3 (incoming (demo_com [ReadBytes [1], ReadFail EINTR, ReadBytes [2, 3, 4]] [])) \<and>
      incoming c' = drop 3 (incoming (demo_com [ReadBytes [1], ReadFail EINTR, ReadBytes [2, 3, 4]] [])))"
proof -
  let ?call = "raspike_com_receive_timeout (Some demo_desc) True (int 3) 10
      (demo_com [ReadBytes [1], ReadFail EINTR, ReadBytes [2, 3, 4]] [])"
  have call: "?call = (fst ?call, fst (snd ?call), snd (snd ?call))" by simp
  from call receive_takes_front [OF call] show ?thesis by (intro exI) (rule conjI)
qed

text \<open>On a device that is always ready, a receive of bytes that are there succeeds, whatever
  their chunks: it gives exactly those bytes and leaves the others.\<close>

lemma receive_succeeds:
  assumes "prompt (com_os c)" "usable desc" "n \<le> length (incoming c)" "0 < timeout_ms"
    "timeout_ms < 2 ^ 31"
  shows "\<exists>c'. raspike_com_receive_timeout desc True (int n) timeout_ms c =
    (int n, take n (incoming c), c') \<and> incoming c' = drop n (incoming c)"
proof -
  from prompt_receive [OF assms] obtain w' where
    "raspike_com_receive_timeout desc True (int n) timeout_ms c = (int n, take n (incoming c), c\<lparr>com_os := w'\<rparr>)"
    "rx_bytes (os_reads w') = drop n (incoming c)" by blast
  then show ?thesis by (intro exI [of _ "c\<lparr>com_os := w'\<rparr>"]) (simp add: incoming_def [of "c\<lparr>com_os := w'\<rparr>"])
qed

lemma receive_succeeds_witness:
  "\<exists>c'. raspike_com_receive_timeout (Some demo_desc) True (int 3) 500
      (demo_com [ReadBytes [1], ReadBytes [2, 3, 4]] []) =
    (int 3, take 3 (incoming (demo_com [ReadBytes [1], ReadBytes [2, 3, 4]] [])), c') \<and>
    incoming c' = drop 3 (incoming (demo_com [ReadBytes [1], ReadBytes [2, 3, 4]] []))"
  by (rule receive_succeeds) (auto simp: prompt_def demo_com_def demo_os_def idle_os_def usable_def
      demo_desc_def incoming_def)

subsection \<open>The send buffer\<close>

lemma flush_buffer_cut:
  "fst (flush_buffer_locked desc (c\<lparr>fg_send_buffer := take (fg_send_buffer_size c) (fg_send_buffer c)\<rparr>)) =
   fst (flush_buffer_locked desc c)"
  by (simp add: flush_buffer_locked_def write_all_fd_def bytes_at_def Let_def case_prod_unfold)

lemma put_all_fold: "sendq.put_all ms c = fold (\<lambda>m c. snd (buffered_write (Some m) (length m) c)) ms c"
  by (induction ms arbitrary: c) simp_all

text \<open>C31. In buffered mode the messages that fit the 4096 bytes leave in the order they were
  written, each whole and once, after what was queued before, with the first successful flush.\<close>

theorem buffered_messages_in_order:
  assumes "com_wf c" "length (queued c) + length (concat ms) \<le> RP_SEND_BUFFER_SIZE"
    and "flush_buffer_locked desc (fold (\<lambda>m c. snd (buffered_write (Some m) (length m) c)) ms c) = (r, c')"
    and "0 \<le> r"
  shows "on_line c' = on_line c @ queued c @ concat ms \<and> queued c' = []"
  using sendq.put_all_drain [of c ms desc r c'] assms by (simp add: put_all_fold)

theorem buffered_messages_in_order_witness:
  "\<exists>c'. flush_buffer_locked (Some demo_desc) (fold (\<lambda>m c. snd (buffered_write (Some m) (length m) c))
      [[1, 2], [3]] (initial_com (demo_os [] [WriteCount 2, WriteCount 1]))) = (3, c') \<and>
    on_line c' = on_line (initial_com (demo_os [] [WriteCount 2, WriteCount 1])) @
      queued (initial_com (demo_os [] [WriteCount 2, WriteCount 1])) @ concat [[1, 2], [3]] \<and> queued c' = []"
proof -
  let ?c = "initial_com (demo_os [] [WriteCount 2, WriteCount 1])"
  let ?full = "\<lparr>com_os = demo_os [] [WriteCount 2, WriteCount 1], fg_send_buffer = [1, 2, 3],
    fg_send_buffer_size = 3, fg_send_mode = RASPIKE_USB_MODE_NORMAL\<rparr>"
  let ?queue = "fold (\<lambda>m c. snd (buffered_write (Some m) (length m) c)) [[1, 2], [3]] ?c"
  have cut: "?queue\<lparr>fg_send_buffer := take (fg_send_buffer_size ?queue) (fg_send_buffer ?queue)\<rparr> = ?full"
    by (simp add: buffered_write_def initial_com_def poke_def bytes_at_def)
  have "fst (flush_buffer_locked (Some demo_desc) ?full) = 3" by code_simp
  then have "fst (flush_buffer_locked (Some demo_desc) ?queue) = 3"
    unfolding cut [symmetric] flush_buffer_cut .
  then have call: "flush_buffer_locked (Some demo_desc) ?queue =
      (3, snd (flush_buffer_locked (Some demo_desc) ?queue))"
    by (rule call_result)
  have room: "length (queued ?c) + length (concat [[1, 2], [3 :: byte]]) \<le> RP_SEND_BUFFER_SIZE"
    by (simp add: queued_def initial_com_def)
  have "0 \<le> (3 :: int)" by simp
  from buffered_messages_in_order [OF com_wf_initial room call this] call show ?thesis by blast
qed

text \<open>A buffered write either queues the whole message or, when it does not fit, leaves the
  buffer as it was and fails; the buffer never holds more than its 4096 bytes.\<close>

lemma buffered_write_whole_or_none:
  assumes "com_wf c" "buffered_write (Some bs) (length bs) c = (r, c')"
  shows "com_wf c' \<and> (if length (queued c) + length bs \<le> RP_SEND_BUFFER_SIZE
    then r = int (length bs) \<and> queued c' = queued c @ bs else r < 0 \<and> c' = c)"
  using sendq.put_full [OF assms] sendq.put_ok [OF assms] sendq.put_fail [OF assms(2)]
    sendq.put_invar [OF assms] by (auto simp: not_less)

lemma buffered_write_whole_or_none_witness:
  "\<exists>r c'. buffered_write (Some [7]) (length [7 :: byte]) (initial_com idle_os) = (r, c') \<and> com_wf c' \<and>
    (if length (queued (initial_com idle_os)) + length [7 :: byte] \<le> RP_SEND_BUFFER_SIZE
     then r = int (length [7 :: byte]) \<and> queued c' = queued (initial_com idle_os) @ [7]
     else r < 0 \<and> c' = initial_com idle_os)"
  by (cases "buffered_write (Some [7]) (length [7 :: byte]) (initial_com idle_os)")
    (use buffered_write_whole_or_none [OF com_wf_initial, of "[7]" idle_os] in blast)

subsection \<open>Signals during a wait\<close>

lemma poll_retry_interrupted:
  "os_polls w = replicate k (PollFail dt EINTR) \<Longrightarrow> 0 \<le> t \<Longrightarrow>
    \<exists>w'. poll_retry t w = (0, 0, w') \<and> os_now w' = os_now w + int k * int dt + t * 10 ^ 6"
proof (induction k arbitrary: w)
  case 0
  then show ?case by (simp add: poll_retry.simps sys_poll_def)
next
  case (Suc k)
  let ?w = "w\<lparr>os_now := os_now w + int dt, os_polls := replicate k (PollFail dt EINTR), os_errno := EINTR\<rparr>"
  from Suc have "sys_poll t w = (-1, 0, ?w)" by (simp add: sys_poll_def)
  then have "poll_retry t w = poll_retry t ?w" by (subst poll_retry.simps) simp
  with Suc.IH [of ?w] Suc.prems(2) show ?case by (auto simp: algebra_simps)
qed

text \<open>C23. A time-out is no bound on a wait that signals interrupt: \<^verbatim>\<open>wait_fd\<close> starts
  \<^verbatim>\<open>poll\<close> again with the time-out in full after each signal. On a silent line a receive with
  time-out \<open>t\<close> that \<open>k\<close> signals interrupt, each \<open>dt\<close> after the last, reports \<open>-ETIMEDOUT\<close> only when
  \<open>k * dt\<close> and then the whole of \<open>t\<close> have passed, however many signals there are.\<close>

theorem interrupts_prolong_receive:
  assumes "usable desc" "0 < n" "0 < t" "t < 2 ^ 31" "os_ticks (com_os c) = []"
    and "os_polls (com_os c) = replicate k (PollFail dt EINTR)" "int dt < t * 10 ^ 6"
  shows "\<exists>w'. raspike_com_receive_timeout desc True n t c = (- ETIMEDOUT, [], c\<lparr>com_os := w'\<rparr>) \<and>
    os_now w' = os_now (com_os c) + int k * int dt + t * 10 ^ 6"
proof -
  let ?w = "com_os c"
  obtain now where clock: "monotonic_ms ?w = (now, ?w)"
    using assms(5) by (simp add: monotonic_ms_def clock_gettime_def tick_def Let_def)
  obtain w' where w': "poll_retry t ?w = (0, 0, w')" "os_now w' = os_now ?w + int k * int dt + t * 10 ^ 6"
    using poll_retry_interrupted [OF assms(6), of t] assms(3) by auto
  have "rp_usb_receive desc True n t ?w = (- ETIMEDOUT, [], w')"
    using usable_fd [OF assms(1)] assms(2) w'(1)
    by (simp add: rp_usb_receive_def read_some_fd_def wait_fd_def)
  moreover have "c_int t = t" using assms(3,4) by (intro c_int_small) auto
  ultimately have "receive_loop desc n (now + t) [] ?w = (- ETIMEDOUT, [], w')"
    using assms(2,3) clock by (simp add: receive_loop.simps)
  moreover have "desc \<noteq> None" "d_receive_set (the desc)" using assms(1) by (auto simp: usable_def)
  ultimately show ?thesis
    using assms(2,3) clock w'(2) by (intro exI [of _ w']) (simp add: raspike_com_receive_timeout_def)
qed

text \<open>A receive with a time-out of 500 ms that takes 50 seconds, a signal coming every 495 ms.\<close>

theorem interrupts_prolong_receive_witness:
  "\<exists>w'. raspike_com_receive_timeout (Some demo_desc) True 1 500
      (initial_com (idle_os\<lparr>os_polls := replicate 100 (PollFail 495000000 EINTR)\<rparr>)) =
      (- ETIMEDOUT, [], (initial_com (idle_os\<lparr>os_polls := replicate 100 (PollFail 495000000 EINTR)\<rparr>))\<lparr>com_os := w'\<rparr>) \<and>
    os_now w' = 50 * 10 ^ 9"
proof -
  let ?c = "initial_com (idle_os\<lparr>os_polls := replicate 100 (PollFail 495000000 EINTR)\<rparr>)"
  have "usable (Some demo_desc)" "os_ticks (com_os ?c) = []" "os_now (com_os ?c) = 0"
    "os_polls (com_os ?c) = replicate 100 (PollFail 495000000 EINTR)"
    by (simp_all add: usable_def demo_desc_def initial_com_def idle_os_def)
  with interrupts_prolong_receive [of "Some demo_desc" 1 500 ?c 100 495000000] show ?thesis by simp
qed

subsection \<open>A flush that fails\<close>

text \<open>C32. A flush that fails part of the way has put the first bytes of the queue on the line and keeps
  the whole queue all the same, so the flush that succeeds after it sends those bytes once more: the
  queue follows in full on whatever the first one had left on the line.\<close>

theorem failed_flush_repeats_prefix:
  assumes "flush_buffer_locked desc c = (r1, c1)" "r1 < 0"
    and "flush_buffer_locked desc c1 = (r2, c2)" "0 \<le> r2"
  shows "queued c1 = queued c \<and> (\<exists>k. on_line c1 = on_line c @ take k (queued c)) \<and>
    on_line c2 = on_line c1 @ queued c"
  using flush_buffer_locked_props [OF assms(1)] flush_buffer_locked_props [OF assms(3)] assms(2,4)
  by (auto simp: queued_def)

text \<open>Two of three bytes leave before the error, and the line carries 1, 2, 1, 2, 3.\<close>

theorem failed_flush_repeats_prefix_witness:
  "\<exists>c1 c2. let c = (demo_com [] [WriteCount 2, WriteFail EIO, WriteCount 3])\<lparr>
      fg_send_buffer := [1, 2, 3], fg_send_buffer_size := 3\<rparr> in
    flush_buffer_locked (Some demo_desc) c = (- EIO, c1) \<and>
    flush_buffer_locked (Some demo_desc) c1 = (3, c2) \<and>
    on_line c1 = [1, 2] \<and> on_line c2 = [1, 2, 1, 2, 3]"
proof -
  let ?c = "(demo_com [] [WriteCount 2, WriteFail EIO, WriteCount 3])\<lparr>
      fg_send_buffer := [1, 2, 3], fg_send_buffer_size := 3\<rparr>"
  let ?c1 = "snd (flush_buffer_locked (Some demo_desc) ?c)"
  have "fst (flush_buffer_locked (Some demo_desc) ?c) = - EIO" by code_simp
  then have one: "flush_buffer_locked (Some demo_desc) ?c = (- EIO, ?c1)" by (rule call_result)
  have "fst (flush_buffer_locked (Some demo_desc) ?c1) = 3" by code_simp
  then have two: "flush_buffer_locked (Some demo_desc) ?c1 = (3, snd (flush_buffer_locked (Some demo_desc) ?c1))"
    by (rule call_result)
  have line: "on_line ?c1 = [1, 2]" "queued ?c = [1, 2, 3]" by code_simp+
  have "- EIO < 0" "0 \<le> (3 :: int)" by simp_all
  from failed_flush_repeats_prefix [OF one this(1) two this(2)] line
  have "on_line (snd (flush_buffer_locked (Some demo_desc) ?c1)) = [1, 2, 1, 2, 3]" by simp
  with one two line(1) show ?thesis unfolding Let_def by (intro exI conjI)
qed

subsection \<open>Opening and deadlines\<close>

text \<open>A descriptor that \<^verbatim>\<open>raspike_open_usb_communication\<close> returns is usable, and the terminal
  behind it is raw, at 115200 baud both ways, eight bits, no parity, one stop bit, no hardware flow
  control, with reads that never block.\<close>

lemma open_configures_line:
  assumes "raspike_open_usb_communication name c = (Some d, c')"
  shows "usable (Some d) \<and> d_io_timeout_ms d = RP_DEFAULT_IO_TIMEOUT_MS \<and>
    (\<exists>t. os_tty (com_os c') = Some t \<and> c_ispeed t = B115200 \<and> c_ospeed t = B115200 \<and>
      c_cflag t AND CSIZE = CS8 \<and> c_cflag t AND (CSTOPB OR PARENB OR CRTSCTS) = 0 \<and>
      c_cflag t AND (CLOCAL OR CREAD) = CLOCAL OR CREAD \<and> c_lflag t AND 0xB = 0 \<and>
      c_vmin t = 0 \<and> c_vtime t = 0)"
proof -
  have flags: "(((x AND NOT (CSIZE OR PARENB) OR CS8) OR (CLOCAL OR CREAD OR CS8)) AND
        NOT (CSTOPB OR PARENB OR CRTSCTS)) AND CSIZE = CS8"
      "(((x AND NOT (CSIZE OR PARENB) OR CS8) OR (CLOCAL OR CREAD OR CS8)) AND
        NOT (CSTOPB OR PARENB OR CRTSCTS)) AND (CSTOPB OR PARENB OR CRTSCTS) = 0"
      "(((x AND NOT (CSIZE OR PARENB) OR CS8) OR (CLOCAL OR CREAD OR CS8)) AND
        NOT (CSTOPB OR PARENB OR CRTSCTS)) AND (CLOCAL OR CREAD) = CLOCAL OR CREAD" for x :: u32
    by (simp_all add: bit.conj_disj_distrib2 and.assoc or.assoc)
  from assms obtain tio w2 w3 fd w4 w5 where
    set: "sys_tcsetattr (cfmakeraw tio\<lparr>c_ispeed := B115200, c_ospeed := B115200,
      c_cflag := (c_cflag (cfmakeraw tio) OR (CLOCAL OR CREAD OR CS8)) AND NOT (CSTOPB OR PARENB OR CRTSCTS),
      c_vmin := 0, c_vtime := 0\<rparr>) w2 = (0, w3)"
    and fl: "snd (sys_tcflush_input w3) = w4" "snd (sys_calloc w4) = w5" "c' = c\<lparr>com_os := w5\<rparr>"
    and d: "d = \<lparr>d_type = RP_COM_TYPE_USB, d_desc = fd, d_io_timeout_ms = RP_DEFAULT_IO_TIMEOUT_MS,
      d_send_set = True, d_receive_set = True, d_close_set = True, d_flush_set = True\<rparr>" "0 \<le> fd"
    unfolding raspike_open_usb_communication_def Let_def
    by (auto simp: not_less split: if_splits prod.splits)
  have "os_tty (com_os c') = os_tty w3"
    using fl by (auto simp: sys_tcflush_input_def sys_calloc_def split: list.splits flush_answer.splits)
  moreover obtain t where t: "os_tty w3 = Some t" "t = cfmakeraw tio\<lparr>c_ispeed := B115200,
      c_ospeed := B115200, c_cflag := (c_cflag (cfmakeraw tio) OR (CLOCAL OR CREAD OR CS8)) AND
        NOT (CSTOPB OR PARENB OR CRTSCTS), c_vmin := 0, c_vtime := 0\<rparr>"
    using set by (auto simp: sys_tcsetattr_def split: list.splits if_splits)
  ultimately have tty: "os_tty (com_os c') = Some t" by simp
  have cflag: "c_cflag t = ((c_cflag tio AND NOT (CSIZE OR PARENB) OR CS8) OR (CLOCAL OR CREAD OR CS8)) AND
        NOT (CSTOPB OR PARENB OR CRTSCTS)"
    by (simp add: t(2) cfmakeraw_def)
  have rest: "c_lflag t AND 0xB = 0" "c_ispeed t = B115200" "c_ospeed t = B115200" "c_vmin t = 0" "c_vtime t = 0"
    by (simp_all add: t(2) cfmakeraw_def and.assoc)
  have bits: "c_cflag t AND CSIZE = CS8" "c_cflag t AND (CSTOPB OR PARENB OR CRTSCTS) = 0"
    "c_cflag t AND (CLOCAL OR CREAD) = CLOCAL OR CREAD"
    unfolding cflag by (rule flags)+
  have "usable (Some d)" "d_io_timeout_ms d = RP_DEFAULT_IO_TIMEOUT_MS"
    using d by (simp_all add: usable_def)
  with tty rest bits show ?thesis by (intro conjI exI [of _ t])
qed

lemma open_configures_line_witness:
  "\<exists>d c'. raspike_open_usb_communication (Some ''tty'') ((demo_com [] [])\<lparr>com_os := idle_os\<lparr>os_opens := [Inr 3],
      os_tcgets := [Inr \<lparr>c_iflag = 0xFFFFFFFF, c_oflag = 5, c_cflag = 0xFFFFFFFF, c_lflag = 0x8A3B,
        c_ispeed = 13, c_ospeed = 13, c_vmin = 1, c_vtime = 2\<rparr>]\<rparr>\<rparr>) = (Some d, c') \<and>
    usable (Some d)"
proof -
  let ?call = "raspike_open_usb_communication (Some ''tty'') ((demo_com [] [])\<lparr>com_os := idle_os\<lparr>os_opens := [Inr 3],
      os_tcgets := [Inr \<lparr>c_iflag = 0xFFFFFFFF, c_oflag = 5, c_cflag = 0xFFFFFFFF, c_lflag = 0x8A3B,
        c_ispeed = 13, c_ospeed = 13, c_vmin = 1, c_vtime = 2\<rparr>]\<rparr>\<rparr>)"
  have "fst ?call \<noteq> None"
    by (simp add: raspike_open_usb_communication_def demo_com_def idle_os_def sys_open_def
        sys_tcgetattr_def sys_tcsetattr_def sys_tcflush_input_def sys_calloc_def Let_def)
  then obtain d where "fst ?call = Some d" by blast
  then have call: "?call = (Some d, snd ?call)" by (rule call_result)
  from call open_configures_line [OF call] show ?thesis by blast
qed

text \<open>The deadline of a wait is the present time plus the time-out to the nanosecond, on either
  clock, and is a normalised \<^verbatim>\<open>timespec\<close>, whether the nanoseconds carry or not.\<close>

lemma deadline_exact:
  assumes "deadline_after_ms clk timeout_ms w = (d, w')" "0 \<le> timeout_ms"
  shows "0 \<le> tv_nsec d \<and> tv_nsec d < 10 ^ 9 \<and>
    tv_sec d * 10 ^ 9 + tv_nsec d =
      os_now w' + (if clk = CLOCK_REALTIME then os_realtime_offset w' else 0) + timeout_ms * 10 ^ 6"
proof -
  let ?now = "os_now (tick w) + (if clk = CLOCK_REALTIME then os_realtime_offset (tick w) else 0)"
  have w': "w' = tick w"
    using assms(1) by (auto simp: deadline_after_ms_def clock_gettime_def Let_def split: if_splits)
  have parts: "?now = ?now div 10 ^ 9 * 10 ^ 9 + ?now mod 10 ^ 9" "0 \<le> ?now mod 10 ^ 9" "?now mod 10 ^ 9 < 10 ^ 9"
    by simp_all
  have ms: "timeout_ms = timeout_ms div 1000 * 1000 + timeout_ms mod 1000" "0 \<le> timeout_ms mod 1000"
    "timeout_ms mod 1000 < 1000" by simp_all
  define a b p q where "a = ?now div 10 ^ 9" "b = ?now mod 10 ^ 9" "p = timeout_ms div 1000"
    "q = timeout_ms mod 1000"
  have "d = (if b + q * 1000000 \<ge> 1000000000
      then \<lparr>tv_sec = a + p + 1, tv_nsec = b + q * 1000000 - 1000000000\<rparr>
      else \<lparr>tv_sec = a + p, tv_nsec = b + q * 1000000\<rparr>)"
    using assms(1) unfolding deadline_after_ms_def clock_gettime_def Let_def prod.case timespec_of_def
      c_div_nonneg [OF assms(2), of 1000, simplified] c_mod_nonneg [OF assms(2), of 1000, simplified]
      a_b_p_q_def by (auto split: if_splits)
  moreover have "?now = a * 10 ^ 9 + b" "0 \<le> b" "b < 10 ^ 9" "timeout_ms = p * 1000 + q" "0 \<le> q" "q < 1000"
    using parts ms by (simp_all add: a_b_p_q_def)
  ultimately show ?thesis unfolding w' by (auto split: if_splits)
qed

lemma deadline_exact_witness:
  "\<exists>d w'. deadline_after_ms CLOCK_REALTIME 1999 (idle_os\<lparr>os_now := 1500000001\<rparr>) = (d, w') \<and>
    0 \<le> tv_nsec d \<and> tv_nsec d < 10 ^ 9 \<and> tv_sec d * 10 ^ 9 + tv_nsec d =
      os_now w' + (if CLOCK_REALTIME = CLOCK_REALTIME then os_realtime_offset w' else 0) + 1999 * 10 ^ 6"
proof -
  let ?call = "deadline_after_ms CLOCK_REALTIME 1999 (idle_os\<lparr>os_now := 1500000001\<rparr>)"
  have call: "?call = (fst ?call, snd ?call)" by simp
  have "(0 :: int) \<le> 1999" by simp
  from call deadline_exact [OF call this] show ?thesis by (intro exI) (rule conjI)
qed

subsection \<open>Initialisation and shutdown\<close>

definition demo_negotiation :: "read_answer list" where
  "demo_negotiation = [ReadBytes [1, 2, 0xAE, 0xCE, 0], ReadBytes [8, 4],
     ReadBytes (hello_header @ demo_hello)]"

text \<open>C30. Initialisation returns, once the signals stop and the line falls silent: after any finite
  sequence of bytes, chunks, errors, interruptions and delays from the system, silence alone brings
  every loop of the negotiation to its end by the clock, so a hub that answers nothing, too little or
  nonsense never hangs the caller. (Signals that never stop can, C23.)\<close>

theorem init_returns: "\<exists>r s'. raspike_prot_init version desc s = Some (r, s')"
  by (rule prot_init_returns)

text \<open>C28. When initialisation succeeds the link is up: descriptor and a well-formed status are there,
  version 2 and a session are agreed, the ports are idle, sequence numbers start at 1, the
  statistics at zero. The bytes it consumed contain the handshake with the expected firmware
  version and then a hello that was accepted.\<close>

theorem init_success:
  assumes "raspike_prot_init (v1, v2, v3) desc s = Some (r, s')" "0 \<le> r"
    and "length (gPortDevices s) = RP_PORT_NUMBER"
  shows "r = 0 \<and> linked s' \<and> idle_ports s' \<and> fgDesc s' = desc \<and> normal_mode s' \<and>
    fgNextSequence s' = 1 \<and> fgLinkStats s' = zero_link_stats \<and>
    (unat (fgVersionMajor s'), unat (fgVersionMinor s'), unat (fgVersionPatch s')) = (v1, v2, v3) \<and>
    negotiation s s'"
  using prot_init_up [OF assms(1,3,2)] by simp

theorem init_success_witness:
  "\<exists>s'. raspike_prot_init (0, 8, 4) (Some demo_desc) (demo_start demo_negotiation [WriteCount 2]) = Some (0, s') \<and>
    linked s' \<and> fgSessionId s' = 7 \<and> negotiation (demo_start demo_negotiation [WriteCount 2]) s'"
proof -
  let ?call = "raspike_prot_init (0, 8, 4) (Some demo_desc) (demo_start demo_negotiation [WriteCount 2])"
  have run: "map_option (\<lambda>(r, s'). (r, fgSessionId s')) ?call = Some (0, 7)" by code_simp
  then obtain s' where call: "?call = Some (0, s')" "fgSessionId s' = 7" by auto
  have "length (gPortDevices (demo_start demo_negotiation [WriteCount 2])) = RP_PORT_NUMBER"
    by (simp add: demo_start_def initial_rp_def)
  from init_success [OF call(1) order_refl this] call show ?thesis by blast
qed

text \<open>C29. When initialisation fails nothing is left half open: either it was refused before it
  touched anything, for a null descriptor or a link that is in use, or descriptor and status are
  gone and the handshake is not complete.\<close>

theorem init_failure:
  assumes "raspike_prot_init version desc s = Some (r, s')" "r < 0"
    and "length (gPortDevices s) = RP_PORT_NUMBER"
  shows "closed s' \<or> (s' = s \<and> (desc = None \<and> r = - EINVAL \<or> fgDesc s \<noteq> None \<and> r = - EBUSY))"
  by (rule prot_init_down [OF assms])

theorem init_failure_witness:
  "\<exists>r s'. raspike_prot_init (0, 8, 5) (Some demo_desc) (demo_start demo_negotiation [WriteCount 2]) = Some (r, s') \<and>
    r < 0 \<and> closed s'"
proof -
  let ?call = "raspike_prot_init (0, 8, 5) (Some demo_desc) (demo_start demo_negotiation [WriteCount 2])"
  have run: "map_option (\<lambda>(r, s'). (r, fgDesc s' = None)) ?call = Some (- EPROTONOSUPPORT, True)" by code_simp
  then obtain s' where call: "?call = Some (- EPROTONOSUPPORT, s')" "fgDesc s' = None" by auto
  have "length (gPortDevices (demo_start demo_negotiation [WriteCount 2])) = RP_PORT_NUMBER"
    "fgDesc (demo_start demo_negotiation [WriteCount 2]) = None"
    by (simp_all add: demo_start_def initial_rp_def)
  with init_failure [OF call(1) _ this(1)] call show ?thesis by auto
qed

text \<open>Shutdown with no receiver inside returns at once: the link is closed, version and session
  are forgotten, the devices too, and every request that was waiting is ended with
  \<open>-ENOTCONN\<close>.\<close>

lemma shutdown_closes:
  assumes "fgActiveReceivers s \<le> 0"
  shows "\<exists>desc' s'. raspike_prot_shutdown others s = Some (0, desc', s') \<and> closed s' \<and> idle_ports s' \<and>
    \<not> fgUseProtocolV2 s' \<and> fgSessionId s' = 0 \<and>
    (\<forall>i < length (gPortDevices s). pending (gPortDevices s ! i) \<longrightarrow>
      ack_cmd (gPortDevices s' ! i) = -1 \<and> ack_data (gPortDevices s' ! i) = - ENOTCONN)"
proof -
  have "await_receivers others (s\<lparr>fgStopCommunication := True\<rparr>) = Some (s\<lparr>fgStopCommunication := True\<rparr>)"
    using assms by (simp add: await_receivers.simps)
  then have "\<exists>p. raspike_prot_shutdown others s = Some p"
    by (simp add: raspike_prot_shutdown_def Let_def case_prod_unfold)
  then obtain r desc' s' where call: "raspike_prot_shutdown others s = Some (r, desc', s')"
    by (metis prod_cases3)
  have "gPortDevices s' = gPortDevices (reset_port_state (- ENOTCONN) True (s\<lparr>fgStopCommunication := True\<rparr>))"
    using call assms
    by (auto simp: raspike_prot_shutdown_def await_receivers.simps Let_def reset_port_state_def
        split: prod.splits if_splits)
  then have "\<forall>i < length (gPortDevices s). pending (gPortDevices s ! i) \<longrightarrow>
      ack_cmd (gPortDevices s' ! i) = -1 \<and> ack_data (gPortDevices s' ! i) = - ENOTCONN"
    by (simp add: reset_port_state_def cancel_pending_def Let_def)
  with prot_shutdown_closes [OF call] call show ?thesis by blast
qed

lemma shutdown_closes_witness:
  "\<exists>desc' s'. raspike_prot_shutdown [] (demo_link [] []) = Some (0, desc', s') \<and> closed s' \<and> idle_ports s' \<and>
    \<not> fgUseProtocolV2 s' \<and> fgSessionId s' = 0 \<and>
    (\<forall>i < length (gPortDevices (demo_link [] [])). pending (gPortDevices (demo_link [] []) ! i) \<longrightarrow>
      ack_cmd (gPortDevices s' ! i) = -1 \<and> ack_data (gPortDevices s' ! i) = - ENOTCONN)"
  by (rule shutdown_closes) simp

end
