(* ===== verification/Request_Properties.thy ===== *)
theory Request_Properties
  imports Request Dispatch_Properties Link_Properties
begin

section \<open>Properties of requests\<close>

text \<open>
  A request on a line that takes its frames: answered, unanswered, and what an answer must have
  been, whatever the other threads do.
\<close>

subsection \<open>A line that takes the next frames\<close>

definition open_lines :: "nat \<Rightarrow> nat \<Rightarrow> os \<Rightarrow> bool" where
  "open_lines k n w \<longleftrightarrow> os_ticks w = [] \<and> (\<exists>ps. os_polls w = replicate k (PollEvents 0 POLLIN) @ ps) \<and>
     (\<exists>ws. os_writes w = replicate k (WriteCount n) @ ws)"

definition sends :: "nat \<Rightarrow> rp \<Rightarrow> bool" where
  "sends k s \<longleftrightarrow> open_lines k 256 (com_os (rp_com s)) \<and> usable (fgDesc s) \<and> normal_mode s \<and>
     fg_send_buffer_size (rp_com s) = 0 \<and> 0 < d_io_timeout_ms (the (fgDesc s)) \<and>
     d_io_timeout_ms (the (fgDesc s)) < 2 ^ 31 \<and> \<not> fgStopCommunication s \<and> fgUseProtocolV2 s"

lemma open_lines_open: "open_lines (Suc k) n w \<Longrightarrow> m \<le> n \<Longrightarrow> open_line w m"
  by (auto simp: open_lines_def open_line_def)

lemma open_lines_next:
  "open_lines (Suc k) n w \<Longrightarrow> open_lines k n (w\<lparr>os_polls := tl (os_polls w), os_writes := tl (os_writes w), os_tx := tx\<rparr>)"
  by (auto simp: open_lines_def)

text \<open>A frame that is sent is on the line, whole; nothing else of the state changes but its count.\<close>

lemma send_frame_open:
  assumes "sends (Suc k) s" "good_payload buf n" "0 \<le> n" "n \<le> 240" "raspike_is_valid_port port"
  shows "\<exists>c. send_frame port cmd buf n q fl now s =
      (16 + n, stats_increment tx_frames_update (s\<lparr>rp_com := c\<rparr>)) \<and>
    sends k (s\<lparr>rp_com := c\<rparr>) \<and> os_now (com_os c) = os_now (com_os (rp_com s)) \<and>
    os_sleeps (com_os c) = os_sleeps (com_os (rp_com s)) \<and>
    on_line c = wire_out s @ v2_frame_bytes (message_of port cmd buf n q fl (fgSessionId s))"
proof -
  let ?f = "v2_frame port cmd buf (nat n) q fl (fgSessionId s)" and ?w = "com_os (rp_com s)"
  let ?c = "(rp_com s)\<lparr>com_os := ?w\<lparr>os_polls := tl (os_polls ?w), os_writes := tl (os_writes ?w),
    os_tx := os_tx ?w @ take (nat (16 + n)) ?f\<rparr>\<rparr>"
  have s: "open_lines (Suc k) 256 ?w" "usable (fgDesc s)" "normal_mode s" "fg_send_buffer_size (rp_com s) = 0"
    "0 < d_io_timeout_ms (the (fgDesc s))" "d_io_timeout_ms (the (fgDesc s)) < 2 ^ 31"
    "\<not> fgStopCommunication s" "fgUseProtocolV2 s"
    using assms(1) by (simp_all add: sends_def)
  have len: "nat (16 + n) \<le> length ?f" using assms(2-4) by simp
  have "open_line ?w (nat (16 + n))" using assms(4) by (intro open_lines_open [OF s(1)]) simp
  from send_at_once [OF this s(2,3) _ len s(5,6)] assms(3)
  have sent: "com_send ?f (16 + n) s = (16 + n, s\<lparr>rp_com := ?c\<rparr>)" by simp
  have ok: "\<not> refused_by_v2 port buf n"
    using assms(2-5) by (auto simp: refused_by_v2_def good_payload_def bytes_at_def)
  have v2: "send_v2_frame port cmd buf n q fl s = (16 + n, s\<lparr>rp_com := ?c\<rparr>)"
    using send_v2_frame_cases [of port cmd buf n q fl s] sent ok
    by (cases "send_v2_frame port cmd buf n q fl s") simp
  have flush: "com_flush (s\<lparr>rp_com := ?c\<rparr>) = (0, s\<lparr>rp_com := ?c\<rparr>)"
    using s(2,4) by (auto simp: com_flush_def raspike_com_flush_def rp_usb_flush_def flush_buffer_locked_def usable_def)
  have "send_frame port cmd buf n q fl now s = (16 + n, stats_increment tx_frames_update (s\<lparr>rp_com := ?c\<rparr>))"
    using s(2,7,8) v2 flush assms(3) by (auto simp: send_frame_def usable_def Let_def)
  moreover have "sends k (s\<lparr>rp_com := ?c\<rparr>)"
    using s open_lines_next [OF s(1)] by (simp add: sends_def normal_mode_def)
  moreover have "os_now (com_os ?c) = os_now ?w" "os_sleeps (com_os ?c) = os_sleeps ?w" by simp_all
  moreover have "on_line ?c = wire_out s @ v2_frame_bytes (message_of port cmd buf n q fl (fgSessionId s))"
    using v2_frame_message [OF assms(2,3)] assms(3,4) by (simp add: on_line_def wire_out_def nat_add_distrib)
  ultimately show ?thesis by blast
qed

lemma deadline_same:
  "os_ticks (com_os (rp_com s)) = [] \<Longrightarrow> snd (on_os (deadline_after_ms clk t) s) = s"
  by (simp add: on_os_def deadline_after_ms_def clock_gettime_def tick_def Let_def)

lemma sends_ticks: "sends k s \<Longrightarrow> os_ticks (com_os (rp_com s)) = []"
  by (simp add: sends_def open_lines_def)

lemma sends_fields [simp]:
  "sends k (stats_increment c s) = sends k s" "sends k (update_device i f s) = sends k s"
  "sends k (s\<lparr>fgNextSequence := q\<rparr>) = sends k s"
  by (simp_all add: sends_def stats_increment_def update_device_def normal_mode_def)

lemma sends_pass: "sends k s \<Longrightarrow> sends k (pass_until d s)"
  by (auto simp: sends_def open_lines_def pass_until_def on_os_def normal_mode_def)

lemma others_run_quiet: "s_steps sc = [] \<Longrightarrow> others_run sc s = (sc, s)"
  by (simp add: others_run_def)

lemma get_le32_pair:
  "rp_v2_get_u32 (le32 a @ le32 b) 0 = a" "rp_v2_get_u32 (le32 a @ le32 b) 4 = b"
  using get_u32_bytes [of "[]" a "le32 b"] get_u32_bytes [of "le32 a" b "[]"] by simp_all

lemma sint_byte: "sint (ucast (b :: byte) :: u32) = int (unat b)"
proof -
  have b: "uint b < 256" "0 \<le> uint b" using uint_lt2p [of b] by simp_all
  have "- (2 ^ 31) \<le> uint b" using b(2) by (rule order_trans [rotated]) simp
  moreover have "uint b < 2 ^ 31" using b(1) by simp
  moreover have "uint b < 2 ^ 32" using b(1) by simp
  ultimately have u: "take_bit 32 (uint b) = uint b" "signed_take_bit 31 (uint b) = uint b"
    using b(2) by (simp_all only: take_bit_int_eq_self signed_take_bit_int_eq_self)
  then have "uint (ucast b :: u32) = uint b" by (simp add: unsigned_ucast_eq)
  moreover have "int (unat b) = uint b" by simp
  ultimately show ?thesis using u(2) by (simp add: sint_uint)
qed

definition ack_for :: "nat \<Rightarrow> byte \<Rightarrow> u32 \<Rightarrow> u32 \<Rightarrow> i32 \<Rightarrow> v2_message \<Rightarrow> bool" where
  "ack_for i cmd q session v m \<longleftrightarrow> m_cmd m = RP_CMD_ID_ACK \<and> getDevice (m_port m) = Some i \<and>
     m_sequence m = q \<and> m_session m = session \<and> m_payload m = le32 (ucast cmd) @ le32 v"

lemma ack_step:
  assumes "ack_for i cmd q (fgSessionId s) v m" "linked s" "i < RP_PORT_NUMBER"
    and "pending (gPortDevices s ! i)" "pending_sequence (gPortDevices s ! i) = q"
  shows "hub_step m s = update_device i (\<lambda>dev. dev\<lparr>ack_cmd := int (unat cmd), ack_data := sint v,
    ack_sequence := q, ack_session := fgSessionId s, pending := False\<rparr>) s"
proof -
  have "raspike_is_valid_port (m_port m)"
    using assms(1) by (auto simp: ack_for_def getDevice_def raspike_is_valid_port_def split: if_splits)
  then show ?thesis
    using assms by (simp add: hub_step_def dispatch_message_def process_command_def ack_for_def
        process_ack_def get_le32_pair sint_byte linked_def cmd_id_values Let_def)
qed

lemma hub_step_sends: "linked s \<Longrightarrow> sends k s \<Longrightarrow> sends k (update_device i f s)"
  by simp

lemma next_sequence_new: "next_sequence s = (q, s') \<Longrightarrow> fgNextSequence s' \<noteq> q"
proof -
  assume call: "next_sequence s = (q, s')"
  have "x + 1 \<noteq> x" for x :: u32 by simp
  moreover have "x + 1 = 0 \<Longrightarrow> 1 \<noteq> x" for x :: u32 by auto
  ultimately show ?thesis using call by (auto simp: next_sequence_def Let_def split: if_splits)
qed

text \<open>A request up to its first attempt and from its last one, when nothing happens in between.\<close>

lemma request_begins:
  assumes "linked s" "sends k s" "getDevice port = Some i" "raspike_is_valid_port port" "s_steps sc = []"
  obtains s4 where "linked s4" "sends k s4" "rp_com s4 = rp_com s" "fgLinkStats s4 = fgLinkStats s"
    "fgSessionId s4 = fgSessionId s" "fgNextSequence s4 \<noteq> fgNextSequence s"
    "fgActiveReceivers s4 = fgActiveReceivers s"
    "pending (gPortDevices s4 ! i)" "pending_sequence (gPortDevices s4 ! i) = fgNextSequence s"
    "ack_cmd (gPortDevices s4 ! i) = 0"
    "\<And>completed result sc' s5.
      request_attempts 2 port cmd data n (fgNextSequence s) (if t \<le> 0 then RP_REQUEST_TIMEOUT_MS else t) i
        (- ETIMEDOUT) sc s4 = (completed, result, sc', s5) \<Longrightarrow> s_steps sc' = [] \<Longrightarrow>
      raspike_request port cmd data n t sc s =
        (let (r, s7) = request_finish cmd (fgNextSequence s) i completed result s5 in (r, sc', s7))"
proof -
  have i7: "i < RP_PORT_NUMBER" and len: "length (gPortDevices s) = 7"
    using getDevice_bound [OF assms(3)] assms(1) by (simp_all add: linked_def)
  obtain s2 where seq: "next_sequence s = (fgNextSequence s, s2)" and s2: "linked s2" "sends k s2"
    "rp_com s2 = rp_com s" "fgLinkStats s2 = fgLinkStats s" "fgSessionId s2 = fgSessionId s"
    "gPortDevices s2 = gPortDevices s" "fgActiveReceivers s2 = fgActiveReceivers s"
    using assms(1,2) by (auto simp: next_sequence_def Let_def linked_def)
  define s4 where "s4 = update_device i (open_slot (fgNextSequence s)) s2"
  have s4: "linked s4" "sends k s4" "rp_com s4 = rp_com s" "fgLinkStats s4 = fgLinkStats s"
    "fgSessionId s4 = fgSessionId s" "fgNextSequence s4 \<noteq> fgNextSequence s" "fgUseProtocolV2 s4"
    "fgActiveReceivers s4 = fgActiveReceivers s"
    "pending (gPortDevices s4 ! i)" "pending_sequence (gPortDevices s4 ! i) = fgNextSequence s"
    "ack_cmd (gPortDevices s4 ! i) = 0"
    using s2 i7 len next_sequence_new [OF seq] by (simp_all add: s4_def linked_def update_device_def sends_def normal_mode_def)
  show thesis
  proof (rule that [OF s4(1-6,8-11)])
    fix completed result sc' s5
    assume "request_attempts 2 port cmd data n (fgNextSequence s) (if t \<le> 0 then RP_REQUEST_TIMEOUT_MS else t) i
        (- ETIMEDOUT) sc s4 = (completed, result, sc', s5)" "s_steps sc' = []"
    then show "raspike_request port cmd data n t sc s =
        (let (r, s7) = request_finish cmd (fgNextSequence s) i completed result s5 in (r, sc', s7))"
      using assms(3-5) s4(7) seq others_run_quiet by (simp add: raspike_request_def s4_def [symmetric] Let_def)
  qed
qed

text \<open>One attempt that is ended while it waits, by whatever the others do then.\<close>

lemma attempt_ended:
  assumes "linked s" "sends (Suc k) s" "good_payload data n" "0 \<le> n" "n \<le> 240" "raspike_is_valid_port port"
    and "s_steps sc = []" "s_waits sc = (f, 0) # rest" "pending (gPortDevices s ! i)"
  obtains s' where "linked s'" "wire_out s' = wire_out s @ v2_frame_bytes (message_of port cmd data n q
      RP_V2_FLAG_HIGH_PRIORITY (fgSessionId s))"
    "gPortDevices s' = gPortDevices s" "fgSessionId s' = fgSessionId s" "os_now (com_os (rp_com s')) = os_now (com_os (rp_com s))"
    "fgActiveReceivers s' = fgActiveReceivers s" "fgLinkStats s' = tx_frames_update (\<lambda>n. n + 1) (fgLinkStats s)"
    "\<not> pending (gPortDevices (f s') ! i) \<Longrightarrow>
      request_attempts (Suc left) port cmd data n q t i result sc s = (True, result, sc\<lparr>s_waits := rest\<rparr>, f s')"
proof -
  from send_frame_open [OF assms(2-6)] obtain c where
    sent: "send_frame port cmd data n q RP_V2_FLAG_HIGH_PRIORITY True s =
      (16 + n, stats_increment tx_frames_update (s\<lparr>rp_com := c\<rparr>))" and c: "sends k (s\<lparr>rp_com := c\<rparr>)"
    "on_line c = wire_out s @ v2_frame_bytes (message_of port cmd data n q RP_V2_FLAG_HIGH_PRIORITY (fgSessionId s))"
    "os_now (com_os c) = os_now (com_os (rp_com s))"
    by blast
  define s5 where "s5 = stats_increment tx_frames_update (s\<lparr>rp_com := c\<rparr>)"
  have s5: "linked s5" "gPortDevices s5 = gPortDevices s" "fgSessionId s5 = fgSessionId s"
    "wire_out s5 = on_line c" "os_ticks (com_os (rp_com s5)) = []" "rp_com s5 = c"
    "fgLinkStats s5 = tx_frames_update (\<lambda>n. n + 1) (fgLinkStats s)" "fgActiveReceivers s5 = fgActiveReceivers s"
    using assms(1) sends_ticks [OF c(1)] by (simp_all add: s5_def linked_def stats_increment_def wire_out_def)
  obtain d where dl: "on_os (deadline_after_ms CLOCK_MONOTONIC t) s5 = (d, s5)"
    using deadline_same [OF s5(5), of CLOCK_MONOTONIC t] by (cases "on_os (deadline_after_ms CLOCK_MONOTONIC t) s5") simp
  have "request_attempts (Suc left) port cmd data n q t i result sc s = (True, result, sc\<lparr>s_waits := rest\<rparr>, f s5)"
    if "\<not> pending (gPortDevices (f s5) ! i)"
  proof -
    have "await_ack i d (s_waits sc) result s5 = (result, rest, f s5)"
      using s5(2) that assms(8,9) by (simp add: await_ack.simps)
    then show ?thesis
      using others_run_quiet [OF assms(7)] assms(4,9) sent dl that by (simp add: s5_def [symmetric] Let_def)
  qed
  with that [OF s5(1) _ s5(2,3) _ s5(8,7)] s5(4,6) c(2,3) show thesis by simp
qed

text \<open>A request that is ended while it waits for the first time: \<open>s5\<close> is the state in which it waits.\<close>

lemma request_ended:
  assumes "linked s" "sends 1 s" "good_payload data n" "0 \<le> n" "n \<le> 240"
    and "getDevice port = Some i" "raspike_is_valid_port port" "s_steps sc = []" "s_waits sc = (f, 0) # rest"
  obtains s5 where "linked s5" "wire_out s5 = wire_out s @ v2_frame_bytes (message_of port cmd data n
      (fgNextSequence s) RP_V2_FLAG_HIGH_PRIORITY (fgSessionId s))"
    "pending (gPortDevices s5 ! i)" "pending_sequence (gPortDevices s5 ! i) = fgNextSequence s"
    "fgSessionId s5 = fgSessionId s" "os_now (com_os (rp_com s5)) = os_now (com_os (rp_com s))"
    "fgActiveReceivers s5 = fgActiveReceivers s" "fgLinkStats s5 = tx_frames_update (\<lambda>n. n + 1) (fgLinkStats s)"
    "\<not> pending (gPortDevices (f s5) ! i) \<Longrightarrow> raspike_request port cmd data n t sc s =
      (let (r, s7) = request_finish cmd (fgNextSequence s) i True (- ETIMEDOUT) (f s5)
       in (r, sc\<lparr>s_waits := rest\<rparr>, s7))"
proof -
  let ?t = "if t \<le> 0 then RP_REQUEST_TIMEOUT_MS else t"
  have s1: "sends (Suc 0) s" using assms(2) by (simp add: One_nat_def)
  obtain s4 where
    s4: "linked s4" "sends (Suc 0) s4" "rp_com s4 = rp_com s" "fgLinkStats s4 = fgLinkStats s"
      "fgSessionId s4 = fgSessionId s" "fgActiveReceivers s4 = fgActiveReceivers s" "pending (gPortDevices s4 ! i)"
      "pending_sequence (gPortDevices s4 ! i) = fgNextSequence s"
    and run: "\<And>completed result sc' s5. request_attempts 2 port cmd data n (fgNextSequence s) ?t i (- ETIMEDOUT)
        sc s4 = (completed, result, sc', s5) \<Longrightarrow> s_steps sc' = [] \<Longrightarrow> raspike_request port cmd data n t sc s =
        (let (r, s7) = request_finish cmd (fgNextSequence s) i completed result s5 in (r, sc', s7))"
    by (rule request_begins [OF assms(1) s1 assms(6-8), of cmd data n t]) (rule that)
  from attempt_ended [OF s4(1,2) assms(3-5,7-9) s4(7), of cmd "fgNextSequence s" "Suc 0" ?t "- ETIMEDOUT"]
  obtain s5 where
    s5: "linked s5" "wire_out s5 = wire_out s4 @ v2_frame_bytes (message_of port cmd data n (fgNextSequence s)
        RP_V2_FLAG_HIGH_PRIORITY (fgSessionId s4))" "gPortDevices s5 = gPortDevices s4"
      "fgSessionId s5 = fgSessionId s4" "os_now (com_os (rp_com s5)) = os_now (com_os (rp_com s4))"
      "fgActiveReceivers s5 = fgActiveReceivers s4" "fgLinkStats s5 = tx_frames_update (\<lambda>n. n + 1) (fgLinkStats s4)"
    and att: "\<not> pending (gPortDevices (f s5) ! i) \<Longrightarrow> request_attempts 2 port cmd data n (fgNextSequence s) ?t i
        (- ETIMEDOUT) sc s4 = (True, - ETIMEDOUT, sc\<lparr>s_waits := rest\<rparr>, f s5)"
    unfolding numeral_2_eq_2 by blast
  show thesis
    using s4 s5 run [OF att] assms(8) by (intro that [of s5]) (simp_all add: wire_out_def)
qed

lemma request_answered_by:
  assumes "linked s" "sends 1 s" "good_payload data n" "0 \<le> n" "n \<le> 240"
    and "getDevice port = Some i" "raspike_is_valid_port port"
    and "s_steps sc = []" "s_waits sc = (f, 0) # rest"
    and "ack_for i cmd (fgNextSequence s) (fgSessionId s) v m" "\<And>s. linked s \<Longrightarrow> f s = hub_step m s"
  shows "\<exists>s'. raspike_request port cmd data n t sc s = (sint v, sc\<lparr>s_waits := rest\<rparr>, s') \<and>
    wire_out s' = wire_out s @ v2_frame_bytes (message_of port cmd data n (fgNextSequence s)
      RP_V2_FLAG_HIGH_PRIORITY (fgSessionId s)) \<and>
    \<not> pending (gPortDevices s' ! i) \<and> tx_frames (fgLinkStats s') = tx_frames (fgLinkStats s) + 1 \<and>
    request_retries (fgLinkStats s') = request_retries (fgLinkStats s) \<and>
    request_timeouts (fgLinkStats s') = request_timeouts (fgLinkStats s)"
proof -
  obtain s5 where
    s5: "linked s5" "wire_out s5 = wire_out s @ v2_frame_bytes (message_of port cmd data n
        (fgNextSequence s) RP_V2_FLAG_HIGH_PRIORITY (fgSessionId s))"
      "pending (gPortDevices s5 ! i)" "pending_sequence (gPortDevices s5 ! i) = fgNextSequence s"
      "fgSessionId s5 = fgSessionId s" "fgLinkStats s5 = tx_frames_update (\<lambda>n. n + 1) (fgLinkStats s)"
    and run: "\<not> pending (gPortDevices (f s5) ! i) \<Longrightarrow> raspike_request port cmd data n t sc s =
      (let (r, s7) = request_finish cmd (fgNextSequence s) i True (- ETIMEDOUT) (f s5)
       in (r, sc\<lparr>s_waits := rest\<rparr>, s7))"
    by (rule request_ended [OF assms(1-9), of cmd t]) (rule that)
  note i7 = getDevice_bound [OF assms(6)]
  have "length (gPortDevices s5) = 7" using s5(1) by (simp add: linked_def)
  moreover have "f s5 = update_device i (\<lambda>dev. dev\<lparr>ack_cmd := int (unat cmd), ack_data := sint v,
      ack_sequence := fgNextSequence s, ack_session := fgSessionId s5, pending := False\<rparr>) s5"
    unfolding assms(11) [OF s5(1)] using assms(10) s5 i7 by (intro ack_step) simp_all
  moreover have "int (unat cmd) \<noteq> -1" using of_nat_0_le_iff [of "unat cmd"] by linarith
  ultimately show ?thesis
    using run i7 s5 by (simp add: request_finish_def update_device_def wire_out_def Let_def)
qed

text \<open>C7. A request that the hub answers while it waits: one frame is on the line, the result is the
  answer's value, no request is left waiting on the port, and neither a retry nor a time-out is
  counted.\<close>

theorem request_roundtrip:
  assumes "linked s" "sends 1 s" "good_payload data n" "0 \<le> n" "n \<le> 240"
    and "getDevice port = Some i" "raspike_is_valid_port port"
    and "s_steps sc = []" "s_waits sc = (hub_step m, 0) # rest"
    and "ack_for i cmd (fgNextSequence s) (fgSessionId s) v m"
  shows "\<exists>s'. raspike_request port cmd data n t sc s = (sint v, sc\<lparr>s_waits := rest\<rparr>, s') \<and>
    wire_out s' = wire_out s @ v2_frame_bytes (message_of port cmd data n (fgNextSequence s)
      RP_V2_FLAG_HIGH_PRIORITY (fgSessionId s)) \<and>
    \<not> pending (gPortDevices s' ! i) \<and> tx_frames (fgLinkStats s') = tx_frames (fgLinkStats s) + 1 \<and>
    request_retries (fgLinkStats s') = request_retries (fgLinkStats s) \<and>
    request_timeouts (fgLinkStats s') = request_timeouts (fgLinkStats s)"
  by (rule request_answered_by [OF assms refl])

definition demo_answer :: v2_message where
  "demo_answer = demo_message 1 RP_CMD_ID_ACK 1 (le32 (ucast RP_CMD_ID_MOT_RST) @ le32 1)"

lemma demo_link_sends_frames: "k \<le> 200 \<Longrightarrow> sends k (demo_link reads (replicate k (WriteCount 256)))"
proof -
  assume "k \<le> 200"
  then have "replicate 200 (PollEvents 0 POLLIN) =
      replicate k (PollEvents 0 POLLIN) @ replicate (200 - k) (PollEvents 0 POLLIN)"
    by (metis le_add_diff_inverse replicate_add)
  then show ?thesis
    by (auto simp: sends_def open_lines_def usable_def normal_mode_def demo_desc_def demo_link_def
        demo_start_def demo_com_def demo_os_def idle_os_def initial_rp_def)
qed

theorem request_roundtrip_witness:
  "\<exists>s'. raspike_request 1 RP_CMD_ID_MOT_RST None 0 2000
      \<lparr>s_steps = [], s_waits = [(hub_step demo_answer, 0)]\<rparr> (demo_link [] (replicate 1 (WriteCount 256))) =
      (sint (1 :: i32), \<lparr>s_steps = [], s_waits = [(hub_step demo_answer, 0)]\<rparr>\<lparr>s_waits := []\<rparr>, s') \<and>
    \<not> pending (gPortDevices s' ! 1)"
proof -
  let ?s = "demo_link [] (replicate 1 (WriteCount 256))"
  have port: "getDevice 1 = Some 1" "raspike_is_valid_port 1" "good_payload None 0"
    by code_simp+
  have "ack_for 1 RP_CMD_ID_MOT_RST (fgNextSequence ?s) (fgSessionId ?s) 1 demo_answer"
    using port(1) by (simp add: ack_for_def demo_answer_def demo_message_def)
  moreover have "sends 1 ?s" by (rule demo_link_sends_frames) simp
  ultimately show ?thesis
    using port request_roundtrip [OF demo_link_linked, of "[]" "replicate 1 (WriteCount 256)" None 0 1 1
        "\<lparr>s_steps = [], s_waits = [(hub_step demo_answer, 0)]\<rparr>" demo_answer "[]" RP_CMD_ID_MOT_RST 1 2000]
    by auto
qed

lemma sends_deadline: "sends k s \<Longrightarrow> \<exists>d. on_os (deadline_after_ms clk t) s = (d, s)"
  using deadline_same [OF sends_ticks] by (metis surjective_pairing)

lemma pass_until_more [simp]:
  "fgLinkStats (pass_until d s) = fgLinkStats s" "fgSessionId (pass_until d s) = fgSessionId s"
  "fgUseProtocolV2 (pass_until d s) = fgUseProtocolV2 s" "fgNextSequence (pass_until d s) = fgNextSequence s"
  by (simp_all add: pass_until_def on_os_def)

lemma quiet_simps:
  "quiet\<lparr>s_waits := []\<rparr> = quiet" "s_waits quiet = []" "others_run quiet s = (quiet, s)"
  by (simp_all add: quiet_def others_run_def)

abbreviation now_of :: "rp \<Rightarrow> int" where
  "now_of s \<equiv> os_now (com_os (rp_com s))"

text \<open>A wait that times out ends at the deadline.\<close>

lemma wait_takes:
  assumes "on_os (deadline_after_ms CLOCK_MONOTONIC t) s = (d, s')" "0 \<le> t"
  shows "now_of (pass_until d s') = now_of s' + t * 10 ^ 6"
proof -
  obtain w where w: "deadline_after_ms CLOCK_MONOTONIC t (com_os (rp_com s)) = (d, w)" "com_os (rp_com s') = w"
    using assms(1) by (auto simp: on_os_def split: prod.splits)
  have "tv_sec d * 10 ^ 9 + tv_nsec d = os_now w + t * 10 ^ 6"
    using deadline_exact [OF w(1) assms(2)] by simp
  then show ?thesis using w(2) assms(2) by (simp add: pass_until_def on_os_def)
qed

text \<open>One attempt to which nobody answers.\<close>

lemma attempt_unanswered:
  assumes "sends (Suc k) s" "good_payload data n" "0 \<le> n" "n \<le> 240" "raspike_is_valid_port port"
    and "pending (gPortDevices s ! i)" "0 \<le> t"
  obtains s' where "sends k s'" "gPortDevices s' = gPortDevices s" "fgSessionId s' = fgSessionId s"
    "now_of s' = now_of s + t * 10 ^ 6"
    "fgNextSequence s' = fgNextSequence s" "linked s' = linked s"
    "wire_out s' = wire_out s @ v2_frame_bytes (message_of port cmd data n q RP_V2_FLAG_HIGH_PRIORITY (fgSessionId s))"
    "fgLinkStats s' = tx_frames_update (\<lambda>n. n + 1) (fgLinkStats s)"
    "request_attempts (Suc left) port cmd data n q t i result quiet s =
      request_attempts left port cmd data n q t i result quiet
        (if left > 0 then stats_increment request_retries_update s' else s')"
proof -
  from send_frame_open [OF assms(1-5)] obtain c where
    sent: "send_frame port cmd data n q RP_V2_FLAG_HIGH_PRIORITY True s =
      (16 + n, stats_increment tx_frames_update (s\<lparr>rp_com := c\<rparr>))" and c: "sends k (s\<lparr>rp_com := c\<rparr>)"
    "on_line c = wire_out s @ v2_frame_bytes (message_of port cmd data n q RP_V2_FLAG_HIGH_PRIORITY (fgSessionId s))"
    "os_now (com_os c) = now_of s"
    by blast
  define s1 where "s1 = stats_increment tx_frames_update (s\<lparr>rp_com := c\<rparr>)"
  have "sends k s1" using c(1) by (simp add: s1_def)
  then have s1: "sends k s1" "gPortDevices s1 = gPortDevices s" "fgSessionId s1 = fgSessionId s"
    "fgNextSequence s1 = fgNextSequence s" "linked s1 = linked s" "wire_out s1 = on_line c"
    "now_of s1 = now_of s" "fgLinkStats s1 = tx_frames_update (\<lambda>n. n + 1) (fgLinkStats s)"
    using c(3) by (simp_all add: s1_def stats_increment_def linked_def wire_out_def)
  from sends_deadline [OF s1(1)] obtain d where dl: "on_os (deadline_after_ms CLOCK_MONOTONIC t) s1 = (d, s1)" by blast
  let ?s = "pass_until d s1"
  have wait: "await_ack i d (s_waits quiet) result s1 = (result, [], ?s)"
    using assms(6) s1(2) by (simp add: await_ack.simps quiet_def)
  have "request_attempts (Suc left) port cmd data n q t i result quiet s =
      request_attempts left port cmd data n q t i result quiet
        (if left > 0 then stats_increment request_retries_update ?s else ?s)"
    using assms(3,6) sent dl wait s1(2)
    by (simp add: quiet_simps s1_def [symmetric] Let_def)
  with s1 c(2) sends_pass [OF s1(1)] wait_takes [OF dl assms(7)] show ?thesis by (intro that [of ?s]) simp_all
qed

lemma request_closed:
  assumes "i < RP_PORT_NUMBER"
  shows "linked s \<Longrightarrow> \<not> pending (gPortDevices
      (update_device i (\<lambda>dev. dev\<lparr>pending := False\<rparr>) (stats_increment request_timeouts_update s)) ! i)"
    "linked (update_device i (\<lambda>dev. dev\<lparr>pending := False\<rparr>) (stats_increment request_timeouts_update s)) = linked s"
    "wire_out (update_device i (\<lambda>dev. dev\<lparr>pending := False\<rparr>) (stats_increment request_timeouts_update s)) = wire_out s"
    "fgNextSequence (update_device i (\<lambda>dev. dev\<lparr>pending := False\<rparr>) (stats_increment request_timeouts_update s)) =
      fgNextSequence s"
    "fgLinkStats (update_device i (\<lambda>dev. dev\<lparr>pending := False\<rparr>) (stats_increment request_timeouts_update s)) =
      request_timeouts_update (\<lambda>n. n + 1) (fgLinkStats s)"
  using assms by (simp_all add: update_device_def stats_increment_def wire_out_def linked_def)

text \<open>C8. A request nobody answers is sent twice, as the same frame with the same sequence number,
  and fails with \<open>-ETIMEDOUT\<close> after twice its time-out, to the nanosecond: one retry and one
  time-out are counted, no request is left waiting, and the next request has a new number.\<close>

theorem request_unanswered:
  assumes "linked s" "sends 2 s" "good_payload data n" "0 \<le> n" "n \<le> 240"
    and "getDevice port = Some i" "raspike_is_valid_port port"
  shows "\<exists>s'. raspike_request port cmd data n t quiet s = (- ETIMEDOUT, quiet, s') \<and>
    (let f = v2_frame_bytes (message_of port cmd data n (fgNextSequence s) RP_V2_FLAG_HIGH_PRIORITY (fgSessionId s))
     in wire_out s' = wire_out s @ f @ f) \<and>
    now_of s' = now_of s + 2 * (if t \<le> 0 then RP_REQUEST_TIMEOUT_MS else t) * 10 ^ 6 \<and>
    \<not> pending (gPortDevices s' ! i) \<and> linked s' \<and> fgNextSequence s' \<noteq> fgNextSequence s \<and>
    request_retries (fgLinkStats s') = request_retries (fgLinkStats s) + 1 \<and>
    request_timeouts (fgLinkStats s') = request_timeouts (fgLinkStats s) + 1"
proof -
  let ?t = "if t \<le> 0 then RP_REQUEST_TIMEOUT_MS else t" and ?q = "fgNextSequence s"
  have s2: "sends (Suc (Suc 0)) s" using assms(2) by (simp add: numeral_2_eq_2)
  have none: "s_steps quiet = []" by (simp add: quiet_def)
  obtain s4 where
    s4: "linked s4" "sends (Suc (Suc 0)) s4" "rp_com s4 = rp_com s" "fgLinkStats s4 = fgLinkStats s"
      "fgSessionId s4 = fgSessionId s" "fgNextSequence s4 \<noteq> ?q" "pending (gPortDevices s4 ! i)"
      "ack_cmd (gPortDevices s4 ! i) = 0"
    and run: "\<And>completed result sc' s5. request_attempts 2 port cmd data n ?q ?t i (- ETIMEDOUT)
        quiet s4 = (completed, result, sc', s5) \<Longrightarrow> s_steps sc' = [] \<Longrightarrow> raspike_request port cmd data n t quiet s =
        (let (r, s7) = request_finish cmd ?q i completed result s5 in (r, sc', s7))"
    by (rule request_begins [OF assms(1) s2 assms(6,7) none, of cmd data n t]) (rule that)
  have t0: "0 \<le> ?t" by simp
  from attempt_unanswered [OF s4(2) assms(3-5,7) s4(7) t0, of cmd ?q "Suc 0" "- ETIMEDOUT"] obtain s5 where
    now5: "now_of s5 = now_of s4 + ?t * 10 ^ 6" and
    s5: "sends (Suc 0) s5" "gPortDevices s5 = gPortDevices s4" "fgSessionId s5 = fgSessionId s4"
    "fgNextSequence s5 = fgNextSequence s4" "linked s5 = linked s4"
    "wire_out s5 = wire_out s4 @ v2_frame_bytes (message_of port cmd data n ?q RP_V2_FLAG_HIGH_PRIORITY (fgSessionId s4))"
    "fgLinkStats s5 = tx_frames_update (\<lambda>n. n + 1) (fgLinkStats s4)"
    "request_attempts (Suc (Suc 0)) port cmd data n ?q ?t i (- ETIMEDOUT) quiet s4 =
      request_attempts (Suc 0) port cmd data n ?q ?t i (- ETIMEDOUT) quiet (stats_increment request_retries_update s5)"
    by auto
  define s6 where "s6 = stats_increment request_retries_update s5"
  have s6: "sends (Suc 0) s6" "pending (gPortDevices s6 ! i)" using s5(1,2) s4(7) by (simp_all add: s6_def)
  from attempt_unanswered [OF s6(1) assms(3-5,7) s6(2) t0, of cmd ?q 0 "- ETIMEDOUT"] obtain s7 where
    now7: "now_of s7 = now_of s6 + ?t * 10 ^ 6" and
    s7: "gPortDevices s7 = gPortDevices s6" "fgSessionId s7 = fgSessionId s6"
    "fgNextSequence s7 = fgNextSequence s6" "linked s7 = linked s6"
    "wire_out s7 = wire_out s6 @ v2_frame_bytes (message_of port cmd data n ?q RP_V2_FLAG_HIGH_PRIORITY (fgSessionId s6))"
    "fgLinkStats s7 = tx_frames_update (\<lambda>n. n + 1) (fgLinkStats s6)"
    "request_attempts (Suc 0) port cmd data n ?q ?t i (- ETIMEDOUT) quiet s6 = (False, - ETIMEDOUT, quiet, s7)"
    by auto
  let ?s = "update_device i (\<lambda>dev. dev\<lparr>pending := False\<rparr>) (stats_increment request_timeouts_update s7)"
  have "raspike_request port cmd data n t quiet s = (- ETIMEDOUT, quiet, ?s)"
    using run [of False "- ETIMEDOUT" quiet s7] none s5(8) s7(7)
    by (simp add: s6_def numeral_2_eq_2 request_finish_def Let_def)
  moreover note request_closed [OF getDevice_bound [OF assms(6)], of s7]
  moreover have "linked s7" using s4(1) s5(5) s7(4) by (simp add: s6_def linked_def stats_increment_def)
  moreover have "now_of ?s = now_of s + 2 * ?t * 10 ^ 6"
    using s4(3) now5 now7 by (simp add: s6_def update_device_def stats_increment_def)
  ultimately show ?thesis
    using s4 s5 s7 by (intro exI [of _ ?s]) (simp add: s6_def stats_increment_def wire_out_def Let_def)
qed

theorem request_unanswered_witness:
  "\<exists>s'. raspike_request 1 RP_CMD_ID_MOT_RST None 0 2000 quiet (demo_link [] (replicate 2 (WriteCount 256))) =
      (- ETIMEDOUT, quiet, s') \<and> request_retries (fgLinkStats s') =
      request_retries (fgLinkStats (demo_link [] (replicate 2 (WriteCount 256)))) + 1"
proof -
  have port: "getDevice 1 = Some 1" "raspike_is_valid_port 1" "good_payload None 0" "(0 :: int) \<le> 0" "(0 :: int) \<le> 240"
    by code_simp+
  have "sends 2 (demo_link [] (replicate 2 (WriteCount 256)))" by (rule demo_link_sends_frames) simp
  from request_unanswered [OF demo_link_linked this port(3,4,5,1,2), of RP_CMD_ID_MOT_RST 2000]
  show ?thesis by auto
qed

text \<open>C2. Let the other threads do any number of steps wherever the request waits for a mutex or for its
  answer: dispatch messages, enter and leave as receivers, send, and make calls on other ports, but
  not shut the link down (that is C3). A result that is not an error is the value of an
  acknowledgement among the messages, for the request's own port and command, with its own
  sequence number, in the session that holds when the request ends.\<close>

theorem request_result_from_ack:
  assumes "raspike_request port cmd data n t sc s = (r, sc', s')" "0 \<le> r" "getDevice port = Some i"
    and "linked s" "sched_of (beside ms i) sc" "fgNextSequence (snd (others_run sc s)) = q" "q \<noteq> 0"
  shows "\<exists>m \<in> ms. m_cmd m = RP_CMD_ID_ACK \<and> getDevice (m_port m) = Some i \<and>
    length (m_payload m) = 8 \<and> m_sequence m = q \<and> m_session m = fgSessionId s' \<and>
    sint (rp_v2_get_u32 (m_payload m) 0) = int (unat cmd) \<and>
    sint (rp_v2_get_u32 (m_payload m) 4) = r"
  by (rule request_answered [OF assms])

theorem request_result_from_ack_witness:
  "\<exists>m \<in> {demo_answer}. m_sequence m = 1 \<and> sint (rp_v2_get_u32 (m_payload m) 4) = sint (1 :: i32)"
proof -
  let ?s = "demo_link [] (replicate 1 (WriteCount 256))"
  let ?sc = "\<lparr>s_steps = [], s_waits = [(hub_step demo_answer, 0)]\<rparr>"
  have port: "getDevice 1 = Some 1" "raspike_is_valid_port 1" "good_payload None 0"
    by code_simp+
  have "ack_for 1 RP_CMD_ID_MOT_RST (fgNextSequence ?s) (fgSessionId ?s) 1 demo_answer"
    using port(1) by (simp add: ack_for_def demo_answer_def demo_message_def)
  moreover have "sends 1 ?s" by (rule demo_link_sends_frames) simp
  ultimately obtain sc' s' where call:
    "raspike_request 1 RP_CMD_ID_MOT_RST None 0 2000 ?sc ?s = (sint (1 :: i32), sc', s')"
    using port request_roundtrip [OF demo_link_linked, of "[]" "replicate 1 (WriteCount 256)" None 0 1 1
        ?sc demo_answer "[]" RP_CMD_ID_MOT_RST 1 2000] by auto
  have "sched_of (beside {demo_answer} 1) ?sc" by (simp add: sched_of_def waits_of_def beside.dispatch)
  moreover have "fgNextSequence (snd (others_run ?sc ?s)) = 1" by (simp add: others_run_def)
  ultimately show ?thesis
    using request_result_from_ack [OF call _ port(1) demo_link_linked, of "{demo_answer}" 1] by auto
qed

subsection \<open>Requests of several threads\<close>

text \<open>What a step beside port \<open>i\<close> makes of a state.\<close>

definition steps_beside :: "v2_message set \<Rightarrow> nat \<Rightarrow> rp \<Rightarrow> rp \<Rightarrow> bool" where
  "steps_beside ms i s0 s \<longleftrightarrow> (\<exists>f. beside ms i f \<and> s = f s0)"

lemma steps_none: "steps_beside ms i s s"
  unfolding steps_beside_def by (rule exI [of _ id]) (simp add: beside.idle)

lemma steps_more: "beside ms i f \<Longrightarrow> steps_beside ms i s0 s \<Longrightarrow> steps_beside ms i s0 (f s)"
  unfolding steps_beside_def using beside.andthen by blast

interpretation others_steps: request_context "steps_beside ms i s0" "beside ms i" for ms i s0
proof (unfold_locales, goal_cases)
  case (1 f s)
  then show ?case by (rule steps_more)
next
  case (2 port cmd buf n q fl now s r s')
  then show ?case using steps_more [OF beside.frame [of ms i port cmd buf n q fl now]] by fastforce
next
  case (3 s w)
  then show ?case using steps_more [OF beside.time [of ms i "\<lambda>_. ((), w)"]] by (simp add: on_os_def)
next
  case (4 s c)
  then show ?case using steps_more [OF beside.count [of ms i c]] by simp
next
  case (5 s)
  then show ?case using steps_more [OF beside.number [of ms i]] by simp
qed

lemma request_finish_beside:
  assumes "request_finish cmd q j completed result s = (r, s')" "j \<noteq> i" "steps_beside ms i s0 s"
  shows "steps_beside ms i s0 s'"
proof -
  have "s' = update_device j (\<lambda>dev. dev\<lparr>pending := False\<rparr>) s \<or>
      s' = update_device j (\<lambda>dev. dev\<lparr>pending := False\<rparr>) (stats_increment request_timeouts_update s)"
    using assms(1) by (auto simp: request_finish_def Let_def split: if_splits)
  then show ?thesis
    using steps_more [OF beside.slot [OF assms(2)]] steps_more [OF beside.count] assms(3) by blast
qed

lemma steps_phases:
  "j \<noteq> i \<Longrightarrow> request_phases (steps_beside ms i s0) (steps_beside ms i s0) (beside ms i) j q"
  by unfold_locales (rule steps_more [OF beside.slot])

lemma request_steps:
  assumes "raspike_request port cmd data n t sc s = (r, sc', s')" "getDevice port \<noteq> Some i"
    and "sched_of (beside ms i) sc"
  shows "steps_beside ms i s s'"
proof (cases "raspike_is_valid_port port")
  case False
  with assms(1) steps_none show ?thesis by (simp add: raspike_request_def)
next
  case True
  from getDevice_valid [OF this] obtain j where j: "getDevice port = Some j" by blast
  then have ne: "j \<noteq> i" using assms(2) by simp
  show ?thesis
  proof (rule request_phases.request_ends [OF steps_phases [OF ne] assms(1) True j refl steps_none assms(3)])
    fix completed result s6
    assume "steps_beside ms i s s6"
      "request_finish cmd (fgNextSequence (snd (others_run sc s))) j completed result s6 = (r, s')"
    then show "steps_beside ms i s s'" using request_finish_beside ne by blast
  qed
qed

text \<open>C6. A whole request on another port, with whatever happens beside it, is one of the steps that C2
  lets a request on port \<open>i\<close> meet at each of its points, alone or among others, once or any number
  of times. So C2 speaks of threads that have requests under way on different ports.\<close>

theorem request_is_beside:
  assumes "getDevice port \<noteq> Some i" "sched_of (beside ms i) sc"
  shows "beside ms i (\<lambda>s. snd (snd (raspike_request port cmd data n t sc s)))"
proof (rule beside_steps.pointwise)
  fix s
  obtain r sc' s' where "raspike_request port cmd data n t sc s = (r, sc', s')"
    by (cases "raspike_request port cmd data n t sc s")
  from request_steps [OF this assms] this
  show "\<exists>g. beside ms i g \<and> snd (snd (raspike_request port cmd data n t sc s)) = g s"
    by (simp add: steps_beside_def)
qed

text \<open>Two requests on port 2 that run while one on port 1 waits, and a message dispatched after them, are
  a schedule of C2.\<close>

theorem request_is_beside_witness:
  "sched_of (beside {demo_answer} 1) \<lparr>s_steps = [], s_waits = [(\<lambda>s. hub_step demo_answer
      (snd (snd (raspike_request 2 RP_CMD_ID_COL_LIGHT_SET None 0 1000 quiet
        (snd (snd (raspike_request 2 RP_CMD_ID_COL_LIGHT_SET None 0 1000 quiet s)))))), 0)]\<rparr>"
proof -
  have "getDevice 2 \<noteq> Some 1" by code_simp
  moreover have "sched_of (beside {demo_answer} 1) quiet" by (simp add: sched_of_def waits_of_def quiet_def)
  ultimately have call: "beside {demo_answer} 1 (\<lambda>s. snd (snd (raspike_request 2 RP_CMD_ID_COL_LIGHT_SET None 0 1000 quiet s)))"
    by (rule request_is_beside)
  have "beside {demo_answer} 1 (hub_step demo_answer)" by (simp add: beside.dispatch)
  from beside.andthen [OF beside.andthen [OF call call] this]
  show ?thesis by (simp add: sched_of_def waits_of_def)
qed

end
