(* ===== verification/Device_Properties.thy ===== *)
theory Device_Properties
  imports Hub Request_Properties
begin

section \<open>Properties of the devices and the hub\<close>

text \<open>
  Which device a port gives out, what a motor's commands put on the line, what its readings are,
  the texts and tones of the hub, and the modes of the sensors.
\<close>

subsection \<open>Devices are given out once\<close>

lemma device_port_index:
  assumes "raspike_is_valid_port r" "r \<noteq> RP_PORT_NONE"
  shows "getDevice r = Some (unat r)" "unat r < 6"
proof -
  have "r < 6" using assms by (simp add: raspike_is_valid_port_def)
  then show "unat r < 6" by (simp add: word_less_nat_alt)
  show "getDevice r = Some (unat r)" using \<open>r < 6\<close> assms(2) by (simp add: getDevice_def not_le)
qed

text \<open>C33. A device that was given out belongs to its port and to its type, whatever the other threads
  dispatched and called meanwhile on the open link: asking again for the same type gives the same device without touching the
  line, asking for another type gives none.\<close>

theorem get_device_exclusive:
  assumes "GET_DEVICE_COMMON ty port sc s = (Some i, sc', s')" "ty \<noteq> 0"
    and "linked s" "sched_of (beside ms k) sc"
  shows "i = unat (PORT_TO_RASPIKE port) \<and> i < 6 \<and> linked s' \<and>
    GET_DEVICE_COMMON ty' port quiet s' = (if ty' = ty then Some i else None, quiet, s')"
proof -
  let ?r = "PORT_TO_RASPIKE port"
  have valid: "raspike_is_valid_port ?r" "?r \<noteq> RP_PORT_NONE"
    using assms(1) by (auto simp: GET_DEVICE_COMMON_def Let_def split: if_splits)
  note idx = device_port_index [OF valid]
  obtain sc1 s1 where o1: "others_run sc s = (sc1, s1)" by (cases "others_run sc s")
  have l1: "linked s1" "sched_of (beside ms k) sc1" using on_link.run_inv [OF o1 assms(4,3)] by simp_all
  obtain c sc2 s2 where req: "raspike_request ?r (MAKE_CMD ty 0) None 0 1500 sc1 s1 = (c, sc2, s2)"
    by (cases "raspike_request ?r (MAKE_CMD ty 0) None 0 1500 sc1 s1") auto
  have l2: "linked s2" using request_linked [OF req l1] by simp
  then have len: "length (gPortDevices s2) = 7" by (simp add: linked_def)
  from assms(1) valid idx o1 req have i: "i = unat ?r"
    and "s' = s1 \<and> device_type (device (gPortDevices s1 ! i)) = ty \<or>
      s' = set_device i (\<lambda>dev. dev\<lparr>device_type := ty, port_id := ?r\<rparr>) s2"
    by (auto simp: GET_DEVICE_COMMON_def Let_def split: if_splits)
  then have "device_type (device (gPortDevices s' ! i)) = ty" "linked s'"
    using idx(2) len l1(1) l2 by (auto simp: set_device_def update_device_def linked_def)
  with i idx valid assms(2) show ?thesis
    by (simp add: GET_DEVICE_COMMON_def quiet_simps)
qed

lemma motor_config_ack:
  assumes "ack_for 1 (MAKE_CMD RP_CMD_TYPE_MOTOR 0) 1 10000 1 m"
  shows "\<exists>sc' s'. GET_DEVICE_COMMON RP_CMD_TYPE_MOTOR 0x42 \<lparr>s_steps = [], s_waits = [(hub_step m, 0)]\<rparr>
    (demo_link [] (replicate 1 (WriteCount 256))) = (Some 1, sc', s')"
proof -
  let ?s = "demo_link [] (replicate 1 (WriteCount 256))"
  let ?sc = "\<lparr>s_steps = [], s_waits = [(hub_step m, 0)]\<rparr>"
  have port: "getDevice 1 = Some 1" "raspike_is_valid_port 1" "good_payload None 0" "PORT_TO_RASPIKE 0x42 = 1"
    "RP_CMD_TYPE_MOTOR \<noteq> 0"
    by code_simp+
  moreover have "sends 1 ?s" by (rule demo_link_sends_frames) simp
  ultimately obtain sc' s' where call:
    "raspike_request 1 (MAKE_CMD RP_CMD_TYPE_MOTOR 0) None 0 1500 ?sc ?s = (1, sc', s')"
    using assms request_roundtrip [OF demo_link_linked, of "[]" "replicate 1 (WriteCount 256)" None 0 1 1
        ?sc m "[]" "MAKE_CMD RP_CMD_TYPE_MOTOR 0" 1 1500] by auto
  have "device_type (device (gPortDevices ?s ! 1)) = 0" by (simp add: init_port_device_def zero_device_def)
  with port call show ?thesis by (simp add: GET_DEVICE_COMMON_def others_run_quiet Let_def)
qed

definition demo_config_ack :: v2_message where
  "demo_config_ack = demo_message 1 RP_CMD_ID_ACK 1 (le32 (ucast (MAKE_CMD RP_CMD_TYPE_MOTOR 0)) @ le32 1)"

theorem get_device_exclusive_witness:
  "\<exists>s'. GET_DEVICE_COMMON RP_CMD_TYPE_MOTOR 0x42 quiet s' = (Some 1, quiet, s') \<and>
    GET_DEVICE_COMMON RP_CMD_TYPE_COLOR 0x42 quiet s' = (None, quiet, s')"
proof -
  let ?sc = "\<lparr>s_steps = [], s_waits = [(hub_step demo_config_ack, 0)]\<rparr>"
  have port: "getDevice 1 = Some 1" "RP_CMD_TYPE_MOTOR \<noteq> 0" "RP_CMD_TYPE_COLOR \<noteq> RP_CMD_TYPE_MOTOR" by code_simp+
  then have "ack_for 1 (MAKE_CMD RP_CMD_TYPE_MOTOR 0) 1 10000 1 demo_config_ack"
    by (simp add: ack_for_def demo_config_ack_def demo_message_def)
  from motor_config_ack [OF this] obtain sc' s' where
    first: "GET_DEVICE_COMMON RP_CMD_TYPE_MOTOR 0x42 ?sc (demo_link [] (replicate 1 (WriteCount 256))) = (Some 1, sc', s')"
    by blast
  have sc: "sched_of (beside {demo_config_ack} 1) ?sc" by (simp add: sched_of_def waits_of_def beside.dispatch)
  note again = get_device_exclusive [OF first port(2) demo_link_linked sc]
  from again [of RP_CMD_TYPE_MOTOR] again [of RP_CMD_TYPE_COLOR] port(3) show ?thesis by auto
qed

subsection \<open>The motor\<close>

text \<open>C34. End to end: once drive telemetry with a valid slot for a motor's port has been dispatched, and
  neither a later slot nor the colour part of the same frame names that port, the motor's count and
  speed are the hub's, with their signs, and so is its power, unless the last command was
  \<^verbatim>\<open>pup_motor_set_power\<close>: then the power is the one that was set (C39).\<close>

theorem motor_follows_telemetry:
  assumes "linked s" "m_cmd m = RP_CMD_ID_DRIVE_TELEMETRY" "raspike_is_valid_port (m_port m)"
    and "m_session m = fgSessionId s" "m_payload m = encode_drive_telemetry t" "wf_drive_telemetry t"
    and "p < 6" "pdev_port i s = of_nat p"
    and "slot_names t slot p" "slot = 1 \<or> slot = 0 \<and> \<not> slot_names t 1 p" "\<not> color_names t p"
  shows "\<exists>s'. dispatch_message m s = Some (0, s') \<and>
    pup_motor_get_count (Some i) quiet s' = Some (sint (dt_motor_count_deg t ! slot), quiet, s') \<and>
    pup_motor_get_speed (Some i) quiet s' = Some (sint (dt_motor_speed_deg_s t ! slot), quiet, s') \<and>
    pup_motor_get_power (Some i) quiet s' = Some
      (if pd_cmd (device (gPortDevices s ! i)) = RP_CMD_ID_MOT_POW then pd_power (device (gPortDevices s ! i))
       else sint (dt_motor_power t ! slot), quiet, s')"
proof -
  obtain st where st: "fgStatus s = Some st" using assms(1) by (auto simp: linked_def)
  from drive_telemetry_saved [OF assms(1) st assms(2-6)] obtain st' where
    d: "dispatch_message m s = Some (0, s\<lparr>fgStatus := Some st'\<rparr>)" "wf_status st'"
    "ports st' ! p = color_effect t p (slot_effect t p 1 (slot_effect t p 0 (ports st ! p)))"
    using assms(7) by blast
  let ?s = "s\<lparr>fgStatus := Some st'\<rparr>"
  have unat: "unat (of_nat p :: byte) = p" using assms(7) by (simp add: unat_of_nat_byte)
  have port: "pdev_port i ?s = of_nat p" "raspike_is_valid_port (of_nat p)" "length (ports st') = 6"
    using assms(7,8) d(2) unat
    by (simp_all add: pdev_port_def raspike_is_valid_port_def wf_status_def word_less_nat_alt)
  have "\<exists>rest. ps_data (ports st' ! p) = motor_data t slot @ rest"
    using assms(9-11) unfolding d(3) by (auto simp: color_effect_def slot_effect_def)
  then obtain rest where "ps_data (ports st' ! p) = motor_data t slot @ rest" ..
  then have data: "peek 0 4 (ps_data (ports st' ! p)) = le32 (dt_motor_count_deg t ! slot)"
    "peek 4 4 (ps_data (ports st' ! p)) = le32 (dt_motor_speed_deg_s t ! slot)"
    "peek 8 2 (ps_data (ports st' ! p)) = le16 (dt_motor_power t ! slot)"
    by (simp_all add: motor_data_def peek_def)
  have get: "rp_v2_get_u32 (le32 w) 0 = w" "rp_v2_get_u16 (le16 v) 0 = v" for w v
    using get_u32_bytes [of "[]" w "[]"] get_u16_bytes [of "[]" v "[]"] by simp_all
  show ?thesis
    using d(1) port unat assms(7) data get
    by (simp add: pup_motor_get_count_def pup_motor_get_speed_def pup_motor_get_power_def
        GET_AND_RET_SENSOR_COMMON_def port_bytes_def quiet_simps as_result_def i32_of_def i16_of_def
        RP_MOTOR_INDEX_COUNT_def)
qed

text \<open>A motor that was never given a power, and one whose last command set it to 40.\<close>

theorem motor_follows_telemetry_witness:
  "(\<exists>s'. pup_motor_get_count (Some 1) quiet s' = Some (sint (0x01010101 :: i32), quiet, s') \<and>
      pup_motor_get_power (Some 1) quiet s' = Some (sint (0x0101 :: i16), quiet, s')) \<and>
    (\<exists>s'. pup_motor_get_count (Some 1) quiet s' = Some (sint (0x01010101 :: i32), quiet, s') \<and>
      pup_motor_get_power (Some 1) quiet s' = Some (40, quiet, s'))"
proof -
  let ?t = "decode_drive_telemetry (replicate 32 1 @ [3, 3])"
  let ?m = "demo_message 255 RP_CMD_ID_DRIVE_TELEMETRY 0 (encode_drive_telemetry ?t)"
  let ?s = "\<lambda>cmd. update_device 1 (\<lambda>dev. dev\<lparr>device := zero_device\<lparr>port_id := 1, pd_cmd := cmd, pd_power := 40\<rparr>\<rparr>) (demo_link [] [])"
  have m: "m_cmd ?m = RP_CMD_ID_DRIVE_TELEMETRY" "raspike_is_valid_port (m_port ?m)"
    "m_session ?m = fgSessionId (?s cmd)" "m_payload ?m = encode_drive_telemetry ?t"
    "wf_drive_telemetry ?t" for cmd
    by (simp_all add: demo_message_def raspike_is_valid_port_def update_device_def)
  have s: "linked (?s cmd)" "(1 :: nat) < 6" "pdev_port 1 (?s cmd) = of_nat 1"
    "pd_cmd (device (gPortDevices (?s cmd) ! 1)) = cmd" "pd_power (device (gPortDevices (?s cmd) ! 1)) = 40" for cmd
    by (simp_all add: linked_def update_device_def pdev_port_def zero_device_def)
  have t: "slot_names ?t 1 1" "\<not> color_names ?t 1" "dt_motor_count_deg ?t ! 1 = 0x01010101"
    "dt_motor_power ?t ! 1 = 0x0101" "RP_CMD_ID_MOT_POW \<noteq> 0"
    by code_simp+
  note follows = motor_follows_telemetry [OF s(1) m s(2,3) t(1) _ t(2)]
  show ?thesis
    using follows [of 0] follows [of RP_CMD_ID_MOT_POW] s(4,5) [of 0] s(4,5) [of RP_CMD_ID_MOT_POW] t(3-5)
    by (intro conjI) (simp, blast)+
qed

text \<open>C39. \<^verbatim>\<open>pup_motor_set_power\<close> clamps: whatever power is asked for, the frame on the line
  carries it limited to the range from -100 to 100, and that is what \<^verbatim>\<open>pup_motor_get_power\<close>
  answers afterwards.\<close>

theorem set_power_clamps:
  assumes "sends 1 s" "i < length (gPortDevices s)" "raspike_is_valid_port (pdev_port i s)"
  shows "\<exists>s'. pup_motor_set_power (Some i) pw s = (PBIO_SUCCESS, s') \<and>
    (let p = max (-100) (min 100 (sint pw)) in
      wire_out s' = wire_out s @ v2_frame_bytes (message_of (pdev_port i s) RP_CMD_ID_MOT_POW
        (Some (le32 (word_of_int p))) 4 (fgNextSequence s) 0 (fgSessionId s)) \<and>
      pup_motor_get_power (Some i) quiet s' = Some (p, quiet, s'))"
proof -
  define P where "P = (let pw = (if sint pw < -100 then -100 else pw) in if sint pw > 100 then 100 else pw)"
  have limits: "sint (-100 :: i32) = -100" "sint (100 :: i32) = 100"
    by code_simp+
  have p: "sint P = max (-100) (min 100 (sint pw))" using limits by (auto simp: P_def Let_def)
  define s1 where "s1 = set_device i (\<lambda>dev. dev\<lparr>pd_cmd := RP_CMD_ID_MOT_POW, pd_power := sint P\<rparr>) s"
  obtain q s2 where seq: "next_sequence s1 = (q, s2)" by (cases "next_sequence s1")
  have s2: "sends (Suc 0) s2" "q = fgNextSequence s" "fgSessionId s2 = fgSessionId s" "wire_out s2 = wire_out s"
    "gPortDevices s2 = gPortDevices s1" "pdev_port i s1 = pdev_port i s"
    using seq assms(1,2)
    by (auto simp: next_sequence_def Let_def s1_def set_device_def pdev_port_def One_nat_def)
      (simp_all add: update_device_def wire_out_def)
  have "good_payload (Some (le32 P)) 4" by (simp add: good_payload_def bytes_at_def)
  from send_frame_open [OF s2(1) this _ _ assms(3), of RP_CMD_ID_MOT_POW q 0 False] obtain c where
    sent: "send_frame (pdev_port i s) RP_CMD_ID_MOT_POW (Some (le32 P)) 4 q 0 False s2 =
      (16 + 4, stats_increment tx_frames_update (s2\<lparr>rp_com := c\<rparr>))"
    "on_line c = wire_out s2 @ v2_frame_bytes (message_of (pdev_port i s) RP_CMD_ID_MOT_POW
      (Some (le32 P)) 4 q 0 (fgSessionId s2))" by auto
  let ?s = "stats_increment tx_frames_update (s2\<lparr>rp_com := c\<rparr>)"
  have "pup_motor_set_power (Some i) pw s =
      sent_to_pbio (raspike_prot_send (pdev_port i s1) RP_CMD_ID_MOT_POW (Some (le32 P)) 4 s1)"
    by (simp only: pup_motor_set_power_def s1_def P_def Let_def option.case)
  then have "pup_motor_set_power (Some i) pw s = (PBIO_SUCCESS, ?s)"
    using sent(1) seq s2(6) by (simp add: raspike_prot_send_def sent_to_pbio_def)
  moreover have "pup_motor_get_power (Some i) quiet ?s = Some (sint P, quiet, ?s)"
    using assms(2) s2(5)
    by (simp add: pup_motor_get_power_def stats_increment_def s1_def set_device_def update_device_def)
  ultimately show ?thesis
    using sent(2) s2 unfolding p [symmetric] Let_def
    by (intro exI [of _ ?s]) (simp add: stats_increment_def wire_out_def)
qed

theorem set_power_clamps_witness:
  "\<exists>s'. pup_motor_get_power (Some 1) quiet s' = Some (max (-100) (min 100 (sint (250 :: i32))), quiet, s')"
proof -
  let ?s = "demo_link [] (replicate 1 (WriteCount 256))"
  have "sends 1 ?s" by (rule demo_link_sends_frames) simp
  moreover have "1 < length (gPortDevices ?s)" "raspike_is_valid_port (pdev_port 1 ?s)"
    by (simp_all add: pdev_port_def init_port_device_def zero_device_def raspike_is_valid_port_def)
  ultimately show ?thesis using set_power_clamps [of ?s 1 250] unfolding Let_def by blast
qed

subsection \<open>The hub\<close>

lemma send_hub_command_open:
  assumes "sends (Suc k) s" "good_payload data (int n)" "n \<le> 240"
  shows "\<exists>s'. send_hub_command cmd data n s = (PBIO_SUCCESS, s') \<and> sends k s' \<and>
    wire_out s' = wire_out s @ v2_frame_bytes (message_of RP_PORT_NONE cmd data (int n) (fgNextSequence s)
      RP_V2_FLAG_HIGH_PRIORITY (fgSessionId s)) \<and>
    os_now (com_os (rp_com s')) = os_now (com_os (rp_com s)) \<and>
    os_sleeps (com_os (rp_com s')) = os_sleeps (com_os (rp_com s)) \<and>
    fgSessionId s' = fgSessionId s \<and> fgNextSequence s' = fgNextSequence (snd (next_sequence s))"
proof -
  obtain q s2 where seq: "next_sequence s = (q, s2)" by (cases "next_sequence s")
  have "sends (Suc k) s2" using seq assms(1) by (auto simp: next_sequence_def Let_def)
  moreover have s2: "q = fgNextSequence s" "fgSessionId s2 = fgSessionId s" "rp_com s2 = rp_com s"
    "wire_out s2 = wire_out s"
    using seq by (auto simp: next_sequence_def Let_def wire_out_def)
  moreover have "raspike_is_valid_port RP_PORT_NONE" by (simp add: raspike_is_valid_port_def)
  ultimately obtain c where sent: "send_frame RP_PORT_NONE cmd data (int n) q RP_V2_FLAG_HIGH_PRIORITY True s2 =
      (16 + int n, stats_increment tx_frames_update (s2\<lparr>rp_com := c\<rparr>))" "sends k (s2\<lparr>rp_com := c\<rparr>)"
      "os_now (com_os c) = os_now (com_os (rp_com s2))" "os_sleeps (com_os c) = os_sleeps (com_os (rp_com s2))"
      "on_line c = wire_out s2 @ v2_frame_bytes (message_of RP_PORT_NONE cmd data (int n) q
        RP_V2_FLAG_HIGH_PRIORITY (fgSessionId s2))"
    using send_frame_open [of k s2 data "int n" RP_PORT_NONE cmd q RP_V2_FLAG_HIGH_PRIORITY True] assms(2,3)
    by auto
  let ?s = "stats_increment tx_frames_update (s2\<lparr>rp_com := c\<rparr>)"
  have "send_hub_command cmd data n s = (PBIO_SUCCESS, ?s)"
    using sent(1) seq assms(3) by (simp add: send_hub_command_def raspike_prot_send_priority_def)
  moreover have "sends k ?s" using sent(2) by simp
  moreover have "rp_com ?s = c" "fgSessionId ?s = fgSessionId s2" "fgNextSequence ?s = fgNextSequence s2"
    by (simp_all add: stats_increment_def)
  ultimately show ?thesis using sent(3-5) s2 seq
    by (intro exI [of _ ?s]) (simp add: wire_out_def)
qed

text \<open>A text for the display goes out as one frame that holds the two times, the text and its
  terminating zero when it has at most 231 characters, and is refused without a trace when it has
  more: the payload never passes the 240 bytes.\<close>

lemma display_text_bounded:
  assumes "sends 1 s" "0 \<notin> set text"
  shows "if length text \<le> 231
    then \<exists>s'. hub_display_text (Some (text @ 0 # junk)) on off s = (PBIO_SUCCESS, s') \<and>
      wire_out s' = wire_out s @ v2_frame_bytes \<lparr>m_port = RP_PORT_NONE, m_cmd = RP_CMD_ID_HUB_DISP_TXT,
        m_flags = RP_V2_FLAG_HIGH_PRIORITY, m_sequence = fgNextSequence s, m_session = fgSessionId s,
        m_payload = le32 on @ le32 off @ text @ [0]\<rparr>
    else hub_display_text (Some (text @ 0 # junk)) on off s = (PBIO_ERROR_INVALID_ARG, s)"
proof -
  have len: "strnlen (text @ 0 # junk) 232 = min 232 (length text)"
  proof -
    have "takeWhile (\<lambda>b. b \<noteq> 0) (text @ 0 # junk) = text"
      using assms(2) by (simp add: takeWhile_append)
    then show ?thesis by (simp add: strnlen_def)
  qed
  show ?thesis
  proof (cases "length text \<le> 231")
    case False
    then show ?thesis using len by (simp add: hub_display_text_def Let_def)
  next
    case True
    let ?d1 = "poke 4 (le32 off) (poke 0 (le32 on) (replicate 240 (0 :: byte)))"
    let ?data = "(poke 8 text ?d1)[8 + length text := 0]"
    have "take (8 + length text + 1) ?data = le32 on @ le32 off @ text @ [0]"
    proof -
      have "232 - length text = Suc (231 - length text)" using True by simp
      then show ?thesis by (simp add: poke_def list_update_append)
    qed
    moreover have "length ?data = 240" using True by simp
    ultimately have pay: "bytes_at (Some ?data) (8 + length text + 1) = le32 on @ le32 off @ text @ [0]"
      "good_payload (Some ?data) (int (8 + length text + 1))"
      using True by (simp_all add: bytes_at_def good_payload_def)
    have call: "hub_display_text (Some (text @ 0 # junk)) on off s =
        send_hub_command RP_CMD_ID_HUB_DISP_TXT (Some ?data) (8 + length text + 1) s"
      using len True by (simp add: hub_display_text_def Let_def)
    from send_hub_command_open [of 0 s "Some ?data" "8 + length text + 1" RP_CMD_ID_HUB_DISP_TXT]
      assms(1) pay(2) True obtain s' where
      "send_hub_command RP_CMD_ID_HUB_DISP_TXT (Some ?data) (8 + length text + 1) s = (PBIO_SUCCESS, s')"
      "wire_out s' = wire_out s @ v2_frame_bytes (message_of RP_PORT_NONE RP_CMD_ID_HUB_DISP_TXT (Some ?data)
        (int (8 + length text + 1)) (fgNextSequence s) RP_V2_FLAG_HIGH_PRIORITY (fgSessionId s))"
      by (auto simp: One_nat_def)
    moreover have "nat (int (8 + length text + 1)) = 8 + length text + 1" by simp
    ultimately show ?thesis using call pay(1) True
      by (simp only: message_of_def if_True nat_int) blast
  qed
qed

lemma display_text_bounded_witness:
  "if length [72, 105 :: byte] \<le> 231
   then \<exists>s'. hub_display_text (Some ([72, 105] @ 0 # [7])) 500 50 (demo_link [] (replicate 1 (WriteCount 256))) =
       (PBIO_SUCCESS, s') \<and>
     wire_out s' = wire_out (demo_link [] (replicate 1 (WriteCount 256))) @ v2_frame_bytes
       \<lparr>m_port = RP_PORT_NONE, m_cmd = RP_CMD_ID_HUB_DISP_TXT, m_flags = RP_V2_FLAG_HIGH_PRIORITY,
        m_sequence = fgNextSequence (demo_link [] (replicate 1 (WriteCount 256))),
        m_session = fgSessionId (demo_link [] (replicate 1 (WriteCount 256))),
        m_payload = le32 500 @ le32 50 @ [72, 105] @ [0]\<rparr>
   else hub_display_text (Some ([72, 105] @ 0 # [7])) 500 50 (demo_link [] (replicate 1 (WriteCount 256))) =
     (PBIO_ERROR_INVALID_ARG, demo_link [] (replicate 1 (WriteCount 256)))"
  by (rule display_text_bounded [OF demo_link_sends_frames]) simp_all

text \<open>However often signals interrupt it, the sleep lasts at least as long as it was asked to.\<close>

lemma sleep_all_time:
  assumes "0 \<le> tv_sec request * 10 ^ 9 + tv_nsec request"
  shows "os_now w + (tv_sec request * 10 ^ 9 + tv_nsec request) \<le> os_now (sleep_all request w) \<and>
    os_polls (sleep_all request w) = os_polls w \<and> os_writes (sleep_all request w) = os_writes w \<and>
    os_ticks (sleep_all request w) = os_ticks w \<and> os_tx (sleep_all request w) = os_tx w"
  using assms
proof (induction request w rule: sleep_all.induct)
  case (1 request w)
  obtain ret rem w1 where call: "sys_nanosleep request w = (ret, rem, w1)" by (cases "sys_nanosleep request w") auto
  let ?total = "tv_sec request * 10 ^ 9 + tv_nsec request"
  have ts: "tv_sec (timespec_of x) * 10 ^ 9 + tv_nsec (timespec_of x) = x" for x
    by (simp add: timespec_of_def)
  have step: "os_polls w1 = os_polls w" "os_writes w1 = os_writes w" "os_ticks w1 = os_ticks w" "os_tx w1 = os_tx w"
    "ret = 0 \<and> os_now w + ?total \<le> os_now w1 \<or>
     ret \<noteq> 0 \<and> os_errno w1 = EINTR \<and> 0 \<le> tv_sec rem * 10 ^ 9 + tv_nsec rem \<and>
       os_now w + (?total - (tv_sec rem * 10 ^ 9 + tv_nsec rem)) \<le> os_now w1"
    using call "1.prems" ts by (auto simp: sys_nanosleep_def Let_def split: list.splits sleep_answer.splits)
  show ?case
  proof (cases "ret = 0")
    case True
    then show ?thesis using step call by (simp add: sleep_all.simps [of request w])
  next
    case False
    then have "sleep_all request w = sleep_all rem w1"
      using step(5) call by (simp add: sleep_all.simps [of request w])
    with "1.IH" [OF call [symmetric] refl] False step show ?thesis by auto
  qed
qed

lemma milliseconds_nanoseconds:
  assumes "0 \<le> x"
  shows "c_div x 1000 * 10 ^ 9 + c_mod x 1000 * 1000000 = x * 10 ^ 6"
proof -
  have "x * 1000000 = (x div 1000 * 1000 + x mod 1000) * 1000000" by (simp only: div_mult_mod_eq)
  then have "x div 1000 * 1000000000 + x mod 1000 * 1000000 = x * 1000000"
    by (simp only: distrib_right mult.assoc)
  then show ?thesis using assms by (simp add: c_div_nonneg c_mod_nonneg)
qed

definition with_sleeps :: "sleep_answer list \<Rightarrow> rp \<Rightarrow> rp" where
  "with_sleeps ss s = s\<lparr>rp_com := (rp_com s)\<lparr>com_os := (com_os (rp_com s))\<lparr>os_sleeps := ss\<rparr>\<rparr>\<rparr>"

text \<open>C40. A tone of a given duration: the command to play without an end goes out, the call sleeps for
  at least the duration, however often signals interrupt the sleep and however much each part of it
  overruns, and then the command to stop goes out.\<close>

theorem tone_plays_for_duration:
  assumes "sends 2 s" "0 \<le> sint duration"
  shows "let s' = hub_speaker_play_tone frequency duration s; q = fgNextSequence s in
    wire_out s' = wire_out s @
      v2_frame_bytes (message_of RP_PORT_NONE RP_CMD_ID_HUB_SPK_PLY_TON
        (Some (le32 SOUND_MANUAL_STOP @ le16 frequency)) 6 q RP_V2_FLAG_HIGH_PRIORITY (fgSessionId s)) @
      v2_frame_bytes (message_of RP_PORT_NONE RP_CMD_ID_HUB_SPK_STP None 0
        (if q + 1 = 0 then 1 else q + 1) RP_V2_FLAG_HIGH_PRIORITY (fgSessionId s)) \<and>
    os_now (com_os (rp_com s)) + sint duration * 10 ^ 6 \<le> os_now (com_os (rp_com s'))"
proof -
  let ?q = "fgNextSequence s" and ?data = "le32 SOUND_MANUAL_STOP @ le16 frequency"
  have data: "poke 4 (le16 frequency) (poke 0 (le32 SOUND_MANUAL_STOP) (replicate 6 0)) = ?data"
    by (simp add: poke_def del: SOUND_MANUAL_STOP_def)
  have pay: "good_payload (Some ?data) (int 6)" by (simp add: good_payload_def bytes_at_def)
  have "sends (Suc (Suc 0)) s" using assms(1) by (simp add: numeral_2_eq_2)
  from send_hub_command_open [OF this pay] obtain s1 where
    s1: "send_hub_command RP_CMD_ID_HUB_SPK_PLY_TON (Some ?data) 6 s = (PBIO_SUCCESS, s1)" "sends (Suc 0) s1"
      "wire_out s1 = wire_out s @ v2_frame_bytes (message_of RP_PORT_NONE RP_CMD_ID_HUB_SPK_PLY_TON
        (Some ?data) (int 6) ?q RP_V2_FLAG_HIGH_PRIORITY (fgSessionId s))"
      "os_now (com_os (rp_com s1)) = os_now (com_os (rp_com s))" "fgSessionId s1 = fgSessionId s"
      "fgNextSequence s1 = (if ?q + 1 = 0 then 1 else ?q + 1)"
    by (auto simp: next_sequence_def Let_def)
  let ?req = "\<lparr>tv_sec = c_div (sint duration) 1000, tv_nsec = c_mod (sint duration) 1000 * 1000000\<rparr>"
  define s2 where "s2 = snd (on_os (\<lambda>w. ((), sleep_all ?req w)) s1)"
  have sleep: "os_now (com_os (rp_com s)) + sint duration * 10 ^ 6 \<le> os_now (com_os (rp_com s2))"
    "wire_out s2 = wire_out s1" "fgSessionId s2 = fgSessionId s" "fgNextSequence s2 = fgNextSequence s1"
    "sends (Suc 0) s2"
    using sleep_all_time [of ?req "com_os (rp_com s1)"] milliseconds_nanoseconds [OF assms(2)] assms(2) s1(2,4,5)
    by (simp_all add: s2_def on_os_def wire_out_def on_line_def sends_def open_lines_def normal_mode_def)
  have "good_payload None (int 0)" by (simp add: good_payload_def bytes_at_def)
  from send_hub_command_open [OF sleep(5) this] obtain s3 where
    "send_hub_command RP_CMD_ID_HUB_SPK_STP None 0 s2 = (PBIO_SUCCESS, s3)"
    "wire_out s3 = wire_out s2 @ v2_frame_bytes (message_of RP_PORT_NONE RP_CMD_ID_HUB_SPK_STP None (int 0)
      (fgNextSequence s2) RP_V2_FLAG_HIGH_PRIORITY (fgSessionId s2))"
    "os_now (com_os (rp_com s3)) = os_now (com_os (rp_com s2))" by auto
  moreover have "hub_speaker_play_tone frequency duration s = hub_speaker_stop s2"
    using s1(1) data assms(2) by (simp add: hub_speaker_play_tone_def s2_def Let_def del: SOUND_MANUAL_STOP_def)
  ultimately show ?thesis
    using s1 sleep by (simp add: hub_speaker_stop_def Let_def del: SOUND_MANUAL_STOP_def)
qed

theorem tone_plays_for_duration_witness:
  "let s = with_sleeps [SleepIntr 700000000 30, SleepIntr 200000000 5, SleepDone 80]
      (demo_link [] (replicate 2 (WriteCount 256))) in
    now_of s + 1500 * 10 ^ 6 \<le> now_of (hub_speaker_play_tone 440 1500 s)"
proof -
  let ?s = "with_sleeps [SleepIntr 700000000 30, SleepIntr 200000000 5, SleepDone 80]
    (demo_link [] (replicate 2 (WriteCount 256)))"
  have d: "sint (1500 :: i32) = 1500" by code_simp
  have "sends 2 (demo_link [] (replicate 2 (WriteCount 256)))" by (rule demo_link_sends_frames) simp
  then have "sends 2 ?s" by (simp add: sends_def open_lines_def normal_mode_def with_sleeps_def)
  from tone_plays_for_duration [OF this, where duration = 1500 and frequency = 440] show ?thesis
    by (simp add: d Let_def)
qed

subsection \<open>Sensor modes\<close>

text \<open>C20. Changing a port's mode on a link that stays open: at each point where the call waits the other
  threads may dispatch, enter and leave as receivers and make calls, any number of them, but nobody
  shuts the link down. Then the call returns, the link is still up, and when it reports success the
  saved status shows the port in the wanted mode, so that what a sensor then reads is of that mode.
  (A shutdown during the wait makes it follow a null pointer, \<open>mode_wait_after_shutdown\<close> in
  \<open>Defects\<close>.)\<close>

theorem mode_change_confirmed:
  assumes "linked s" "sched_of (beside ms k) sc"
  shows "\<exists>r sc' s'. raspike_port_com_change_if_needed port cmd sc s = Some (r, sc', s') \<and> linked s' \<and> r \<le> 0 \<and>
    sched_of (beside ms k) sc' \<and> (r = 0 \<longrightarrow> port_mode port s' = Some cmd)"
  using up_link.change_inv [OF assms(2,1), of port cmd] by blast

theorem mode_change_confirmed_witness:
  "\<exists>r sc' s'. raspike_port_com_change_if_needed 2 RP_CMD_ID_COL_REF quiet (demo_link [] [WriteCount 256]) =
      Some (r, sc', s') \<and> linked s' \<and> r \<le> 0 \<and> sched_of (beside {} 2) sc' \<and>
      (r = 0 \<longrightarrow> port_mode 2 s' = Some RP_CMD_ID_COL_REF)"
  by (rule mode_change_confirmed [OF demo_link_linked]) (simp_all add: sched_of_def waits_of_def quiet_def)

end
