(* ===== verification/Library.thy ===== *)
theory Library
  imports Device_Properties Link_Properties
begin

section \<open>The library as a whole\<close>

text \<open>
  Every function of the interface as one step on the state, and the states a program can reach with
  them. The invariant \<open>sound\<close> ties the components together: the link is up or closed and nothing in
  between, the send buffer is within its bounds, a device that was given out carries the number of
  its port, and between two calls no request is pending and no receiver is inside. Inside a request
  its own slot may be pending, so the invariant has the set of such slots as an argument.
\<close>

subsection \<open>The invariant\<close>

definition port_ok :: "nat set \<Rightarrow> nat \<Rightarrow> port_device \<Rightarrow> bool" where
  "port_ok P i dev \<longleftrightarrow> (pending dev \<longrightarrow> i \<in> P) \<and>
     (if device_type (device dev) = 0 then port_id (device dev) = 0
      else i < 6 \<and> port_id (device dev) = of_nat i)"

definition ports_ok :: "nat set \<Rightarrow> rp \<Rightarrow> bool" where
  "ports_ok P s \<longleftrightarrow> length (gPortDevices s) = RP_PORT_NUMBER \<and>
     (\<forall>i < RP_PORT_NUMBER. port_ok P i (gPortDevices s ! i))"

definition sound :: "bool \<Rightarrow> nat set \<Rightarrow> rp \<Rightarrow> bool" where
  "sound up P s \<longleftrightarrow> (if up then linked s \<and> \<not> fgStopCommunication s else closed s) \<and>
     com_wf (rp_com s) \<and> ports_ok P s \<and> fgNextSequence s \<noteq> 0 \<and> fgActiveReceivers s = 0"

text \<open>
  What the other threads may do where a call waits for a mutex or a condition, any number of steps at
  each such point: the receiving thread receives, or dispatches any messages, on a link that is up, and
  others make calls, which consist of these sections under one mutex. They open requests only on the
  ports of \<open>P\<close>, and give out devices only under their own number. They neither open nor shut down the
  link: both belong to the thread whose calls are the steps here, \<open>Interrupts\<close> and \<open>Defects\<close> say
  what a shutdown beside a call does. A receive is one step, so nobody is inside between two calls.
\<close>

definition keeps_port :: "nat set \<Rightarrow> nat \<Rightarrow> (port_device \<Rightarrow> port_device) \<Rightarrow> bool" where
  "keeps_port P j g \<longleftrightarrow> (\<forall>dev. (pending (g dev) \<longrightarrow> pending dev \<or> j \<in> P) \<and>
     (port_ok UNIV j dev \<longrightarrow> port_ok UNIV j (g dev)))"

definition receiver_round :: "rp \<Rightarrow> rp" where
  "receiver_round s = (case raspike_prot_receive s of None \<Rightarrow> s | Some (r, s') \<Rightarrow> s')"

inductive other_step :: "bool \<Rightarrow> nat set \<Rightarrow> (rp \<Rightarrow> rp) \<Rightarrow> bool" for up P where
  idle: "other_step up P id"
| dispatch: "up \<Longrightarrow> other_step up P (hub_step m)"
| receive: "other_step up P receiver_round"
| number: "other_step up P (\<lambda>s. snd (next_sequence s))"
| frame: "other_step up P (\<lambda>s. snd (send_frame port cmd buf n q fl now s))"
| count: "other_step up P (stats_increment c)"
| slot: "keeps_port P j g \<Longrightarrow> other_step up P (update_device j g)"
| time: "other_step up P (\<lambda>s. snd (on_os (h :: os \<Rightarrow> unit \<times> os) s))"
| reset: "other_step up P (\<lambda>s. s\<lparr>fgStatus := map_option (update_port port
    (\<lambda>p. p\<lparr>ps_data := poke RP_MOTOR_INDEX_COUNT (replicate 4 0) (ps_data p)\<rparr>)) (fgStatus s)\<rparr>)"
| andthen: "other_step up P f \<Longrightarrow> other_step up P g \<Longrightarrow> other_step up P (\<lambda>s. g (f s))"
| choice: "(\<And>s. other_step up P (h s)) \<Longrightarrow> other_step up P (\<lambda>s. h s s)"

interpretation other_steps: closed_steps "other_step up P" for up P
  by unfold_locales (auto intro: other_step.intros)

definition others_ok :: "bool \<Rightarrow> nat set \<Rightarrow> sched \<Rightarrow> bool" where
  "others_ok up P = sched_of (other_step up P)"

subsection \<open>The link below\<close>

definition com_step :: "rp \<Rightarrow> rp \<Rightarrow> bool" where
  "com_step s s' \<longleftrightarrow> same_but_com s s' \<and> (com_wf (rp_com s) \<longrightarrow> com_wf (rp_com s'))"

lemma com_step_refl [simp]: "com_step s s"
  by (simp add: com_step_def)

lemma com_step_trans: "com_step s t \<Longrightarrow> com_step t u \<Longrightarrow> com_step s u"
  unfolding com_step_def using same_but_com_trans by blast

lemma com_wf_os [simp]: "com_wf (c\<lparr>com_os := w\<rparr>) = com_wf c"
  by (simp add: com_wf_def)

lemma com_step_os: "s' = s\<lparr>rp_com := (rp_com s)\<lparr>com_os := w\<rparr>\<rparr> \<Longrightarrow> com_step s s'"
  by (simp add: com_step_def same_but_com_def)

lemma buffered_write_wf: "buffered_write buf n c = (r, c') \<Longrightarrow> com_wf c \<Longrightarrow> com_wf c'"
  by (auto simp: buffered_write_def com_wf_def bytes_at_def split: if_splits option.splits)

lemma flush_buffer_wf: "flush_buffer_locked desc c = (r, c') \<Longrightarrow> com_wf c \<Longrightarrow> com_wf c'"
  using flush_buffer_locked_props [of desc c r c'] by (cases "0 \<le> r") (auto simp: com_wf_def)

lemma com_send_step [intro]: "com_send frame n s = (r, s') \<Longrightarrow> com_step s s'"
  by (auto simp: com_step_def com_send_frame)
    (auto simp: com_send_def raspike_com_send_def rp_usb_send_def buffered_write_wf
      split: if_splits prod.splits)

lemma com_flush_wf: "raspike_com_flush desc c = (r, c') \<Longrightarrow> com_wf c \<Longrightarrow> com_wf c'"
  by (auto simp: raspike_com_flush_def rp_usb_flush_def flush_buffer_wf split: if_splits prod.splits)

lemma com_flush_step [intro]: "com_flush s = (r, s') \<Longrightarrow> com_step s s'"
  by (auto simp: com_step_def com_flush_frame)
    (auto simp: com_flush_def com_flush_wf split: prod.splits)

lemma com_discard_step [intro]: "com_discard_input s = (r, s') \<Longrightarrow> com_step s s'"
  by (auto simp: com_step_def com_discard_frame)
    (auto simp: com_discard_input_def raspike_com_discard_input_def split: if_splits prod.splits)

lemma com_receive_step [intro]: "com_receive n t s = (r, bs, s') \<Longrightarrow> com_step s s'"
  using com_receive_only_os com_step_os by blast

lemma on_os_step [intro]: "on_os f s = (x, s') \<Longrightarrow> com_step s s'"
  by (auto simp: on_os_def com_step_def same_but_com_def split: prod.splits)

lemma pass_until_step: "com_step s (pass_until d s)"
  by (simp add: pass_until_def on_os_def com_step_def same_but_com_def)

lemma nanosleep_step: "com_step s (nanosleep req s)"
  by (simp add: nanosleep_def on_os_def com_step_def same_but_com_def split: prod.split)

lemma discard_bytes_step: "discard_receive_bytes n s = (r, s') \<Longrightarrow> com_step s s'"
proof (induction n s arbitrary: r s' rule: discard_receive_bytes.induct)
  case (1 n s)
  let ?chunk = "if n < 64 then n else 64"
  obtain result scratch s1 where rcv: "com_receive (nat ?chunk) RP_FRAME_TIMEOUT_MS s = (result, scratch, s1)"
    by (cases "com_receive (nat ?chunk) RP_FRAME_TIMEOUT_MS s") auto
  note step = com_receive_step [OF rcv]
  show ?case
  proof (cases "n > 0 \<and> \<not> result < 0")
    case True
    with "1.prems" rcv have "discard_receive_bytes (n - result) s1 = (r, s')"
      by (simp add: discard_receive_bytes.simps [of n s])
    with "1.IH" [OF _ refl rcv [symmetric] refl refl] True step show ?thesis
      by (blast intro: com_step_trans)
  next
    case False
    with "1.prems" rcv step show ?thesis
      by (auto simp: discard_receive_bytes.simps [of n s] Let_def split: if_splits)
  qed
qed

lemma scan_loop_step: "scan_loop target t start e s = Some x \<Longrightarrow> com_step s (snd x)"
proof (induction rule: scan_loop_induct)
  case (loop loop target t start e s x)
  obtain ret bs s1 where rcv: "com_receive 1 100 s = (ret, bs, s1)" by (cases "com_receive 1 100 s") auto
  obtain now s2 where clk: "on_os (clock_gettime CLOCK_MONOTONIC) s1 = (now, s2)"
    by (cases "on_os (clock_gettime CLOCK_MONOTONIC) s1") auto
  note s1 = com_receive_step [OF rcv] and s2 = on_os_step [OF clk]
  from loop(2) rcv clk have cases: "x = (0, s1) \<or> x = (ret, s1) \<or> x = (- ETIMEDOUT, s) \<or>
      loop target t start (elapsed_between start now) s2 = Some x"
    by (auto split: if_splits)
  show ?case
  proof (cases "loop target t start (elapsed_between start now) s2 = Some x")
    case True
    from loop(1) [OF this] show ?thesis by (rule com_step_trans [OF com_step_trans [OF s1 s2]])
  next
    case False
    with cases s1 show ?thesis by auto
  qed
qed

lemma scan_for_byte_step: "scan_for_byte target t s = Some (r, s') \<Longrightarrow> com_step s s'"
  using scan_loop_step by (fastforce simp: scan_for_byte_def split: prod.splits intro: com_step_trans)

subsection \<open>Steps that keep the invariant\<close>

lemma sound_fields:
  assumes "sound up P s"
  shows "com_wf (rp_com s)" "length (gPortDevices s) = RP_PORT_NUMBER" "fgNextSequence s \<noteq> 0"
    "fgActiveReceivers s = 0" "ports_ok P s" "up \<Longrightarrow> linked s" "up \<Longrightarrow> \<not> fgStopCommunication s"
    "\<not> up \<Longrightarrow> closed s"
  using assms by (auto simp: sound_def ports_ok_def split: if_splits)

lemma sound_com: "com_step s s' \<Longrightarrow> sound up P s \<Longrightarrow> sound up P s'"
  using same_but_com_fields [of s s'] linked_com [of s s']
  by (simp add: com_step_def sound_def closed_def ports_ok_def split: if_splits)

lemma sound_increment [simp]: "sound up P (stats_increment c s) = sound up P s"
  by (simp add: sound_def closed_def ports_ok_def)

lemma next_sequence_sound: "next_sequence s = (q, s') \<Longrightarrow> sound up P s \<Longrightarrow> sound up P s'"
  by (auto simp: next_sequence_def Let_def sound_def linked_def closed_def ports_ok_def split: if_splits)

lemma port_ok_mono: "port_ok P i dev \<Longrightarrow> P \<subseteq> Q \<Longrightarrow> port_ok Q i dev"
  by (auto simp: port_ok_def)

lemma sound_update:
  assumes "sound up P s" "P \<subseteq> Q"
    and "i < RP_PORT_NUMBER \<Longrightarrow> port_ok P i (gPortDevices s ! i) \<Longrightarrow> port_ok Q i (f (gPortDevices s ! i))"
  shows "sound up Q (update_device i f s)"
proof -
  have len: "length (gPortDevices s) = RP_PORT_NUMBER" by (rule sound_fields(2) [OF assms(1)])
  have "port_ok Q j ((gPortDevices s)[i := f (gPortDevices s ! i)] ! j)" if j: "j < RP_PORT_NUMBER" for j
  proof -
    have old: "port_ok P j (gPortDevices s ! j)" using assms(1) j by (simp add: sound_def ports_ok_def)
    show ?thesis
    proof (cases "j = i")
      case True
      then show ?thesis using old j len assms(3) by simp
    next
      case False
      then show ?thesis using port_ok_mono [OF old assms(2)] by simp
    qed
  qed
  then show ?thesis
    using assms(1) len by (simp add: sound_def update_device_def linked_def closed_def ports_ok_def split: if_splits)
qed

lemma sound_less: "sound up (insert i P) s \<Longrightarrow> i < RP_PORT_NUMBER \<Longrightarrow> \<not> pending (gPortDevices s ! i) \<Longrightarrow> sound up P s"
  by (auto simp: sound_def ports_ok_def port_ok_def)

lemma port_ok_cancel: "port_ok P i dev \<Longrightarrow> port_ok Q i (cancel_pending e x dev)"
  by (auto simp: port_ok_def cancel_pending_def)

lemma ports_ok_reset:
  assumes "ports_ok P s"
  shows "ports_ok Q (reset_port_state e clear s)"
proof -
  have "port_ok Q i (if clear then (cancel_pending e x dev)\<lparr>device := zero_device\<rparr> else cancel_pending e x dev)"
    if "port_ok P i dev" for i x dev
    using port_ok_cancel [OF that, of Q e x] by (simp add: port_ok_def zero_device_def)
  with assms show ?thesis by (simp add: ports_ok_def reset_port_state_def Let_def)
qed

subsection \<open>Receiving\<close>

lemma ports_ok_fields:
  "ports_ok P (s\<lparr>fgSessionId := a\<rparr>) = ports_ok P s" "ports_ok P (s\<lparr>fgCapabilities := b\<rparr>) = ports_ok P s"
  "ports_ok P (s\<lparr>fgStatus := c\<rparr>) = ports_ok P s" "ports_ok P (s\<lparr>fgRuntimeTelemetry := d\<rparr>) = ports_ok P s"
  "ports_ok P (s\<lparr>fgActiveReceivers := n\<rparr>) = ports_ok P s" "ports_ok P (stats_increment f s) = ports_ok P s"
  "ports_ok P (s\<lparr>rp_com := m\<rparr>) = ports_ok P s"
  by (simp_all add: ports_ok_def)

lemma process_hello_ports: "ports_ok P s \<Longrightarrow> ports_ok P (process_hello_payload buf n s)"
  by (simp add: process_hello_payload_def Let_def ports_ok_fields ports_ok_reset)

lemma ports_ok_update:
  assumes "ports_ok P s" "\<And>dev. port_ok P i dev \<Longrightarrow> port_ok P i (f dev)"
  shows "ports_ok P (update_device i f s)"
proof -
  have "port_ok P j ((gPortDevices s)[i := f (gPortDevices s ! i)] ! j)" if j: "j < RP_PORT_NUMBER" for j
    using assms j by (cases "j = i") (simp_all add: ports_ok_def)
  with assms(1) show ?thesis by (simp add: ports_ok_def update_device_def)
qed

lemma process_ack_ports: "process_ack port q ss buf s = (r, s') \<Longrightarrow> ports_ok P s \<Longrightarrow> ports_ok P s'"
  by (auto simp: process_ack_def Let_def ports_ok_fields port_ok_def intro!: ports_ok_update
      split: option.splits if_splits)

lemma process_command_ports:
  assumes "process_command port cmd flags q ss buf n s = Some (r, s')" "ports_ok P s"
  shows "ports_ok P s'"
proof -
  obtain ra sa where ack: "process_ack port q ss buf s = (ra, sa)" by (cases "process_ack port q ss buf s")
  with assms process_hello_ports [OF assms(2)] process_ack_ports [OF ack assms(2)] show ?thesis
    unfolding process_command_def
    by (auto simp: ports_ok_fields split: if_splits Option.bind_splits)
qed

text \<open>What a receive does to the buffer and the ports.\<close>

definition tame :: "rp \<Rightarrow> rp \<Rightarrow> bool" where
  "tame s s' \<longleftrightarrow> (com_wf (rp_com s) \<longrightarrow> com_wf (rp_com s')) \<and> (\<forall>P. ports_ok P s \<longrightarrow> ports_ok P s')"

lemma tame_refl [simp]: "tame s s"
  by (simp add: tame_def)

lemma tame_trans: "tame s t \<Longrightarrow> tame t u \<Longrightarrow> tame s u"
  by (simp add: tame_def)

lemma tame_com: "com_step s s' \<Longrightarrow> tame s s'"
  using same_but_com_fields(3) [of s s'] by (simp add: tame_def com_step_def ports_ok_def)

lemma tame_increment: "tame s s' \<Longrightarrow> tame s (stats_increment c s')"
  by (simp add: tame_def ports_ok_fields)

lemma process_command_com_same:
  "process_command port cmd flags q ss buf n s = Some (r, s') \<Longrightarrow> rp_com s' = rp_com s"
  by (auto simp: process_command_def process_hello_payload_def process_ack_def reset_port_state_def
      update_device_def Let_def split: if_splits option.splits Option.bind_splits)

lemma process_command_tame: "process_command port cmd flags q ss buf n s = Some (r, s') \<Longrightarrow> tame s s'"
  using process_command_ports process_command_com_same by (fastforce simp: tame_def)

lemma receive_v2_frame_tame:
  assumes "receive_v2_frame s = Some (r, s')"
  shows "tame s s'"
proof -
  obtain r1 h s1 where h: "com_receive (RP_V2_HEADER_SIZE - 1) RP_FRAME_TIMEOUT_MS s = (r1, h, s1)"
    by (cases "com_receive (RP_V2_HEADER_SIZE - 1) RP_FRAME_TIMEOUT_MS s") auto
  define n where "n = unat ((RP_V2_START # h) ! RP_V2_OFFSET_SIZE)"
  obtain r2 tl s2 where t: "com_receive (n + RP_V2_CRC_SIZE) RP_FRAME_TIMEOUT_MS s1 = (r2, tl, s2)"
    by (cases "com_receive (n + RP_V2_CRC_SIZE) RP_FRAME_TIMEOUT_MS s1") auto
  obtain r3 s3 where d: "discard_receive_bytes (int (n + RP_V2_CRC_SIZE)) s1 = (r3, s3)"
    by (cases "discard_receive_bytes (int (n + RP_V2_CRC_SIZE)) s1")
  have c1: "tame s s1" by (rule tame_com [OF com_receive_step [OF h]])
  have c2: "tame s s2" by (rule tame_trans [OF c1 tame_com [OF com_receive_step [OF t]]])
  have c3: "tame s s3" by (rule tame_trans [OF c1 tame_com [OF discard_bytes_step [OF d]]])
  consider "s' = s1" | "s' = stats_increment framing_errors_update s3" | "s' = s2"
    | "s' = stats_increment crc_errors_update s2"
    | port cmd flags q ss buf k where "process_command port cmd flags q ss buf k s2 = Some (r, s')"
    using assms h t d unfolding receive_v2_frame_def Let_def n_def
    by (auto split: if_splits)
  then show ?thesis
    by cases (use c1 c2 c3 in \<open>auto intro: tame_increment tame_trans process_command_tame\<close>)
qed

lemma receive_legacy_frame_tame:
  assumes "receive_legacy_frame s = Some (r, s')"
  shows "tame s s'"
proof -
  obtain r1 h s1 where h: "com_receive 3 RP_FRAME_TIMEOUT_MS s = (r1, h, s1)"
    by (cases "com_receive 3 RP_FRAME_TIMEOUT_MS s") auto
  define n where "n = int (unat (h ! 1))"
  obtain r2 payload s2 where p: "(if n > 0 then com_receive (nat n) RP_FRAME_TIMEOUT_MS s1 else (0, [], s1))
      = (r2, payload, s2)"
    by (cases "if n > 0 then com_receive (nat n) RP_FRAME_TIMEOUT_MS s1 else (0, [], s1)") auto
  define s3 where "s3 = stats_increment rx_legacy_frames_update s2"
  have c1: "tame s s1" by (rule tame_com [OF com_receive_step [OF h]])
  have "tame s1 s2" using p by (auto split: if_splits intro: tame_com)
  then have c2: "tame s s2" by (rule tame_trans [OF c1])
  then have c3: "tame s s3" unfolding s3_def by (rule tame_increment)
  have "receive_legacy_frame s = (if r1 < 0 then Some (r1, s1)
      else if n > RP_PROTOCOL_BUFMAX \<or> \<not> raspike_is_valid_port (h ! 2)
      then Some (- EPROTO, stats_increment framing_errors_update s1)
      else if r2 < 0 then Some (r2, s2)
      else process_command (h ! 2) (h ! 0) 0 0 (fgSessionId s3) payload n s3)"
    by (simp only: receive_legacy_frame_def Let_def h prod.case n_def [symmetric] p s3_def)
  with assms c1 c2 c3 show ?thesis
    by (auto split: if_splits intro: tame_increment tame_trans process_command_tame)
qed

lemma prot_receive_tame:
  assumes "raspike_prot_receive s = Some (r, s')"
  shows "tame s s'"
proof -
  define s1 where "s1 = s\<lparr>fgActiveReceivers := fgActiveReceivers s + 1\<rparr>"
  obtain ret bs s2 where rcv: "com_receive 1 500 s1 = (ret, bs, s2)" by (cases "com_receive 1 500 s1") auto
  have in1: "tame s s1" "\<And>x k. tame s x \<Longrightarrow> tame s (x\<lparr>fgActiveReceivers := k\<rparr>)"
    by (simp_all add: tame_def s1_def ports_ok_fields)
  have s2: "tame s s2" by (rule tame_trans [OF in1(1) tame_com [OF com_receive_step [OF rcv]]])
  have frame: "tame s s3" if "(if hd bs = RP_V2_START then receive_v2_frame s2
      else if hd bs = RP_CMD_START then receive_legacy_frame s2
      else Some (- EAGAIN, stats_increment framing_errors_update s2)) = Some (r3, s3)" for r3 s3
    using that s2 by (auto split: if_splits intro: tame_increment tame_trans [OF s2]
        receive_v2_frame_tame receive_legacy_frame_tame)
  show ?thesis
    using assms rcv in1(2) s2 frame tame_increment [of s]
    unfolding raspike_prot_receive_whole s1_def [symmetric] Let_def prod.case
    by (auto split: if_splits Option.bind_splits simp del: RP_V2_START_def RP_CMD_START_def)
qed

lemma prot_receive_sound:
  assumes "sound up P s"
  shows "\<exists>r s'. raspike_prot_receive s = Some (r, s') \<and> sound up P s'"
proof (cases up)
  case True
  then obtain r s' where rcv: "raspike_prot_receive s = Some (r, s')" "linked s'" "receive_step s s'"
    using prot_receive_up [of s] assms by (auto simp: sound_def stays_up_def)
  with receive_step_fields [OF rcv(3)] prot_receive_tame [OF rcv(1)] assms True show ?thesis
    by (auto simp: sound_def tame_def)
next
  case False
  with assms show ?thesis by (auto simp: raspike_prot_receive_whole sound_def closed_def)
qed

subsection \<open>The other threads, sends\<close>

lemma hub_step_sound:
  assumes "sound True P s"
  shows "sound True P (hub_step m s)"
proof -
  have up: "linked s" using assms by (simp add: sound_def)
  obtain r s' where d: "dispatch_message m s = Some (r, s')" "linked s'" "dispatch_step s s'"
    using process_command_props [OF up, of "int (length (m_payload m))" "m_payload m"]
    unfolding dispatch_message_def by blast
  moreover have "tame s s'" using d(1) process_command_tame unfolding dispatch_message_def by blast
  ultimately show ?thesis
    using assms dispatch_step_fields [OF d(3)] by (simp add: sound_def tame_def hub_step_def)
qed

lemma send_v2_step: "send_v2_frame port cmd buf n q fl s = (r, s') \<Longrightarrow> com_step s s'"
  by (auto simp: send_v2_frame_def split: if_splits)

lemma send_legacy_step: "send_legacy_frame port cmd buf n s = (r, s') \<Longrightarrow> com_step s s'"
  by (auto simp: send_legacy_frame_def split: if_splits)

lemma send_frame_sound:
  assumes "send_frame port cmd buf n q fl now s = (r, s')" "sound up P s"
  shows "sound up P s'"
proof -
  obtain r1 s1 where sent: "(if fgUseProtocolV2 s then send_v2_frame port cmd buf n q fl s
      else send_legacy_frame port cmd buf n s) = (r1, s1)"
    by (cases "if fgUseProtocolV2 s then send_v2_frame port cmd buf n q fl s
      else send_legacy_frame port cmd buf n s")
  obtain r2 s2 where flushed: "(if r1 \<ge> 0 \<and> now then let (flush_result, s') = com_flush s1
      in (if flush_result < 0 then flush_result else r1, s') else (r1, s1)) = (r2, s2)"
    by (cases "if r1 \<ge> 0 \<and> now then let (flush_result, s') = com_flush s1
      in (if flush_result < 0 then flush_result else r1, s') else (r1, s1)")
  have "com_step s s1" using sent by (auto split: if_splits intro: send_v2_step send_legacy_step)
  moreover have "com_step s1 s2" using flushed by (auto split: if_splits prod.splits)
  ultimately have "sound up P s2" using assms(2) by (blast intro: sound_com)
  moreover have "s' = s \<or> s' = s2 \<or> s' = stats_increment tx_frames_update s2"
    using assms(1) unfolding send_frame_def sent Let_def prod.case flushed [unfolded Let_def]
    by (auto split: if_splits)
  ultimately show ?thesis using assms(2) by auto
qed

lemma prot_send_sound: "raspike_prot_send port cmd buf n s = (r, s') \<Longrightarrow> sound up P s \<Longrightarrow> sound up P s'"
  by (auto simp: raspike_prot_send_def split: prod.splits dest: next_sequence_sound send_frame_sound)

lemma prot_send_priority_sound:
  "raspike_prot_send_priority port cmd buf n s = (r, s') \<Longrightarrow> sound up P s \<Longrightarrow> sound up P s'"
  by (auto simp: raspike_prot_send_priority_def split: prod.splits dest: next_sequence_sound send_frame_sound)

subsection \<open>Requests\<close>

lemma keeps_port_sound: "keeps_port P j g \<Longrightarrow> P \<subseteq> Q \<Longrightarrow> port_ok Q j dev \<Longrightarrow> port_ok Q j (g dev)"
  by (auto simp: keeps_port_def port_ok_def)

lemma other_sound: "other_step up P f \<Longrightarrow> P \<subseteq> Q \<Longrightarrow> sound up Q s \<Longrightarrow> sound up Q (f s)"
proof (induction arbitrary: s rule: other_step.induct)
  case (dispatch m)
  then show ?case using hub_step_sound by simp
next
  case receive
  then show ?case using prot_receive_sound [of up Q s] by (auto simp: receiver_round_def)
next
  case number
  then show ?case by (intro next_sequence_sound [OF prod.collapse [symmetric]])
next
  case (frame port cmd buf n q fl now)
  then show ?case by (intro send_frame_sound [OF prod.collapse [symmetric]])
next
  case (slot j g)
  then show ?case by (intro sound_update [OF slot(3) order_refl] keeps_port_sound [OF slot(1,2)])
next
  case (time h)
  then show ?case by (intro sound_com [OF on_os_step [OF prod.collapse [symmetric]]])
next
  case (reset port)
  then show ?case
    using wf_reset_count by (auto simp: sound_def linked_def closed_def ports_ok_def split: if_splits)
qed simp_all

lemma on_sound_context: "P \<subseteq> Q \<Longrightarrow> request_context (sound up Q) (other_step up P)"
proof (unfold_locales, goal_cases)
  case (1 f s)
  then show ?case by (blast intro: other_sound)
next
  case (2 port cmd buf n q fl now s r s')
  then show ?case by (blast intro: send_frame_sound)
next
  case (3 s w)
  then show ?case by (blast intro: sound_com [OF com_step_os [OF refl]])
next
  case (5 s)
  then show ?case by (blast intro: next_sequence_sound [OF prod.collapse [symmetric]])
qed simp

interpretation on_sound: request_context "sound up P" "other_step up P" for up P
  by (rule on_sound_context) simp

interpretation in_request: request_context "sound up (insert i P)" "other_step up P" for up i P
  by (rule on_sound_context) blast

interpretation up_sound: status_context "sound True P" "other_step True P" for P
  by unfold_locales (auto simp: sound_def linked_def)

lemmas others_run_sound = on_sound.run_inv [folded others_ok_def]
  and others_run_request = in_request.run_inv [folded others_ok_def]

lemma request_finish_sound:
  assumes "request_finish cmd q i completed result s = (r, s')" "sound up (insert i P) s" "i < RP_PORT_NUMBER"
  shows "sound up P s'"
proof -
  obtain s1 where s1: "s' = update_device i (\<lambda>dev. dev\<lparr>pending := False\<rparr>) s1"
    "s1 = s \<or> s1 = stats_increment request_timeouts_update s"
    using assms(1) by (auto simp: request_finish_def Let_def split: if_splits)
  then have "sound up (insert i P) s1" using assms(2) by auto
  then have "sound up (insert i P) s'"
    unfolding s1(1) by (rule sound_update) (auto simp: port_ok_def)
  moreover have "\<not> pending (gPortDevices s' ! i)"
    using sound_fields(2) [OF \<open>sound up (insert i P) s1\<close>] assms(3) by (simp add: s1(1) update_device_def)
  ultimately show ?thesis using sound_less assms(3) by blast
qed

interpretation sound_phases: request_phases "sound up P" "sound up (insert i P)" "other_step up P" i q
  for up P i q
  by unfold_locales (erule sound_update, auto simp: port_ok_def)

lemma request_sound:
  assumes "raspike_request port cmd data n t sc s = (r, sc', s')" "others_ok up P sc" "sound up P s"
  shows "others_ok up P sc' \<and> sound up P s'"
proof (cases "raspike_is_valid_port port")
  case False
  with assms show ?thesis by (auto simp: raspike_request_def)
next
  case True
  from getDevice_valid [OF this] obtain i where i: "getDevice port = Some i" by blast
  show ?thesis
  proof (rule sound_phases.request_ends [folded others_ok_def, OF assms(1) True i refl assms(3,2)])
    fix completed result s6
    assume "sound up (insert i P) s6" "others_ok up P sc'"
      "request_finish cmd (fgNextSequence (snd (others_run sc s))) i completed result s6 = (r, s')"
    then show ?thesis using request_finish_sound getDevice_bound [OF i] by blast
  qed
qed

text \<open>Waiting for a mode never follows a missing status.\<close>

lemma closed_status: "\<not> up \<Longrightarrow> sound up P s \<Longrightarrow> fgStatus s = None"
  by (simp add: sound_def closed_def)

lemma wait_port_sound:
  assumes "others_ok up P sc" "sound up P s"
  shows "\<exists>r sc' s'. raspike_wait_port_cmd_change port cmd sc s = Some (r, sc', s') \<and>
    others_ok up P sc' \<and> sound up P s'"
proof (cases up)
  case True
  then show ?thesis using up_sound.wait_inv [folded others_ok_def, of P sc s port cmd] assms by auto
next
  case False
  with assms closed_status show ?thesis by (simp add: raspike_wait_port_cmd_change_def)
qed

lemma com_change_sound:
  assumes "others_ok up P sc" "sound up P s"
  shows "\<exists>r sc' s'. raspike_port_com_change_if_needed port cmd sc s = Some (r, sc', s') \<and>
    others_ok up P sc' \<and> sound up P s'"
proof (cases up)
  case True
  then show ?thesis using up_sound.change_inv [folded others_ok_def, of P sc s port cmd] assms by auto
next
  case False
  with assms closed_status show ?thesis by (simp add: raspike_port_com_change_if_needed_def)
qed

subsection \<open>The macros and the snapshot\<close>

lemma set_device_sound:
  assumes "sound up P s" "\<And>dev. device_type (f dev) = device_type dev \<and> port_id (f dev) = port_id dev"
  shows "sound up P (set_device i f s)"
  unfolding set_device_def
  by (rule sound_update [OF assms(1) order_refl]) (use assms(2) in \<open>simp add: port_ok_def\<close>)

lemma get_device_sound:
  assumes "GET_DEVICE_COMMON ty port sc s = (d, sc', s')" "ty \<noteq> 0" "others_ok up P sc" "sound up P s"
  shows "others_ok up P sc' \<and> sound up P s' \<and> (\<forall>i. d = Some i \<longrightarrow> i < 6)"
proof (cases "\<not> raspike_is_valid_port (PORT_TO_RASPIKE port) \<or> PORT_TO_RASPIKE port = RP_PORT_NONE")
  case True
  with assms show ?thesis by (auto simp: GET_DEVICE_COMMON_def Let_def)
next
  case False
  let ?r = "PORT_TO_RASPIKE port"
  have idx: "getDevice ?r = Some (unat ?r)" "unat ?r < 6" using device_port_index [of ?r] False by auto
  obtain sc1 s1 where o1: "others_run sc s = (sc1, s1)" by (cases "others_run sc s")
  note i1 = others_run_sound [OF o1 assms(3,4)]
  obtain c sc2 s2 where req: "raspike_request ?r (MAKE_CMD ty 0) None 0 1500 sc1 s1 = (c, sc2, s2)"
    by (cases "raspike_request ?r (MAKE_CMD ty 0) None 0 1500 sc1 s1") auto
  note i2 = request_sound [OF req conjunct1 [OF i1] conjunct2 [OF i1]]
  have "sound up P (set_device (unat ?r) (\<lambda>dev. dev\<lparr>device_type := ty, port_id := ?r\<rparr>) s2)"
    unfolding set_device_def
    by (rule sound_update [OF conjunct2 [OF i2] order_refl])
      (use idx(2) assms(2) in \<open>simp add: port_ok_def word_unat_eq_iff\<close>)
  with assms(1) False idx o1 req i1 i2 show ?thesis
    by (auto simp: GET_DEVICE_COMMON_def Let_def split: if_splits)
qed

text \<open>The number a handle carries is one of the six ports.\<close>

lemma pdev_port_small:
  assumes "sound up P s" "i < RP_PORT_NUMBER"
  shows "unat (pdev_port i s) < 6"
proof -
  have "port_ok P i (gPortDevices s ! i)" using assms by (simp add: sound_def ports_ok_def)
  then show ?thesis by (auto simp: port_ok_def pdev_port_def split: if_splits)
qed

lemma port_bytes_some:
  assumes "sound True P s" "unat port < 6"
  shows "\<exists>bs. port_bytes port index n s = Some bs"
  using assms by (auto simp: sound_def linked_def port_bytes_def wf_status_def)

definition handle_ok :: "nat option \<Rightarrow> bool" where
  "handle_ok d \<longleftrightarrow> (\<forall>i. d = Some i \<longrightarrow> i < 6)"

text \<open>A call that may follow \<^verbatim>\<open>NULL\<close> does not, and keeps the invariant.\<close>

definition safe :: "bool \<Rightarrow> nat set \<Rightarrow> ('a \<times> sched \<times> rp) option \<Rightarrow> bool" where
  "safe up P x \<longleftrightarrow> (\<exists>r sc s. x = Some (r, sc, s) \<and> others_ok up P sc \<and> sound up P s)"

lemma safe_some [simp]: "safe up P (Some (r, sc, s)) = (others_ok up P sc \<and> sound up P s)"
  by (simp add: safe_def)

lemma safe_as_result [simp]: "safe up P (as_result f x) = safe up P x"
  by (auto simp: safe_def as_result_def)

lemma get_and_ret_safe:
  assumes "others_ok up P sc" "sound up P s" "handle_ok pdev"
  shows "safe up P (GET_AND_RET_SENSOR_COMMON n index pdev sc s)"
proof (cases pdev)
  case None
  with assms show ?thesis by (simp add: GET_AND_RET_SENSOR_COMMON_def)
next
  case (Some i)
  obtain sc1 s1 where o1: "others_run sc s = (sc1, s1)" by (cases "others_run sc s")
  note i1 = others_run_sound [OF o1 assms(1,2)]
  have small: "unat (pdev_port i s) < 6" using pdev_port_small [OF assms(2)] assms(3) Some by (simp add: handle_ok_def)
  have "\<exists>bs. port_bytes (pdev_port i s) index n s1 = Some bs" if "fgStatus s \<noteq> None"
  proof -
    have up using assms(2) that by (cases up) (auto simp: sound_def closed_def)
    with i1 port_bytes_some [of P s1, OF _ small] show ?thesis by simp
  qed
  with assms o1 i1 Some show ?thesis by (auto simp: GET_AND_RET_SENSOR_COMMON_def Let_def)
qed

lemma delayed_safe:
  assumes "others_ok up P sc" "sound up P s" "handle_ok pdev"
  shows "safe up P (DELAYED_SENSOR_COMMON n cmd pdev sc s)"
proof (cases pdev)
  case None
  with assms show ?thesis by (simp add: DELAYED_SENSOR_COMMON_def)
next
  case (Some i)
  obtain c sc1 s1 where ch: "raspike_port_com_change_if_needed (pdev_port i s) cmd sc s = Some (c, sc1, s1)"
    and i1: "others_ok up P sc1" "sound up P s1"
    using com_change_sound [OF assms(1,2), of "pdev_port i s" cmd] by blast
  obtain sc2 s2 where o2: "others_run sc1 s1 = (sc2, s2)" by (cases "others_run sc1 s1")
  note i2 = others_run_sound [OF o2 i1]
  have small: "unat (pdev_port i s) < 6" using pdev_port_small [OF assms(2)] assms(3) Some by (simp add: handle_ok_def)
  have "\<exists>bs. port_bytes (pdev_port i s) 0 n s2 = Some bs" if "fgStatus s1 \<noteq> None"
  proof -
    have up using i1(2) that by (cases up) (auto simp: sound_def closed_def)
    with i2 port_bytes_some [of P s2, OF _ small] show ?thesis by simp
  qed
  with assms ch o2 i1 i2 Some show ?thesis by (auto simp: DELAYED_SENSOR_COMMON_def Let_def)
qed

lemma snapshot_safe:
  assumes "others_ok up P sc" "sound up P s"
  shows "\<exists>r st sc' s'. read_status_snapshot sc s = Some (r, st, sc', s') \<and> others_ok up P sc' \<and> sound up P s'"
proof (cases "fgStatus s = None")
  case True
  with assms show ?thesis by (simp add: read_status_snapshot_def)
next
  case False
  then have up using assms(2) by (cases up) (auto simp: sound_def closed_def)
  obtain sc1 s1 where o1: "others_run sc s = (sc1, s1)" by (cases "others_run sc s")
  note i1 = others_run_sound [OF o1 assms]
  then obtain st where "fgStatus s1 = Some st" using \<open>up\<close> by (auto simp: sound_def linked_def)
  with False o1 i1 show ?thesis by (auto simp: read_status_snapshot_def)
qed

lemma from_snapshot_safe:
  assumes "others_ok up P sc" "sound up P s"
  shows "safe up P (from_snapshot f x sc s)"
proof -
  obtain r st sc' s' where "read_status_snapshot sc s = Some (r, st, sc', s')" "others_ok up P sc'" "sound up P s'"
    using snapshot_safe [OF assms] by blast
  then show ?thesis by (simp add: from_snapshot_def)
qed

text \<open>Calls that send only.\<close>

lemma send_light_sound: "send_light pdev cmd data n s = (r, s') \<Longrightarrow> sound up P s \<Longrightarrow> sound up P s'"
  by (auto simp: send_light_def sent_to_pbio_def dest: prot_send_priority_sound split: option.splits prod.splits)

lemma hub_command_sound: "send_hub_command cmd data n s = (r, s') \<Longrightarrow> sound up P s \<Longrightarrow> sound up P s'"
  by (auto simp: send_hub_command_def dest: prot_send_priority_sound split: if_splits prod.splits)

lemma hub_command_sound_snd: "sound up P s \<Longrightarrow> sound up P (snd (send_hub_command cmd data n s))"
  by (cases "send_hub_command cmd data n s") (simp add: hub_command_sound)

lemma motor_request_sound:
  "motor_request motor cmd data n t sc s = (r, sc', s') \<Longrightarrow> others_ok up P sc \<Longrightarrow> sound up P s \<Longrightarrow>
    others_ok up P sc' \<and> sound up P s'"
  by (auto simp: motor_request_def dest: request_sound split: option.splits prod.splits)

subsection \<open>Initialisation and shutdown\<close>

lemma com_step_wf: "com_step s s' \<Longrightarrow> com_wf (rp_com s) \<Longrightarrow> com_wf (rp_com s')"
  by (simp add: com_step_def)

lemmas wf_kept = com_send_step [THEN com_step_wf] com_flush_step [THEN com_step_wf]
  com_discard_step [THEN com_step_wf] com_receive_step [THEN com_step_wf]
  scan_for_byte_step [THEN com_step_wf]

lemma handshake_once_wf:
  "perform_handshake_once s = Some (r, s') \<Longrightarrow> com_wf (rp_com s) \<Longrightarrow> com_wf (rp_com s')"
  by (auto simp: perform_handshake_once_def Let_def split: if_splits prod.splits Option.bind_splits)
    (blast dest: wf_kept)+

lemma handshake_attempts_wf:
  "handshake_attempts n e s = Some (r, s') \<Longrightarrow> com_wf (rp_com s) \<Longrightarrow> com_wf (rp_com s')"
proof (induction n arbitrary: e s)
  case (Suc n)
  obtain d s1 where disc: "com_discard_input s = (d, s1)" by (cases "com_discard_input s")
  obtain result s2 where once: "perform_handshake_once s1 = Some (result, s2)"
    using perform_handshake_once_returns by blast
  have wf: "com_wf (rp_com s2)" "com_wf (rp_com (nanosleep req s2))" for req
    using handshake_once_wf [OF once] wf_kept(3) [OF disc Suc.prems(2)] com_step_wf [OF nanosleep_step] by blast+
  then show ?case
    using Suc.prems(1) Suc.IH disc once by (cases "result = 0") (auto split: if_splits)
qed simp

lemma legacy_hello_wf:
  "receive_legacy_hello s = Some (r, s') \<Longrightarrow> com_wf (rp_com s) \<Longrightarrow> com_wf (rp_com s')"
  by (auto simp: receive_legacy_hello_def Let_def split: if_splits prod.splits Option.bind_splits)
    (blast dest: wf_kept)+

lemma init_link_kept:
  assumes "init_link v s = Some (r, s')"
  shows "(com_wf (rp_com s) \<longrightarrow> com_wf (rp_com s')) \<and> gPortDevices s' = gPortDevices s \<and>
    fgNextSequence s' = fgNextSequence s \<and> fgActiveReceivers s' = fgActiveReceivers s"
proof -
  obtain r1 s1 where hs: "handshake_attempts RP_HANDSHAKE_ATTEMPTS (- ETIMEDOUT) s = Some (r1, s1)"
    using handshake_attempts_returns by blast
  obtain r2 s2 where hello: "receive_legacy_hello s1 = Some (r2, s2)"
    using receive_legacy_hello_returns by blast
  have "- ETIMEDOUT < 0" by simp
  then have step: "handshake_step s s1" "hello_step s1 s2"
    using handshake_attempts_props [OF hs] receive_legacy_hello_props [OF hello] by blast+
  have wf: "com_wf (rp_com s) \<Longrightarrow> com_wf (rp_com s1)" "com_wf (rp_com s) \<Longrightarrow> com_wf (rp_com s2)"
    using handshake_attempts_wf [OF hs] legacy_hello_wf [OF hello] by blast+
  have "s' = abandon s1 \<or> s' = abandon s2 \<or> s' = s2\<lparr>fgHandshakeComplete := True,
      rp_com := raspike_usb_set_mode RASPIKE_USB_MODE_NORMAL (rp_com s2)\<rparr>"
    using assms hs hello by (auto simp: init_link_def perform_handshake_def split: if_splits)
  then show ?thesis
    using wf handshake_step_fields [OF step(1)] hello_step_fields [OF step(2)]
    by (auto simp: abandon_def raspike_usb_set_mode_def com_wf_def)
qed

lemma idle_ports_ok: "idle_ports s \<Longrightarrow> length (gPortDevices s) = RP_PORT_NUMBER \<Longrightarrow> ports_ok P s"
  by (simp add: idle_ports_def ports_ok_def port_ok_def zero_device_def)

lemma init_state_kept:
  assumes "init_state desc s = (ok, s')" "sound False P s"
  shows "com_wf (rp_com s') \<and> ports_ok P s' \<and> fgNextSequence s' \<noteq> 0 \<and> fgActiveReceivers s' = 0"
proof -
  note len = sound_fields(2) [OF assms(2)]
  note props = init_state_props [OF assms(1) len]
  obtain w where "rp_com s' = (rp_com s)\<lparr>com_os := w\<rparr>"
    using assms(1) by (auto simp: init_state_def Let_def on_os_def reset_port_state_def split: if_splits prod.splits)
  moreover have "ports_ok P s'"
  proof (cases ok)
    case True
    then show ?thesis using props(8) idle_ports_ok by blast
  next
    case False
    then have "gPortDevices s' = gPortDevices s"
      using assms(1) by (auto simp: init_state_def Let_def on_os_def split: if_splits prod.splits)
    then show ?thesis using assms(2) by (simp add: sound_def ports_ok_def)
  qed
  ultimately show ?thesis using props(4,5) assms(2) by (simp add: sound_def)
qed

lemma prot_init_sound:
  assumes "raspike_prot_init v desc s = Some (r, s')" "sound up P s"
  shows "\<exists>up'. sound up' P s'"
proof (cases "desc = None \<or> fgDesc s \<noteq> None")
  case True
  with assms show ?thesis by (auto simp: raspike_prot_init_def split: if_splits)
next
  case False
  then have down: "sound False P s" using assms(2) by (cases up) (auto simp: sound_def linked_def)
  note len = sound_fields(2) [OF down]
  obtain v1 v2 v3 where v: "v = (v1, v2, v3)" by (cases v)
  obtain ok s1 where st: "init_state desc s = (ok, s1)" by (cases "init_state desc s")
  note k1 = init_state_kept [OF st down]
  have kept: "com_wf (rp_com s') \<and> ports_ok P s' \<and> fgNextSequence s' \<noteq> 0 \<and> fgActiveReceivers s' = 0"
  proof (cases ok)
    case True
    then have link: "init_link v s1 = Some (r, s')" using False assms(1) st by (auto simp: raspike_prot_init_def)
    from init_link_kept [OF link] k1 show ?thesis by (simp add: ports_ok_def)
  next
    case no: False
    then have "s' = s1\<lparr>fgDesc := None\<rparr>" using False assms(1) st by (auto simp: raspike_prot_init_def)
    then show ?thesis using k1 by (simp add: ports_ok_def)
  qed
  show ?thesis
  proof (cases "0 \<le> r")
    case True
    from prot_init_up [OF assms(1) [unfolded v] len True] kept have "sound True P s'"
      by (simp add: sound_def)
    then show ?thesis ..
  next
    case neg: False
    then have "closed s'" using prot_init_down [OF assms(1) _ len] False by auto
    with kept have "sound False P s'" by (simp add: sound_def)
    then show ?thesis ..
  qed
qed

lemma close_wf: "raspike_com_close desc c = (r, d, c') \<Longrightarrow> com_wf c \<Longrightarrow> com_wf c'"
  by (auto simp: raspike_com_close_def rp_usb_close_def split: if_splits prod.splits)

lemma prot_shutdown_sound:
  assumes "sound up P s"
  shows "\<exists>desc' s'. raspike_prot_shutdown others s = Some (0, desc', s') \<and> sound False P s'"
proof -
  let ?s1 = "s\<lparr>fgStopCommunication := True\<rparr>"
  have "await_receivers others ?s1 = Some ?s1"
    using assms by (simp add: await_receivers.simps sound_def)
  moreover obtain r1 c1 where c1: "raspike_com_flush (fgDesc s) (rp_com s) = (r1, c1)"
    by (cases "raspike_com_flush (fgDesc s) (rp_com s)")
  moreover obtain r2 d2 c2 where c2: "raspike_com_close (fgDesc s) c1 = (r2, d2, c2)"
    by (cases "raspike_com_close (fgDesc s) c1") auto
  ultimately obtain desc' s' where call: "raspike_prot_shutdown others s = Some (0, desc', s')"
    "gPortDevices s' = gPortDevices (reset_port_state (- ENOTCONN) True (?s1\<lparr>fgDesc := None\<rparr>))"
    "rp_com s' = rp_com s \<or> rp_com s' = c2" "fgNextSequence s' = fgNextSequence s"
    "fgActiveReceivers s' = fgActiveReceivers s"
    by (cases "fgDesc s = None") (auto simp: raspike_prot_shutdown_def Let_def reset_port_state_def)
  have "com_wf (rp_com s')" using call(3) com_flush_wf [OF c1] close_wf [OF c2] assms by (auto simp: sound_def)
  moreover have "ports_ok P (reset_port_state (- ENOTCONN) True (?s1\<lparr>fgDesc := None\<rparr>))"
    using assms by (intro ports_ok_reset [of P]) (simp add: sound_def ports_ok_def)
  then have "ports_ok P s'" by (simp add: ports_ok_def call(2))
  ultimately have "sound False P s'"
    using assms call(4,5) prot_shutdown_closes(2) [OF call(1)] by (simp add: sound_def)
  with call(1) show ?thesis by blast
qed

subsection \<open>The interface\<close>

text \<open>The functions a program can call, by component, with their arguments. A handle is what
  \<^verbatim>\<open>get_device\<close> gave; the schedule is what the other threads do during the call.\<close>

datatype com_call =
    Com_open "string option" | Com_close "com_desc option" | Com_set_mode int
  | Com_buffer_flush "com_desc option" | Com_send "com_desc option" "byte list option" int
  | Com_receive "com_desc option" int int | Com_flush "com_desc option"
  | Com_discard "com_desc option"

datatype link_call =
    Prot_init "nat \<times> nat \<times> nat" "com_desc option" | Prot_shutdown "(rp \<Rightarrow> rp) list" | Prot_receive
  | Prot_send byte byte "byte list option" int | Prot_send_priority byte byte "byte list option" int
  | Send_request byte byte "byte list option" int int | Wait_port byte byte | Com_change byte byte
  | Drive_configure | Drive_command "realtime_drive_command option" | Inject_fault u32 u32

datatype motor_call =
    Motor_get_device byte | Motor_setup u32 bool | Motor_reset_count | Motor_get_count
  | Motor_get_speed | Motor_set_speed i32 | Motor_get_power | Motor_set_power i32 | Motor_stop
  | Motor_brake | Motor_hold | Motor_is_stalled | Motor_set_duty_limit i32
  | Motor_restore_duty_limit i32

datatype sensor_call =
    Color_get_device byte | Color_color bool | Color_rgb | Color_hsv bool | Color_reflection
  | Color_ambient | Color_light_set i32 i32 i32 | Color_light_on | Color_light_off
  | Us_get_device byte | Us_distance | Us_presence | Us_light_set i32 i32 i32 i32 | Us_light_on
  | Us_light_off | Force_get_device byte | Force_force | Force_distance | Force_pressed float_bits
  | Force_touched

datatype hub_call =
    Battery_voltage | Battery_current | Button_pressed bool | Imu_acceleration bool
  | Imu_angular_velocity bool | Imu_ready | Imu_stationary | Imu_heading | Imu_set_tilt float_bits
  | Imu_reset_heading | Display_orientation byte | Display_off | Display_pixel byte byte byte
  | Display_image "byte list option" | Display_number byte | Display_char byte
  | Display_text "byte list option" u32 u32 | Display_text_scroll "byte list option" u32
  | Light_hsv "pup_color_hsv option" | Light_color u32 | Light_off | Speaker_volume byte
  | Speaker_stop | Speaker_tone u16 i32 | System_restart | System_update_mode
  | System_shutdown "(rp \<Rightarrow> rp) list"

datatype api_call =
    On_com com_call | On_link link_call sched | On_motor motor_call "nat option" sched
  | On_sensor sensor_call "nat option" sched | On_hub hub_call sched

text \<open>The state after a call: of one that cannot fail, and of one that may follow \<^verbatim>\<open>NULL\<close>.\<close>

abbreviation after :: "'a \<times> sched \<times> rp \<Rightarrow> rp option" where
  "after x \<equiv> Some (snd (snd x))"

abbreviation after_read :: "('a \<times> sched \<times> rp) option \<Rightarrow> rp option" where
  "after_read x \<equiv> map_option (\<lambda>(_, _, s). s) x"

abbreviation with_link :: "rp \<Rightarrow> com \<Rightarrow> rp option" where
  "with_link s c \<equiv> Some (s\<lparr>rp_com := c\<rparr>)"

fun com_call_step :: "com_call \<Rightarrow> rp \<Rightarrow> rp option" where
  "com_call_step (Com_open name) s = with_link s (snd (raspike_open_usb_communication name (rp_com s)))"
| "com_call_step (Com_close d) s = with_link s (snd (snd (raspike_com_close d (rp_com s))))"
| "com_call_step (Com_set_mode m) s = with_link s (raspike_usb_set_mode m (rp_com s))"
| "com_call_step (Com_buffer_flush d) s = with_link s (raspike_usb_buffer_flush d (rp_com s))"
| "com_call_step (Com_send d buf n) s = with_link s (snd (raspike_com_send d buf n (rp_com s)))"
| "com_call_step (Com_receive d n t) s =
     with_link s (snd (snd (raspike_com_receive_timeout d True n t (rp_com s))))"
| "com_call_step (Com_flush d) s = with_link s (snd (raspike_com_flush d (rp_com s)))"
| "com_call_step (Com_discard d) s = with_link s (snd (raspike_com_discard_input d (rp_com s)))"

fun link_call_step :: "link_call \<Rightarrow> sched \<Rightarrow> rp \<Rightarrow> rp option" where
  "link_call_step (Prot_init v d) sc s = map_option snd (raspike_prot_init v d s)"
| "link_call_step (Prot_shutdown others) sc s = map_option (\<lambda>(_, _, s). s) (raspike_prot_shutdown others s)"
| "link_call_step Prot_receive sc s = map_option snd (raspike_prot_receive s)"
| "link_call_step (Prot_send port cmd buf n) sc s = Some (snd (raspike_prot_send port cmd buf n s))"
| "link_call_step (Prot_send_priority port cmd buf n) sc s =
     Some (snd (raspike_prot_send_priority port cmd buf n s))"
| "link_call_step (Send_request port cmd buf n t) sc s = after (raspike_request port cmd buf n t sc s)"
| "link_call_step (Wait_port port cmd) sc s = after_read (raspike_wait_port_cmd_change port cmd sc s)"
| "link_call_step (Com_change port cmd) sc s = after_read (raspike_port_com_change_if_needed port cmd sc s)"
| "link_call_step Drive_configure sc s = after (raspike_drive_configure sc s)"
| "link_call_step (Drive_command c) sc s = Some (snd (raspike_drive_send_command c s))"
| "link_call_step (Inject_fault m d) sc s = after (raspike_runtime_inject_fault m d sc s)"

fun motor_call_step :: "motor_call \<Rightarrow> nat option \<Rightarrow> sched \<Rightarrow> rp \<Rightarrow> rp option" where
  "motor_call_step (Motor_get_device p) m sc s = after (pup_motor_get_device p sc s)"
| "motor_call_step (Motor_setup d r) m sc s = after (pup_motor_setup m d r sc s)"
| "motor_call_step Motor_reset_count m sc s = after_read (pup_motor_reset_count m sc s)"
| "motor_call_step Motor_get_count m sc s = after_read (pup_motor_get_count m sc s)"
| "motor_call_step Motor_get_speed m sc s = after_read (pup_motor_get_speed m sc s)"
| "motor_call_step (Motor_set_speed v) m sc s = Some (snd (pup_motor_set_speed m v s))"
| "motor_call_step Motor_get_power m sc s = after_read (pup_motor_get_power m sc s)"
| "motor_call_step (Motor_set_power v) m sc s = Some (snd (pup_motor_set_power m v s))"
| "motor_call_step Motor_stop m sc s = after (pup_motor_stop m sc s)"
| "motor_call_step Motor_brake m sc s = after (pup_motor_brake m sc s)"
| "motor_call_step Motor_hold m sc s = after (pup_motor_hold m sc s)"
| "motor_call_step Motor_is_stalled m sc s = after_read (pup_motor_is_stalled m sc s)"
| "motor_call_step (Motor_set_duty_limit v) m sc s = after (pup_motor_set_duty_limit m v sc s)"
| "motor_call_step (Motor_restore_duty_limit v) m sc s =
     Some (snd (pup_motor_restore_duty_limit m v sc s))"

fun sensor_call_step :: "sensor_call \<Rightarrow> nat option \<Rightarrow> sched \<Rightarrow> rp \<Rightarrow> rp option" where
  "sensor_call_step (Color_get_device p) d sc s = after (pup_color_sensor_get_device p sc s)"
| "sensor_call_step (Color_color b) d sc s = after_read (pup_color_sensor_color d b sc s)"
| "sensor_call_step Color_rgb d sc s = after_read (pup_color_sensor_rgb d sc s)"
| "sensor_call_step (Color_hsv b) d sc s = after_read (pup_color_sensor_hsv d b sc s)"
| "sensor_call_step Color_reflection d sc s = after_read (pup_color_sensor_reflection d sc s)"
| "sensor_call_step Color_ambient d sc s = after_read (pup_color_sensor_ambient d sc s)"
| "sensor_call_step (Color_light_set a b c) d sc s = after (pup_color_sensor_light_set d a b c sc s)"
| "sensor_call_step Color_light_on d sc s = Some (snd (pup_color_sensor_light_on d s))"
| "sensor_call_step Color_light_off d sc s = Some (snd (pup_color_sensor_light_off d s))"
| "sensor_call_step (Us_get_device p) d sc s = after (pup_ultrasonic_sensor_get_device p sc s)"
| "sensor_call_step Us_distance d sc s = after_read (pup_ultrasonic_sensor_distance d sc s)"
| "sensor_call_step Us_presence d sc s = after_read (pup_ultrasonic_sensor_presence d sc s)"
| "sensor_call_step (Us_light_set a b c e) d sc s = Some (snd (pup_ultrasonic_sensor_light_set d a b c e s))"
| "sensor_call_step Us_light_on d sc s = Some (snd (pup_ultrasonic_sensor_light_on d s))"
| "sensor_call_step Us_light_off d sc s = Some (snd (pup_ultrasonic_sensor_light_off d s))"
| "sensor_call_step (Force_get_device p) d sc s = after (pup_force_sensor_get_device p sc s)"
| "sensor_call_step Force_force d sc s = after_read (pup_force_sensor_force d sc s)"
| "sensor_call_step Force_distance d sc s = after_read (pup_force_sensor_distance d sc s)"
| "sensor_call_step (Force_pressed f) d sc s = after_read (pup_force_sensor_pressed d f sc s)"
| "sensor_call_step Force_touched d sc s = after_read (pup_force_sensor_touched d sc s)"

fun hub_call_step :: "hub_call \<Rightarrow> sched \<Rightarrow> rp \<Rightarrow> rp option" where
  "hub_call_step Battery_voltage sc s = after_read (hub_battery_get_voltage sc s)"
| "hub_call_step Battery_current sc s = after_read (hub_battery_get_current sc s)"
| "hub_call_step (Button_pressed b) sc s = map_option (\<lambda>(_, _, _, s). s) (hub_button_is_pressed b sc s)"
| "hub_call_step (Imu_acceleration b) sc s = after_read (hub_imu_get_acceleration b sc s)"
| "hub_call_step (Imu_angular_velocity b) sc s = after_read (hub_imu_get_angular_velocity b sc s)"
| "hub_call_step Imu_ready sc s = after_read (hub_imu_is_ready sc s)"
| "hub_call_step Imu_stationary sc s = after_read (hub_imu_is_stationary sc s)"
| "hub_call_step Imu_heading sc s = after_read (hub_imu_get_heading sc s)"
| "hub_call_step (Imu_set_tilt a) sc s = Some (hub_imu_set_tilt a s)"
| "hub_call_step Imu_reset_heading sc s = Some (hub_imu_reset_heading s)"
| "hub_call_step (Display_orientation up) sc s = Some (snd (hub_display_orientation up s))"
| "hub_call_step Display_off sc s = Some (snd (hub_display_off s))"
| "hub_call_step (Display_pixel r c b) sc s = Some (snd (hub_display_pixel r c b s))"
| "hub_call_step (Display_image p) sc s = Some (snd (hub_display_image p s))"
| "hub_call_step (Display_number n) sc s = Some (snd (hub_display_number n s))"
| "hub_call_step (Display_char c) sc s = Some (snd (hub_display_char c s))"
| "hub_call_step (Display_text t a b) sc s = Some (snd (hub_display_text t a b s))"
| "hub_call_step (Display_text_scroll t a) sc s = Some (snd (hub_display_text_scroll t a s))"
| "hub_call_step (Light_hsv c) sc s = Some (snd (hub_light_on_hsv c s))"
| "hub_call_step (Light_color c) sc s = Some (snd (hub_light_on_color c s))"
| "hub_call_step Light_off sc s = Some (snd (hub_light_off s))"
| "hub_call_step (Speaker_volume v) sc s = Some (hub_speaker_set_volume v s)"
| "hub_call_step Speaker_stop sc s = Some (hub_speaker_stop s)"
| "hub_call_step (Speaker_tone f d) sc s = Some (hub_speaker_play_tone f d s)"
| "hub_call_step System_restart sc s = Some (snd (hub_system_restart sc s))"
| "hub_call_step System_update_mode sc s = Some (snd (hub_system_enter_update_mode sc s))"
| "hub_call_step (System_shutdown others) sc s = map_option snd (hub_system_shutdown others s)"

fun api_step :: "api_call \<Rightarrow> rp \<Rightarrow> rp option" where
  "api_step (On_com c) s = com_call_step c s"
| "api_step (On_link c sc) s = link_call_step c sc s"
| "api_step (On_motor c m sc) s = motor_call_step c m sc s"
| "api_step (On_sensor c d sc) s = sensor_call_step c d sc s"
| "api_step (On_hub c sc) s = hub_call_step c sc s"

text \<open>
  What the program owes: handles are those of ports, the descriptor of a link in use is not closed
  behind its back, and while a call runs the other threads neither open nor close the link.
\<close>

fun legal :: "nat set \<Rightarrow> api_call \<Rightarrow> rp \<Rightarrow> bool" where
  "legal P (On_com c) s = (\<forall>d. c = Com_close d \<longrightarrow> fgDesc s = None)"
| "legal P (On_link c sc) s = others_ok (linked s) P sc"
| "legal P (On_motor c m sc) s = (others_ok (linked s) P sc \<and> handle_ok m)"
| "legal P (On_sensor c d sc) s = (others_ok (linked s) P sc \<and> handle_ok d)"
| "legal P (On_hub c sc) s = others_ok (linked s) P sc"

text \<open>Some state after the call, and the invariant.\<close>

definition kept :: "nat set \<Rightarrow> rp option \<Rightarrow> bool" where
  "kept P x \<longleftrightarrow> (\<exists>up s. x = Some s \<and> sound up P s)"

lemma kept_some: "sound up P s \<Longrightarrow> kept P (Some s)"
  by (auto simp: kept_def)

lemma kept_read: "safe up P x \<Longrightarrow> kept P (after_read x)"
  by (auto simp: safe_def kept_def)

lemma com_call_kept:
  assumes "sound up P s"
  shows "kept P (com_call_step c s)"
proof -
  have link: "kept P (with_link s c')" if "com_wf c'" for c'
  proof -
    have "com_step s (s\<lparr>rp_com := c'\<rparr>)" using that by (simp add: com_step_def same_but_com_def)
    then show ?thesis using sound_com assms kept_some by blast
  qed
  have wf: "com_wf (rp_com s)" using assms by (simp add: sound_def)
  have os: "\<exists>w. snd (raspike_open_usb_communication name c) = c\<lparr>com_os := w\<rparr>" for name c
    by (auto simp: raspike_open_usb_communication_def Let_def split: prod.split intro: exI [of _ "com_os c"])
  show ?thesis
  proof (cases c)
    case (Com_open name)
    with os [of name "rp_com s"] wf link show ?thesis by auto
  next
    case (Com_close d)
    with wf link show ?thesis by (cases "raspike_com_close d (rp_com s)") (simp add: close_wf)
  next
    case (Com_set_mode m)
    with wf link show ?thesis by (simp add: raspike_usb_set_mode_def com_wf_def)
  next
    case (Com_buffer_flush d)
    with wf link show ?thesis
      by (cases "flush_buffer_locked d (rp_com s)") (simp add: raspike_usb_buffer_flush_def flush_buffer_wf)
  next
    case (Com_send d buf n)
    have "com_wf (snd (raspike_com_send d buf n (rp_com s)))"
      using wf buffered_write_wf [OF prod.collapse [symmetric]]
      by (auto simp: raspike_com_send_def rp_usb_send_def split: prod.split)
    with Com_send link show ?thesis by simp
  next
    case (Com_receive d n t)
    obtain r bs c' where "raspike_com_receive_timeout d True n t (rp_com s) = (r, bs, c')"
      by (cases "raspike_com_receive_timeout d True n t (rp_com s)") auto
    with receive_timeout_props [OF this] Com_receive wf link show ?thesis by auto
  next
    case (Com_flush d)
    with wf link show ?thesis by (cases "raspike_com_flush d (rp_com s)") (simp add: com_flush_wf)
  next
    case (Com_discard d)
    have "com_wf (snd (raspike_com_discard_input d (rp_com s)))"
      using wf by (auto simp: raspike_com_discard_input_def split: prod.split)
    with Com_discard link show ?thesis by simp
  qed
qed

lemma after_request:
  assumes "others_ok up P sc" "sound up P s"
  shows "sound up P (snd (snd (raspike_request port cmd buf n t sc s)))"
  using request_sound [OF _ assms]
  by (cases "raspike_request port cmd buf n t sc s") auto

lemma link_call_kept:
  assumes "sound up P s" "others_ok up P sc"
  shows "kept P (link_call_step c sc s)"
proof -
  note request = kept_some [OF after_request [OF assms(2,1)]]
  have pri: "kept P (Some (snd (raspike_prot_send_priority port cmd buf n s)))" for port cmd buf n
    using prot_send_priority_sound [OF prod.collapse [symmetric] assms(1)] by (rule kept_some)
  show ?thesis
  proof (cases c)
    case (Prot_init v d)
    obtain r s' where "raspike_prot_init v d s = Some (r, s')" using prot_init_returns by blast
    with prot_init_sound [OF this assms(1)] Prot_init show ?thesis by (auto simp: kept_def)
  next
    case (Prot_shutdown others)
    with prot_shutdown_sound [OF assms(1), of others] show ?thesis by (auto simp: kept_def)
  next
    case Prot_receive
    with prot_receive_sound [OF assms(1)] show ?thesis by (auto simp: kept_def)
  next
    case (Prot_send port cmd buf n)
    have "sound up P (snd (raspike_prot_send port cmd buf n s))"
      by (rule prot_send_sound [OF prod.collapse [symmetric] assms(1)])
    with Prot_send show ?thesis by (simp add: kept_some)
  next
    case (Wait_port port cmd)
    with wait_port_sound [OF assms(2,1), of port cmd] show ?thesis by (auto simp: kept_def)
  next
    case (Com_change port cmd)
    with com_change_sound [OF assms(2,1), of port cmd] show ?thesis by (auto simp: kept_def)
  next
    case (Drive_command d)
    with pri assms(1) show ?thesis by (cases d) (auto simp: raspike_drive_send_command_def intro: kept_some)
  qed (use request pri in \<open>simp_all add: raspike_drive_configure_def raspike_runtime_inject_fault_def\<close>)
qed

lemma after_get_device:
  assumes "ty \<noteq> 0" "others_ok up P sc" "sound up P s"
  shows "sound up P (snd (snd (GET_DEVICE_COMMON ty port sc s)))"
  using get_device_sound [OF _ assms] by (cases "GET_DEVICE_COMMON ty port sc s") auto

lemma after_motor_request:
  assumes "others_ok up P sc" "sound up P s"
  shows "sound up P (snd (snd (motor_request m cmd data n t sc s)))"
  using motor_request_sound [OF _ assms] by (cases "motor_request m cmd data n t sc s") auto

lemma after_light: "sound up P s \<Longrightarrow> sound up P (snd (send_light d cmd data n s))"
  by (cases "send_light d cmd data n s") (simp add: send_light_sound)

lemma after_sent:
  "sound up P s \<Longrightarrow> sound up P (snd (sent_to_pbio (raspike_prot_send port cmd data n s)))"
  by (cases "raspike_prot_send port cmd data n s") (simp add: sent_to_pbio_def prot_send_sound)

lemma set_power_sound:
  assumes "sound up P s"
  shows "sound up P (snd (pup_motor_set_power m v s))"
  using assms after_sent [OF set_device_sound [OF assms]]
  by (auto simp: pup_motor_set_power_def Let_def split: option.split)

lemma device_types: "RP_CMD_TYPE_MOTOR \<noteq> 0" "RP_CMD_TYPE_COLOR \<noteq> 0" "RP_CMD_TYPE_US \<noteq> 0" "RP_CMD_TYPE_FORCE \<noteq> 0"
  by code_simp+

text \<open>The count is written back into the saved status, which stays well-formed.\<close>

lemma reset_count_safe:
  assumes "others_ok up P sc" "sound up P s" "handle_ok motor"
  shows "safe up P (pup_motor_reset_count motor sc s)"
proof (cases motor)
  case None
  with assms show ?thesis by (simp add: pup_motor_reset_count_def)
next
  case (Some i)
  then have i7: "i < RP_PORT_NUMBER" using assms(3) by (simp add: handle_ok_def)
  obtain r sc1 s1 where req: "raspike_request (pdev_port i s) RP_CMD_ID_MOT_RST None 0 2000 sc s = (r, sc1, s1)"
    by (cases "raspike_request (pdev_port i s) RP_CMD_ID_MOT_RST None 0 2000 sc s") auto
  note i1 = request_sound [OF req assms(1,2)]
  show ?thesis
  proof (cases "r = 1 \<and> fgStatus s1 \<noteq> None")
    case False
    with req i1 Some show ?thesis by (auto simp: pup_motor_reset_count_def)
  next
    case True
    then have up using i1 by (cases up) (auto simp: sound_def closed_def)
    obtain sc2 s2 where o2: "others_run sc1 s1 = (sc2, s2)" by (cases "others_run sc1 s1")
    note i2 = others_run_sound [OF o2 conjunct1 [OF i1] conjunct2 [OF i1]]
    obtain st where st: "fgStatus s2 = Some st" "wf_status st" using i2 \<open>up\<close> by (auto simp: sound_def linked_def)
    have small: "unat (pdev_port i s2) < 6" by (rule pdev_port_small [OF conjunct2 [OF i2] i7])
    let ?st = "update_port (pdev_port i s2)
      (\<lambda>p. p\<lparr>ps_data := poke RP_MOTOR_INDEX_COUNT (replicate 4 0) (ps_data p)\<rparr>) st"
    have "wf_status ?st"
      using st(2) small
      by (auto simp: wf_status_def update_port_def list_all_length wf_port_status_def nth_list_update)
    then have "sound up P (s2\<lparr>fgStatus := Some ?st\<rparr>)"
      using i2 \<open>up\<close> by (simp add: sound_def linked_def ports_ok_def)
    with req True o2 st i2 small Some \<open>up\<close> show ?thesis
      by (simp add: pup_motor_reset_count_def wf_status_def Let_def)
  qed
qed

lemma motor_call_kept:
  assumes "sound up P s" "others_ok up P sc" "handle_ok m"
  shows "kept P (motor_call_step c m sc s)"
proof -
  note read = kept_read [OF get_and_ret_safe [OF assms(2,1,3)]] kept_read [OF reset_count_safe [OF assms(2,1,3)]]
  note request = after_motor_request [OF assms(2,1)] after_request [OF assms(2,1)]
  have set: "sound up P (set_device i f s)"
    if "\<And>dev. device_type (f dev) = device_type dev \<and> port_id (f dev) = port_id dev" for i f
    by (rule set_device_sound [OF assms(1) that])
  show ?thesis
  proof (cases c)
    case (Motor_get_device p)
    with after_get_device [OF device_types(1) assms(2,1)] show ?thesis
      by (simp add: pup_motor_get_device_def kept_some [of up])
  next
    case Motor_get_power
    have "safe up P (pup_motor_get_power m sc s)"
      using get_and_ret_safe [OF assms(2,1,3)] assms(1,2)
      by (auto simp: pup_motor_get_power_def split: option.split)
    with Motor_get_power kept_read [of up] show ?thesis by simp
  next
    case (Motor_set_speed v)
    with assms(1) after_sent [OF set] show ?thesis
      by (auto simp: pup_motor_set_speed_def Let_def intro!: kept_some [of up] split: option.split)
  next
    case (Motor_set_power v)
    with set_power_sound [OF assms(1)] show ?thesis by (simp add: kept_some [of up])
  next
    case (Motor_set_duty_limit v)
    with assms(1) request show ?thesis
      by (auto simp: pup_motor_set_duty_limit_def intro!: kept_some [of up] split: option.split)
  next
    case (Motor_restore_duty_limit v)
    with assms(1) request show ?thesis
      by (auto simp: pup_motor_restore_duty_limit_def intro!: kept_some [of up] split: option.split)
  qed (use read request kept_some [of up] in \<open>simp_all add: pup_motor_setup_def pup_motor_stop_def pup_motor_brake_def
      pup_motor_hold_def pup_motor_get_count_def pup_motor_get_speed_def pup_motor_is_stalled_def Let_def
      kept_read [of up] get_and_ret_safe [OF assms(2,1,3)]\<close>)
qed

lemma sensor_call_kept:
  assumes "sound up P s" "others_ok up P sc" "handle_ok d"
  shows "kept P (sensor_call_step c d sc s)"
proof -
  note read = get_and_ret_safe [OF assms(2,1,3)] delayed_safe [OF assms(2,1,3)]
  note device = after_get_device [OF _ assms(2,1)] device_types
  note light = kept_some [OF after_light [OF assms(1)]]
  show ?thesis
  proof (cases c)
    case (Color_light_set x y z)
    have "sound up P (snd (snd (pup_color_sensor_light_set d x y z sc s)))"
      using after_request [OF assms(2,1)] assms(1)
      by (auto simp: pup_color_sensor_light_set_def Let_def split: option.split prod.split) (metis snd_conv)
    with Color_light_set kept_some [of up] show ?thesis by simp
  next
    case (Force_pressed f)
    have "safe up P (pup_force_sensor_pressed d f sc s)"
      using read(1) [of 4 RP_FORCESENSOR_INDEX_FRC]
      by (auto simp: pup_force_sensor_pressed_def pup_force_sensor_force_def safe_def as_result_def)
    with Force_pressed kept_read [of up] show ?thesis by simp
  qed (use device light in \<open>simp_all add: read kept_some [of up] kept_read [of up] pup_color_sensor_get_device_def
      pup_ultrasonic_sensor_get_device_def pup_force_sensor_get_device_def pup_color_sensor_color_def
      pup_color_sensor_rgb_def pup_color_sensor_hsv_def pup_color_sensor_reflection_def
      pup_color_sensor_ambient_def pup_color_sensor_light_on_def pup_color_sensor_light_off_def
      pup_ultrasonic_sensor_distance_def pup_ultrasonic_sensor_presence_def
      pup_ultrasonic_sensor_light_set_def pup_ultrasonic_sensor_light_on_def
      pup_ultrasonic_sensor_light_off_def pup_force_sensor_force_def pup_force_sensor_distance_def
      pup_force_sensor_touched_def Let_def\<close>)
qed

lemma hub_texts_sound:
  assumes "sound up P s"
  shows "sound up P (snd (hub_display_text t a b s))" "sound up P (snd (hub_display_text_scroll t a s))"
    "sound up P (snd (hub_light_on_hsv h s))"
  using assms hub_command_sound_snd [OF assms]
  by (auto simp: hub_display_text_def hub_display_text_scroll_def hub_light_on_hsv_def Let_def split: option.split)

lemma tone_sound:
  assumes "sound up P s"
  shows "sound up P (hub_speaker_play_tone f d s)"
proof -
  have stop: "sound up P (hub_speaker_stop t)" if "sound up P t" for t
    using that by (simp add: hub_speaker_stop_def hub_command_sound_snd)
  have sleep: "sound up P (snd (on_os g t))" if "sound up P t" for g :: "os \<Rightarrow> unit \<times> os" and t
    by (rule sound_com [OF on_os_step [OF prod.collapse [symmetric]] that])
  let ?data = "poke RP_HUB_SPK_PLY_TON_INDEX_FRQ (le16 f)
    (poke RP_HUB_SPK_PLY_TON_INDEX_DUR (le32 SOUND_MANUAL_STOP) (replicate 6 0))"
  obtain r s1 where "send_hub_command RP_CMD_ID_HUB_SPK_PLY_TON (Some ?data) 6 s = (r, s1)"
    by (cases "send_hub_command RP_CMD_ID_HUB_SPK_PLY_TON (Some ?data) 6 s")
  with hub_command_sound [OF this assms] stop sleep show ?thesis
    by (simp add: hub_speaker_play_tone_def Let_def del: SOUND_MANUAL_STOP_def
        RP_HUB_SPK_PLY_TON_INDEX_FRQ_def RP_HUB_SPK_PLY_TON_INDEX_DUR_def)
qed

lemma hub_call_kept:
  assumes "sound up P s" "others_ok up P sc"
  shows "kept P (hub_call_step c sc s)"
proof -
  note command = hub_command_sound_snd [OF assms(1)]
  note request = after_request [OF assms(2,1)]
  have skip: "kept P (Some s)" using assms(1) by (rule kept_some)
  show ?thesis
  proof (cases c)
    case (Button_pressed b)
    obtain r st sc' s' where "read_status_snapshot sc s = Some (r, st, sc', s')" "sound up P s'"
      using snapshot_safe [OF assms(2,1)] by blast
    with Button_pressed skip show ?thesis by (auto simp: hub_button_is_pressed_def intro: kept_some)
  next
    case (System_shutdown others)
    obtain r s1 where cmd: "send_hub_command RP_CMD_ID_SHT_DWN None 0 s = (r, s1)"
      by (cases "send_hub_command RP_CMD_ID_SHT_DWN None 0 s")
    from prot_shutdown_sound [OF hub_command_sound [OF this assms(1)], of others] cmd System_shutdown
    show ?thesis by (auto simp: hub_system_shutdown_def kept_def)
  qed (use command request skip hub_texts_sound [OF assms(1)] tone_sound [OF assms(1)] in \<open>simp_all add: kept_some [of up] kept_read [of up]
      from_snapshot_safe [OF assms(2,1)] hub_battery_get_voltage_def
      hub_battery_get_current_def hub_imu_get_acceleration_def hub_imu_get_angular_velocity_def
      hub_imu_is_ready_def hub_imu_is_stationary_def hub_imu_get_heading_def hub_imu_set_tilt_def
      hub_imu_reset_heading_def hub_display_orientation_def hub_display_off_def hub_display_pixel_def
      hub_display_image_def hub_display_number_def hub_display_char_def hub_light_on_color_def
      hub_light_off_def hub_speaker_set_volume_def hub_speaker_stop_def hub_system_restart_def
      hub_system_enter_update_mode_def Let_def del: RP_SOFT_RESET_MAGIC_def RP_UPDATE_MODE_MAGIC_def\<close>)
qed

lemma sound_linked: "sound up P s \<Longrightarrow> linked s \<longleftrightarrow> up"
  by (auto simp: sound_def linked_def closed_def split: if_splits)

lemma api_step_kept:
  assumes "sound up P s" "legal P c s"
  shows "kept P (api_step c s)"
  using assms sound_linked [OF assms(1)]
  by (cases c) (simp_all add: com_call_kept link_call_kept motor_call_kept sensor_call_kept hub_call_kept)

subsection \<open>Every state a program can reach\<close>

text \<open>From the program's start, with any answers of the system, by legal calls.\<close>

inductive reachable :: "nat set \<Rightarrow> rp \<Rightarrow> bool" for P where
  start: "reachable P (initial_rp w)"
| call: "reachable P s \<Longrightarrow> legal P c s \<Longrightarrow> api_step c s = Some s' \<Longrightarrow> reachable P s'"

lemma initial_sound: "sound False P (initial_rp w)"
  by (simp add: sound_def initial_rp_def closed_def com_wf_initial ports_ok_def port_ok_def
      init_port_device_def zero_device_def)

lemma reachable_kept: "reachable P s \<Longrightarrow> \<exists>up. sound up P s"
proof (induction rule: reachable.induct)
  case (start w)
  show ?case using initial_sound by blast
next
  case (call s c s')
  then show ?case using api_step_kept by (fastforce simp: kept_def)
qed

lemma demo_init:
  "map_option (\<lambda>(r, s). (r, fgSessionId s)) (raspike_prot_init (0, 8, 4) (Some demo_desc)
     ((initial_rp idle_os)\<lparr>rp_com := (demo_com demo_negotiation [WriteCount 2])\<lparr>fg_send_buffer := buf\<rparr>\<rparr>)) = Some (0, 7)"
  by code_simp

lemma demo_reachable: "\<exists>s. reachable P s \<and> linked s \<and> fgSessionId s = 7"
proof -
  let ?s = "initial_rp (demo_os demo_negotiation [WriteCount 2])"
  let ?c = "On_link (Prot_init (0, 8, 4) (Some demo_desc)) quiet"
  have "?s = (initial_rp idle_os)\<lparr>rp_com := (demo_com demo_negotiation [WriteCount 2])
      \<lparr>fg_send_buffer := replicate RP_SEND_BUFFER_SIZE 0\<rparr>\<rparr>"
    by (simp add: initial_rp_def initial_com_def demo_com_def del: RP_SEND_BUFFER_SIZE_def)
  with demo_init obtain s where init: "raspike_prot_init (0, 8, 4) (Some demo_desc) ?s = Some (0, s)"
    "fgSessionId s = 7" by auto
  have "legal P ?c ?s" by (simp add: others_ok_def sched_of_def waits_of_def quiet_def)
  moreover have "api_step ?c ?s = Some s" using init(1) by simp
  ultimately have "reachable P s" by (rule reachable.call [OF reachable.start])
  moreover have "linked s"
    using prot_init_up [OF init(1)] by (simp add: initial_rp_def)
  ultimately show ?thesis using init(2) by blast
qed

text \<open>C5. Whatever a program's threads call, in whatever order and with whatever answers of the hub and the
  system: after every call the link is fully up or fully closed, the send buffer is within its
  bounds, sequence numbers are not zero, no receiver is left inside, no request is pending but those
  other threads have opened, and every device that was given out carries the number of its port.\<close>

theorem reachable_sound:
  assumes "reachable P s"
  shows "(closed s \<or> linked s \<and> \<not> fgStopCommunication s) \<and> com_wf (rp_com s) \<and>
    fgNextSequence s \<noteq> 0 \<and> fgActiveReceivers s = 0 \<and> length (gPortDevices s) = RP_PORT_NUMBER \<and>
    (\<forall>i < RP_PORT_NUMBER. (pending (gPortDevices s ! i) \<longrightarrow> i \<in> P) \<and>
      (device_type (device (gPortDevices s ! i)) = 0 \<or> i < 6 \<and> pdev_port i s = of_nat i))"
proof -
  obtain up where "sound up P s" using reachable_kept [OF assms] by blast
  then show ?thesis
    by (cases up) (auto simp: sound_def ports_ok_def port_ok_def pdev_port_def split: if_splits)
qed

theorem reachable_sound_witness:
  "\<exists>s. linked s \<and> fgSessionId s = 7 \<and> \<not> fgStopCommunication s \<and> com_wf (rp_com s) \<and>
    (\<forall>i < RP_PORT_NUMBER. \<not> pending (gPortDevices s ! i))"
proof -
  obtain s where s: "reachable {} s" "linked s" "fgSessionId s = 7" using demo_reachable by blast
  have "\<not> closed s" using s(2) by (auto simp: closed_def linked_def)
  with reachable_sound [OF s(1)] s(2,3) show ?thesis by blast
qed

text \<open>C4. No call follows a null pointer as long as one thread alone opens and shuts down the link: in
  every state a program can reach, on a link that is up as on one that is closed, every legal call of
  the interface returns and leaves such a state again. At each point where the call waits for a mutex
  or a condition the other threads may dispatch, receive and use any other handles, any number of
  times, but not open or shut down the link; with a shutdown there two calls do follow it (the first
  two lemmas of \<open>Defects\<close>).\<close>

theorem library_never_follows_null:
  assumes "reachable P s" "legal P c s"
  shows "\<exists>s'. api_step c s = Some s' \<and> reachable P s'"
proof -
  obtain up where "sound up P s" using reachable_kept [OF assms(1)] by blast
  from api_step_kept [OF this assms(2)] obtain s' where "api_step c s = Some s'" by (auto simp: kept_def)
  then show ?thesis using reachable.call [OF assms] by blast
qed

text \<open>A read of a sensor while another thread opens a request on port 4 and then the receiving thread has
  a message, both while the call waits for one mutex.\<close>

theorem library_never_follows_null_witness:
  "\<exists>s s'. linked s \<and> api_step (On_sensor Color_reflection (Some 2)
      \<lparr>s_steps = [\<lambda>s. hub_step demo_answer (update_device 4 (\<lambda>dev. dev\<lparr>pending := True\<rparr>) s)], s_waits = [(id, 0)]\<rparr>) s = Some s' \<and>
    reachable {4} s'"
proof -
  let ?sc = "\<lparr>s_steps = [\<lambda>s. hub_step demo_answer (update_device 4 (\<lambda>dev. dev\<lparr>pending := True\<rparr>) s)], s_waits = [(id, 0)]\<rparr>"
  obtain s where s: "reachable {4} s" "linked s" using demo_reachable by blast
  have "keeps_port {4} 4 (\<lambda>dev. dev\<lparr>pending := True\<rparr>)" by (simp add: keeps_port_def port_ok_def)
  then have "legal {4} (On_sensor Color_reflection (Some 2) ?sc) s"
    using s(2) by (simp add: others_ok_def sched_of_def waits_of_def handle_ok_def other_step.intros)
  from library_never_follows_null [OF s(1) this] s(2) show ?thesis by blast
qed

end
