(* ===== verification/Concurrency.thy ===== *)
theory Concurrency
  imports Prelude
begin

section \<open>The mutexes and the receivers\<close>

text \<open>
  The other theories take a section under a mutex as one step. This one looks at the mutexes
  themselves: for every call of the library the order in which it locks and unlocks them, for
  every outcome of its tests, and the interleavings of any number of threads that make any calls.
  The outcomes are free, so an interleaving may have tests come out as no state would let them; what
  holds of all of them holds of the program's.
  A timed wait for a condition is a wait that ends: the mutex is given back and taken again.
  The wait of \<open>raspike_prot_shutdown\<close> for the receivers has no time-out and is a state of its own.
\<close>

subsection \<open>Mutexes, actions, threads\<close>

text \<open>The mutexes of \<open>raspike_protocol.c\<close>, that of \<open>raspike_com.c\<close> (\<open>fg_send_mutex\<close>), and the three
  of every \<open>RPPortDevice\<close>.\<close>

datatype lock = LifecycleMutex | SendMutex | SequenceMutex | StatusMutex | LinkStatsMutex
  | RuntimeTelemetryMutex | ComSendMutex | PortMutex nat | RequestMutex nat | DeviceMutex nat

text \<open>\<open>Enter\<close> and \<open>Leave\<close> are \<open>++fgActiveReceivers\<close> and \<open>--fgActiveReceivers\<close>, \<open>ResetReceivers\<close> is
  \<open>fgActiveReceivers = 0\<close>; \<open>AwaitReceivers\<close> is the loop around \<open>pthread_cond_wait\<close>, and \<open>Sleeping\<close>
  is that wait with the mutex given back.\<close>

datatype action = Lock lock | Unlock lock | Enter | Leave | ResetReceivers | AwaitReceivers | Sleeping

record thread =
  held :: "lock list"
  inside :: bool
  todo :: "action list"

record system =
  threads :: "thread list"
  receivers :: int

abbreviation free :: "thread list \<Rightarrow> lock \<Rightarrow> bool" where
  "free ts l \<equiv> \<forall>t\<in>set ts. l \<notin> set (held t)"

text \<open>One action of one thread, among the threads \<open>ts\<close> with \<open>n\<close> receivers counted. A sleeping
  shutdown wakes up when the last receiver has left; it may then find the mutex taken.\<close>

inductive thread_step :: "thread list \<Rightarrow> int \<Rightarrow> thread \<Rightarrow> thread \<Rightarrow> int \<Rightarrow> bool" for ts n where
  lock: "free ts l \<Longrightarrow> thread_step ts n \<lparr>held = h, inside = b, todo = Lock l # a\<rparr>
           \<lparr>held = l # h, inside = b, todo = a\<rparr> n"
| unlock: "l \<in> set h \<Longrightarrow> thread_step ts n \<lparr>held = h, inside = b, todo = Unlock l # a\<rparr>
           \<lparr>held = remove1 l h, inside = b, todo = a\<rparr> n"
| enter: "thread_step ts n \<lparr>held = h, inside = b, todo = Enter # a\<rparr>
           \<lparr>held = h, inside = True, todo = a\<rparr> (n + 1)"
| leave: "thread_step ts n \<lparr>held = h, inside = b, todo = Leave # a\<rparr>
           \<lparr>held = h, inside = False, todo = a\<rparr> (n - 1)"
| reset: "thread_step ts n \<lparr>held = h, inside = b, todo = ResetReceivers # a\<rparr>
           \<lparr>held = h, inside = b, todo = a\<rparr> 0"
| none_inside: "n \<le> 0 \<Longrightarrow> thread_step ts n \<lparr>held = h, inside = b, todo = AwaitReceivers # a\<rparr>
           \<lparr>held = h, inside = b, todo = a\<rparr> n"
| sleep: "0 < n \<Longrightarrow> thread_step ts n \<lparr>held = h, inside = b, todo = AwaitReceivers # a\<rparr>
           \<lparr>held = remove1 LifecycleMutex h, inside = b, todo = Sleeping # a\<rparr> n"
| wake: "n \<le> 0 \<Longrightarrow> free ts LifecycleMutex \<Longrightarrow> thread_step ts n \<lparr>held = h, inside = b, todo = Sleeping # a\<rparr>
           \<lparr>held = LifecycleMutex # h, inside = b, todo = a\<rparr> n"

inductive lock_step :: "system \<Rightarrow> system \<Rightarrow> bool" where
  step: "i < length (threads st) \<Longrightarrow> thread_step (threads st) (receivers st) (threads st ! i) t n \<Longrightarrow>
    lock_step st \<lparr>threads = (threads st)[i := t], receivers = n\<rparr>"

inductive_cases thread_stepE: "thread_step ts n t t' n'"
inductive_cases lock_stepE: "lock_step st st'"
inductive_simps idle_step: "thread_step ts n \<lparr>held = h, inside = b, todo = []\<rparr> t' n'"
inductive_simps lock_blocked: "thread_step ts n \<lparr>held = h, inside = b, todo = Lock l # a\<rparr> t' n'"

text \<open>The same step as a function, to run a schedule.\<close>

fun act :: "thread list \<Rightarrow> int \<Rightarrow> thread \<Rightarrow> (thread \<times> int) option" where
  "act ts n t =
     (case todo t of
        [] \<Rightarrow> None
      | Lock l # a \<Rightarrow> if list_all (\<lambda>t. l \<notin> set (held t)) ts then Some (t\<lparr>held := l # held t, todo := a\<rparr>, n) else None
      | Unlock l # a \<Rightarrow> if l \<in> set (held t) then Some (t\<lparr>held := remove1 l (held t), todo := a\<rparr>, n) else None
      | Enter # a \<Rightarrow> Some (t\<lparr>inside := True, todo := a\<rparr>, n + 1)
      | Leave # a \<Rightarrow> Some (t\<lparr>inside := False, todo := a\<rparr>, n - 1)
      | ResetReceivers # a \<Rightarrow> Some (t\<lparr>todo := a\<rparr>, 0)
      | AwaitReceivers # a \<Rightarrow> if n \<le> 0 then Some (t\<lparr>todo := a\<rparr>, n)
          else Some (t\<lparr>held := remove1 LifecycleMutex (held t), todo := Sleeping # a\<rparr>, n)
      | Sleeping # a \<Rightarrow> if n \<le> 0 \<and> list_all (\<lambda>t. LifecycleMutex \<notin> set (held t)) ts
          then Some (t\<lparr>held := LifecycleMutex # held t, todo := a\<rparr>, n) else None)"

fun run :: "nat list \<Rightarrow> system \<Rightarrow> system option" where
  "run [] st = Some st"
| "run (i # is) st =
     (if i < length (threads st) then
        case act (threads st) (receivers st) (threads st ! i) of
          None \<Rightarrow> None
        | Some (t, n) \<Rightarrow> run is \<lparr>threads = (threads st)[i := t], receivers = n\<rparr>
      else None)"

lemma thread_step_iff: "thread_step ts n t t' n' \<longleftrightarrow> act ts n t = Some (t', n')"
proof
  show "thread_step ts n t t' n' \<Longrightarrow> act ts n t = Some (t', n')"
    by (erule thread_stepE) (auto simp: list_all_iff)
next
  assume "act ts n t = Some (t', n')"
  then show "thread_step ts n t t' n'"
    by (cases t) (auto simp: list_all_iff simp del: One_nat_def
      split: list.splits action.splits if_splits intro: thread_step.intros)
qed

lemma run_sound: "run is st = Some st' \<Longrightarrow> lock_step\<^sup>*\<^sup>* st st'"
proof (induction "is" arbitrary: st)
  case (Cons i "is")
  then obtain t n where "i < length (threads st)" "act (threads st) (receivers st) (threads st ! i) = Some (t, n)"
    and rest: "run is \<lparr>threads = (threads st)[i := t], receivers = n\<rparr> = Some st'"
    by (auto split: if_splits option.splits)
  then have "lock_step st \<lparr>threads = (threads st)[i := t], receivers = n\<rparr>"
    by (intro lock_step.step) (simp_all add: thread_step_iff)
  then show ?case using Cons.IH [OF rest] by (rule converse_rtranclp_into_rtranclp)
qed simp

definition finished :: "system \<Rightarrow> bool" where
  "finished st \<longleftrightarrow> list_all (\<lambda>t. todo t = [] \<and> held t = []) (threads st)"

definition stuck :: "system \<Rightarrow> bool" where
  "stuck st \<longleftrightarrow> list_all (\<lambda>t. act (threads st) (receivers st) t = None) (threads st)"

lemma stuck_iff: "stuck st \<longleftrightarrow> (\<nexists>st'. lock_step st st')"
proof
  show "stuck st \<Longrightarrow> \<nexists>st'. lock_step st st'"
    by (auto simp: stuck_def list_all_iff thread_step_iff elim!: lock_stepE)
next
  assume none: "\<nexists>st'. lock_step st st'"
  have "act (threads st) (receivers st) (threads st ! i) = None" if "i < length (threads st)" for i
  proof (rule ccontr)
    assume "act (threads st) (receivers st) (threads st ! i) \<noteq> None"
    then obtain t n where "thread_step (threads st) (receivers st) (threads st ! i) t n"
      by (auto simp: thread_step_iff)
    with that none show False by (blast intro: lock_step.step)
  qed
  then show "stuck st" by (auto simp: stuck_def list_all_iff in_set_conv_nth)
qed

subsection \<open>The order in which each call takes the mutexes\<close>

text \<open>What is done with a mutex locked; a section that touches no other mutex.\<close>

definition locked :: "lock \<Rightarrow> action list \<Rightarrow> action list" where
  "locked l a = Lock l # a @ [Unlock l]"

abbreviation section_of :: "lock \<Rightarrow> action list" where
  "section_of l \<equiv> locked l []"

definition stats_increment_locks :: "action list" where
  "stats_increment_locks = section_of LinkStatsMutex"

definition next_sequence_locks :: "action list" where
  "next_sequence_locks = section_of SequenceMutex"

text \<open>\<open>rp_usb_send\<close> reads the mode under the mutex, and \<open>buffered_write\<close> takes it again.\<close>

definition rp_usb_send_locks :: "bool \<Rightarrow> action list" where
  "rp_usb_send_locks buffered =
     section_of ComSendMutex @ (if buffered then section_of ComSendMutex else [])"

definition rp_usb_flush_locks :: "action list" where
  "rp_usb_flush_locks = section_of ComSendMutex"

text \<open>How a send ends: refused because the link is down or the arguments are illegal, failed on the
  line, failed in the flush, or sent; the flag tells whether the mode was buffered.\<close>

datatype send_case = Refused | Send_failed bool | Flush_failed bool | Sent bool

definition line_locks :: "send_case \<Rightarrow> bool \<Rightarrow> action list" where
  "line_locks c flush_now =
     (case c of
        Refused \<Rightarrow> []
      | Send_failed buffered \<Rightarrow> rp_usb_send_locks buffered
      | Flush_failed buffered \<Rightarrow> rp_usb_send_locks buffered @ rp_usb_flush_locks
      | Sent buffered \<Rightarrow> rp_usb_send_locks buffered @ (if flush_now then rp_usb_flush_locks else []))"

definition send_frame_locks :: "send_case \<Rightarrow> bool \<Rightarrow> action list" where
  "send_frame_locks c flush_now =
     locked SendMutex (line_locks c flush_now) @
     (case c of Sent buffered \<Rightarrow> stats_increment_locks | _ \<Rightarrow> [])"

definition send_locks :: "send_case \<Rightarrow> bool \<Rightarrow> action list" where
  "send_locks c priority = next_sequence_locks @ send_frame_locks c priority"

definition reset_port_state_locks :: "bool \<Rightarrow> action list" where
  "reset_port_state_locks clear_devices =
     concat (map (\<lambda>i. section_of (PortMutex i) @ (if clear_devices then section_of (DeviceMutex i) else []))
       [0..<7])"

text \<open>A wait for a condition that wakes up \<open>n\<close> times, under the mutex \<open>l\<close>.\<close>

definition timed_waits :: "lock \<Rightarrow> nat \<Rightarrow> action list" where
  "timed_waits l n = concat (replicate n [Unlock l, Lock l])"

text \<open>One attempt of a request: it finds the request cancelled, or cannot send, or sends and waits
  and perhaps counts a retry.\<close>

datatype attempt = Cancelled | Not_sent send_case | Waited bool nat bool

definition attempt_locks :: "nat \<Rightarrow> attempt \<Rightarrow> action list" where
  "attempt_locks port a = section_of (PortMutex port) @
     (case a of
        Cancelled \<Rightarrow> []
      | Not_sent c \<Rightarrow> send_frame_locks c True
      | Waited buffered n retry \<Rightarrow>
          send_frame_locks (Sent buffered) True @
          locked (PortMutex port) (timed_waits (PortMutex port) n) @
          (if retry then stats_increment_locks else []))"

definition raspike_request_locks :: "nat \<Rightarrow> attempt list \<Rightarrow> bool \<Rightarrow> action list" where
  "raspike_request_locks port attempts timed_out =
     locked (RequestMutex port)
       (next_sequence_locks @ section_of (PortMutex port) @
        concat (map (attempt_locks port) attempts) @
        locked (PortMutex port) (if timed_out then stats_increment_locks else []))"

text \<open>\<open>GET_DEVICE_COMMON\<close> makes its request, when it needs one, with the device mutex locked.\<close>

definition get_device_locks :: "nat \<Rightarrow> (attempt list \<times> bool) option \<Rightarrow> action list" where
  "get_device_locks port request =
     locked (DeviceMutex port)
       (case request of None \<Rightarrow> []
        | Some (attempts, timed_out) \<Rightarrow> raspike_request_locks port attempts timed_out)"

text \<open>What a received frame makes the dispatcher do.\<close>

datatype dispatch_case = No_section | Error_counted | Hello_of_session bool | Status_section
  | Telemetry_section | Ack_section nat bool

definition process_command_locks :: "dispatch_case \<Rightarrow> action list" where
  "process_command_locks d =
     (case d of
        No_section \<Rightarrow> []
      | Error_counted \<Rightarrow> stats_increment_locks
      | Hello_of_session has_status \<Rightarrow>
          reset_port_state_locks False @ (if has_status then section_of StatusMutex else []) @
          section_of RuntimeTelemetryMutex
      | Status_section \<Rightarrow> section_of StatusMutex
      | Telemetry_section \<Rightarrow> section_of RuntimeTelemetryMutex
      | Ack_section port matches \<Rightarrow>
          locked (PortMutex port) (if matches then [] else stats_increment_locks))"

text \<open>\<open>raspike_prot_receive\<close> counts itself as a receiver, unless the link is down; what it reads is
  nothing, a bad frame, or a frame for the dispatcher, which a legacy frame counts first.\<close>

datatype receive_case = Link_down | Nothing_read | Bad_frame | Frame bool dispatch_case bool

definition raspike_prot_receive_locks :: "receive_case \<Rightarrow> action list" where
  "raspike_prot_receive_locks r =
     (if r = Link_down then section_of LifecycleMutex else
      locked LifecycleMutex [Enter] @
      (case r of
         Frame legacy d counted \<Rightarrow>
           (if legacy then stats_increment_locks else []) @ process_command_locks d @
           (if counted then stats_increment_locks else [])
       | Bad_frame \<Rightarrow> stats_increment_locks
       | _ \<Rightarrow> []) @
      locked LifecycleMutex [Leave])"

definition raspike_prot_shutdown_locks :: "bool \<Rightarrow> action list" where
  "raspike_prot_shutdown_locks has_desc =
     [Lock LifecycleMutex, AwaitReceivers, Lock SendMutex, Unlock LifecycleMutex] @
     reset_port_state_locks True @ (if has_desc then rp_usb_flush_locks else []) @
     [Unlock SendMutex] @ section_of StatusMutex"

text \<open>\<open>raspike_prot_init\<close>: busy, without memory, or with the handshake's sends, after which it either
  sets the mode or gives the descriptor up. Unless it is busy it sets the count of receivers to 0.\<close>

datatype init_case = Busy | No_memory | Handshake bool "send_case list" bool

definition raspike_prot_init_locks :: "init_case \<Rightarrow> action list" where
  "raspike_prot_init_locks c =
     locked LifecycleMutex (case c of Busy \<Rightarrow> [] | _ \<Rightarrow> [ResetReceivers]) @
     (case c of
        Busy \<Rightarrow> []
      | No_memory \<Rightarrow> section_of LifecycleMutex
      | Handshake first sends success \<Rightarrow>
          (if first then [] else reset_port_state_locks True) @
          concat (map (\<lambda>c. line_locks c True) sends) @
          (if success then section_of ComSendMutex else section_of LifecycleMutex))"

definition wait_port_cmd_change_locks :: "nat \<Rightarrow> action list" where
  "wait_port_cmd_change_locks n = locked StatusMutex (timed_waits StatusMutex n)"

text \<open>\<open>raspike_port_com_change_if_needed\<close>: the mode may be set already; else it is sent, and awaited
  when it was sent.\<close>

definition com_change_locks :: "(send_case \<times> nat) option \<Rightarrow> action list" where
  "com_change_locks change = section_of StatusMutex @
     (case change of
        None \<Rightarrow> []
      | Some (c, n) \<Rightarrow> send_locks c True @
          (case c of Sent buffered \<Rightarrow> wait_port_cmd_change_locks n | _ \<Rightarrow> []))"

text \<open>The calls of the library that take a mutex.\<close>

datatype call = Init init_case | Shutdown bool | Receive receive_case | Send send_case bool
  | Request nat "attempt list" bool | Get_device nat "(attempt list \<times> bool) option"
  | Change_mode "(send_case \<times> nat) option" | Read_status | Get_telemetry | Get_stats | Set_mode | Flush

definition call_locks :: "call \<Rightarrow> action list" where
  "call_locks c =
     (case c of
        Init i \<Rightarrow> raspike_prot_init_locks i
      | Shutdown has_desc \<Rightarrow> raspike_prot_shutdown_locks has_desc
      | Receive r \<Rightarrow> raspike_prot_receive_locks r
      | Send s priority \<Rightarrow> send_locks s priority
      | Request port attempts timed_out \<Rightarrow> raspike_request_locks port attempts timed_out
      | Get_device port request \<Rightarrow> get_device_locks port request
      | Change_mode change \<Rightarrow> com_change_locks change
      | Read_status \<Rightarrow> section_of StatusMutex
      | Get_telemetry \<Rightarrow> section_of RuntimeTelemetryMutex
      | Get_stats \<Rightarrow> section_of LinkStatsMutex
      | Set_mode \<Rightarrow> section_of ComSendMutex
      | Flush \<Rightarrow> rp_usb_flush_locks)"

text \<open>Every thread makes its calls one after the other.\<close>

definition thread_of :: "call list \<Rightarrow> thread" where
  "thread_of cs = \<lparr>held = [], inside = False, todo = concat (map call_locks cs)\<rparr>"

definition start :: "call list list \<Rightarrow> system" where
  "start css = \<lparr>threads = map thread_of css, receivers = 0\<rparr>"

subsection \<open>The discipline of an order\<close>

text \<open>A script keeps to an order when every mutex it locks is above those it holds, it unlocks what
  it holds, counts itself as a receiver under the lifecycle mutex and once, and waits for the
  receivers with that mutex alone. The flag says whether the count must be exact: then no script may
  reset it, and only then may one wait for it.\<close>

fun disciplined :: "bool \<Rightarrow> (lock \<Rightarrow> nat) \<Rightarrow> lock list \<Rightarrow> bool \<Rightarrow> action list \<Rightarrow> lock list \<Rightarrow> bool \<Rightarrow> bool" where
  "disciplined e rank h b [] h' b' \<longleftrightarrow> h = h' \<and> b = b'"
| "disciplined e rank h b (Lock l # a) h' b' \<longleftrightarrow>
     (\<forall>k\<in>set h. rank k < rank l) \<and> disciplined e rank (l # h) b a h' b'"
| "disciplined e rank h b (Unlock l # a) h' b' \<longleftrightarrow> l \<in> set h \<and> disciplined e rank (remove1 l h) b a h' b'"
| "disciplined e rank h b (Enter # a) h' b' \<longleftrightarrow>
     LifecycleMutex \<in> set h \<and> \<not> b \<and> disciplined e rank h True a h' b'"
| "disciplined e rank h b (Leave # a) h' b' \<longleftrightarrow>
     LifecycleMutex \<in> set h \<and> b \<and> disciplined e rank h False a h' b'"
| "disciplined e rank h b (ResetReceivers # a) h' b' \<longleftrightarrow>
     \<not> e \<and> LifecycleMutex \<in> set h \<and> disciplined e rank h b a h' b'"
| "disciplined e rank h b (AwaitReceivers # a) h' b' \<longleftrightarrow>
     e \<and> h = [LifecycleMutex] \<and> \<not> b \<and> disciplined e rank h b a h' b'"
| "disciplined e rank h b (Sleeping # a) h' b' \<longleftrightarrow>
     e \<and> h = [] \<and> \<not> b \<and> disciplined e rank [LifecycleMutex] b a h' b'"

lemma disciplined_append:
  "disciplined e rank h b xs h1 b1 \<Longrightarrow> disciplined e rank h1 b1 ys h2 b2 \<Longrightarrow> disciplined e rank h b (xs @ ys) h2 b2"
  by (induction e rank h b xs h1 b1 rule: disciplined.induct) auto

lemma disciplined_concat:
  "(\<And>s. s \<in> set ss \<Longrightarrow> disciplined e rank h b s h b) \<Longrightarrow> disciplined e rank h b (concat ss) h b"
  by (induction ss) (auto intro: disciplined_append)

abbreviation steady :: "bool \<Rightarrow> (lock \<Rightarrow> nat) \<Rightarrow> lock list \<Rightarrow> bool \<Rightarrow> action list \<Rightarrow> bool" where
  "steady e rank h b a \<equiv> disciplined e rank h b a h b"

subsection \<open>What every interleaving keeps\<close>

definition well :: "bool \<Rightarrow> (lock \<Rightarrow> nat) \<Rightarrow> system \<Rightarrow> bool" where
  "well e rank st \<longleftrightarrow>
     list_all (\<lambda>t. disciplined e rank (held t) (inside t) (todo t) [] False) (threads st) \<and>
     distinct (concat (map held (threads st))) \<and>
     (e \<longrightarrow> receivers st = int (length (filter inside (threads st))))"

lemma thread_step_disciplined:
  assumes "thread_step ts n t t' n'" "disciplined e rank (held t) (inside t) (todo t) [] False"
  shows "disciplined e rank (held t') (inside t') (todo t') [] False"
  using assms by (cases rule: thread_step.cases) (auto simp: remove1_append)

lemma thread_step_held:
  assumes "thread_step ts n t t' n'"
  shows "(\<exists>l. held t' = remove1 l (held t)) \<or> held t' = held t \<or> (\<exists>l. free ts l \<and> held t' = l # held t)"
  using assms by (cases rule: thread_step.cases) auto

lemma distinct_shrink: "distinct (xs @ h @ ys) \<Longrightarrow> distinct (xs @ remove1 l h @ ys)"
  using set_remove1_subset [of l h] by auto

lemma well_step:
  assumes "lock_step st st'" "well e rank st"
  shows "well e rank st'"
  using assms(1)
proof (cases rule: lock_step.cases)
  case (step i t n)
  define u where "u = threads st ! i"
  obtain xs ys where ts: "threads st = xs @ u # ys" "(threads st)[i := t] = xs @ t # ys"
    using id_take_nth_drop [OF step(2)] upd_conv_take_nth_drop [OF step(2)] unfolding u_def by blast
  have move: "thread_step (threads st) (receivers st) u t n" using step(3) by (simp add: u_def)
  have wt: "disciplined e rank (held u) (inside u) (todo u) [] False"
    using assms(2) ts(1) by (simp add: well_def)
  note disc = thread_step_disciplined [OF move wt]
  let ?A = "concat (map held xs)" and ?B = "concat (map held ys)"
  have whole: "distinct (?A @ held u @ ?B)" using assms(2) ts(1) by (simp add: well_def)
  have "distinct (?A @ held t @ ?B)"
    using thread_step_held [OF move]
  proof (elim disjE exE conjE)
    fix l assume "free (threads st) l" "held t = l # held u"
    with whole ts(1) show ?thesis by auto
  next
    fix l assume "held t = remove1 l (held u)"
    with distinct_shrink [OF whole, of l] show ?thesis by (simp only:)
  next
    assume "held t = held u"
    with whole show ?thesis by (simp only:)
  qed
  then have "distinct (concat (map held (xs @ t # ys)))" by simp
  moreover have "e \<longrightarrow> n = int (length (filter inside (xs @ t # ys)))"
    using move wt assms(2) ts(1)
    by (cases rule: thread_step.cases) (auto simp: well_def simp del: One_nat_def)
  ultimately show ?thesis using disc assms(2) ts step(1) by (simp add: well_def)
qed

lemma well_steps: "lock_step\<^sup>*\<^sup>* st st' \<Longrightarrow> well e rank st \<Longrightarrow> well e rank st'"
  by (induction rule: rtranclp_induct) (blast intro: well_step)+

text \<open>Some thread can always go on: otherwise, of the mutexes waited for take one that is highest in
  the order; its holder waits for a higher one.\<close>

lemma well_progress:
  assumes "well e rank st" "stuck st"
  shows "finished st"
proof -
  have disc: "disciplined e rank (held t) (inside t) (todo t) [] False" if "t \<in> set (threads st)" for t
    using assms(1) that by (simp add: well_def list_all_iff)
  have none: "act (threads st) (receivers st) t = None" if "t \<in> set (threads st)" for t
    using assms(2) that by (simp add: stuck_def list_all_iff)
  have cases: "(todo t = [] \<and> held t = [] \<and> \<not> inside t) \<or>
      (\<exists>l a. todo t = Lock l # a \<and> \<not> free (threads st) l \<and> (\<forall>k\<in>set (held t). rank k < rank l)) \<or>
      (\<exists>a. todo t = Sleeping # a \<and> e \<and> held t = [] \<and> \<not> inside t \<and>
        (receivers st > 0 \<or> \<not> free (threads st) LifecycleMutex))"
    if "t \<in> set (threads st)" for t
    using disc [OF that] none [OF that]
    by (auto simp: list_all_iff split: list.splits action.splits if_splits)
  define wanted where "wanted = {l. \<exists>t\<in>set (threads st). \<exists>a. todo t = Lock l # a}"
  have "wanted \<subseteq> (\<lambda>t. case todo t of Lock l # a \<Rightarrow> l | _ \<Rightarrow> LifecycleMutex) ` set (threads st)"
    by (force simp: wanted_def image_iff)
  then have fin: "finite wanted" by (rule finite_subset) simp
  have "wanted = {}"
  proof (rule ccontr)
    assume ne: "wanted \<noteq> {}"
    then have "Max (rank ` wanted) \<in> rank ` wanted" using fin by (intro Max_in) simp_all
    then obtain l where "l \<in> wanted" "rank l = Max (rank ` wanted)" by auto
    then have l: "rank k \<le> rank l" if "k \<in> wanted" for k using fin that by simp
    from \<open>l \<in> wanted\<close> obtain t a where t: "t \<in> set (threads st)" "todo t = Lock l # a"
      by (auto simp: wanted_def)
    then have "\<not> free (threads st) l" using cases [OF t(1)] by auto
    then obtain u where u: "u \<in> set (threads st)" "l \<in> set (held u)" by auto
    with cases [OF u(1)] obtain k a where "todo u = Lock k # a" "rank l < rank k" by auto
    with u(1) l [of k] show False by (auto simp: wanted_def)
  qed
  then have idle: "held t = [] \<and> \<not> inside t \<and> (todo t = [] \<or> (\<exists>a. todo t = Sleeping # a) \<and> e \<and>
      (receivers st > 0 \<or> \<not> free (threads st) LifecycleMutex))" if "t \<in> set (threads st)" for t
    using cases [OF that] that by (auto simp: wanted_def)
  then have "filter inside (threads st) = []" by (simp add: filter_empty_conv)
  then have "e \<longrightarrow> receivers st = 0" using assms(1) by (simp add: well_def)
  moreover have "free (threads st) LifecycleMutex" using idle by simp
  ultimately have "todo t = [] \<and> held t = []" if "t \<in> set (threads st)" for t
    using idle [OF that] by fastforce
  then show ?thesis by (simp add: finished_def list_all_iff)
qed

subsection \<open>The orders of the calls\<close>

text \<open>The order of the mutexes; the device mutexes are lowest for the calls that make a request with
  one of them locked, and high for those that only clear the devices.\<close>

definition lock_rank :: "nat \<Rightarrow> lock \<Rightarrow> nat" where
  "lock_rank device l =
     (case l of
        DeviceMutex i \<Rightarrow> device
      | RequestMutex i \<Rightarrow> 1
      | LifecycleMutex \<Rightarrow> 2
      | SendMutex \<Rightarrow> 3
      | LinkStatsMutex \<Rightarrow> 5
      | _ \<Rightarrow> 4)"

lemma lock_rank_simps [simp]:
  "lock_rank d (DeviceMutex i) = d" "lock_rank d (RequestMutex i) = 1" "lock_rank d LifecycleMutex = 2"
  "lock_rank d SendMutex = 3" "lock_rank d LinkStatsMutex = 5" "lock_rank d SequenceMutex = 4"
  "lock_rank d StatusMutex = 4" "lock_rank d RuntimeTelemetryMutex = 4" "lock_rank d ComSendMutex = 4"
  "lock_rank d (PortMutex i) = 4"
  by (simp_all add: lock_rank_def)

text \<open>All mutexes held are below a given place of the order.\<close>

definition below :: "nat \<Rightarrow> lock list \<Rightarrow> nat \<Rightarrow> bool" where
  "below d h r \<longleftrightarrow> list_all (\<lambda>k. lock_rank d k < r) h"

lemma below_Nil [simp]: "below d [] r"
  by (simp add: below_def)

lemma below_Cons [simp]: "below d (k # h) r \<longleftrightarrow> lock_rank d k < r \<and> below d h r"
  by (simp add: below_def)

lemma below_mono: "below d h r \<Longrightarrow> r \<le> r' \<Longrightarrow> below d h r'"
  by (induction h) auto

text \<open>Scripts that leave the mutexes as they find them compose.\<close>

named_theorems steady

lemma steady_Nil [steady]: "steady e r h b []"
  by simp

lemma steady_append [steady]: "steady e r h b xs \<Longrightarrow> steady e r h b ys \<Longrightarrow> steady e r h b (xs @ ys)"
  by (rule disciplined_append)

lemma steady_concat [steady]: "(\<And>x. x \<in> set xs \<Longrightarrow> steady e r h b (f x)) \<Longrightarrow> steady e r h b (concat (map f xs))"
  by (rule disciplined_concat) auto

lemma steady_if [steady]:
  "(c \<Longrightarrow> steady e r h b xs) \<Longrightarrow> (\<not> c \<Longrightarrow> steady e r h b ys) \<Longrightarrow> steady e r h b (if c then xs else ys)"
  by simp

lemma disciplined_locked:
  assumes "below d h (lock_rank d l)" "disciplined e (lock_rank d) (l # h) b xs (l # h) b'"
  shows "disciplined e (lock_rank d) h b (locked l xs) h b'"
proof -
  have "disciplined e (lock_rank d) (l # h) b (xs @ [Unlock l]) h b'"
    using assms(2) by (rule disciplined_append) simp
  with assms(1) show ?thesis by (simp add: locked_def below_def list_all_iff)
qed

lemmas steady_locked [steady] = disciplined_locked [where b' = b and b = b for b]

lemma steady_stats [steady]: "below d h 5 \<Longrightarrow> steady e (lock_rank d) h b stats_increment_locks"
  by (simp add: stats_increment_locks_def steady_locked)

lemma steady_next_sequence [steady]: "below d h 4 \<Longrightarrow> steady e (lock_rank d) h b next_sequence_locks"
  by (simp add: next_sequence_locks_def steady_locked)

lemma steady_timed_waits [steady]:
  "below d h (lock_rank d l) \<Longrightarrow> steady e (lock_rank d) (l # h) b (timed_waits l n)"
  unfolding timed_waits_def by (induction n) (simp_all add: below_def list_all_iff)

lemma steady_line [steady]: "below d h 4 \<Longrightarrow> steady e (lock_rank d) h b (line_locks c now)"
  by (cases c) (auto simp: line_locks_def rp_usb_send_locks_def rp_usb_flush_locks_def intro!: steady)

lemma steady_send_frame [steady]:
  assumes "below d h 3"
  shows "steady e (lock_rank d) h b (send_frame_locks c now)"
  using assms below_mono [OF assms, of 4] below_mono [OF assms, of 5]
  by (cases c) (auto simp: send_frame_locks_def intro!: steady)

lemma steady_send [steady]: "below d h 3 \<Longrightarrow> steady e (lock_rank d) h b (send_locks c now)"
  using below_mono [of d h 3 4] by (auto simp: send_locks_def intro!: steady)

lemma steady_attempt [steady]:
  assumes "below d h 3"
  shows "steady e (lock_rank d) h b (attempt_locks port a)"
  using assms below_mono [OF assms, of 4] below_mono [OF assms, of 5]
  by (cases a) (auto simp: attempt_locks_def intro!: steady)

lemma steady_request [steady]:
  assumes "below d h 1"
  shows "steady e (lock_rank d) h b (raspike_request_locks port as to)"
  using assms below_mono [OF assms, of 3] below_mono [OF assms, of 4] below_mono [OF assms, of 5]
  by (auto simp: raspike_request_locks_def intro!: steady)

lemma steady_reset [steady]:
  "below d h 4 \<Longrightarrow> (clear \<Longrightarrow> below d h d) \<Longrightarrow> steady e (lock_rank d) h b (reset_port_state_locks clear)"
  unfolding reset_port_state_locks_def by (auto intro!: steady)

lemma steady_command [steady]: "steady e (lock_rank d) [] b (process_command_locks c)"
  by (cases c) (auto simp: process_command_locks_def intro!: steady)

lemma steady_receive [steady]: "steady e (lock_rank d) [] False (raspike_prot_receive_locks r)"
proof (cases "r = Link_down")
  case True
  then show ?thesis by (auto simp: raspike_prot_receive_locks_def intro!: steady)
next
  case False
  define body where "body = (case r of
      Frame legacy c counted \<Rightarrow> (if legacy then stats_increment_locks else []) @ process_command_locks c @
        (if counted then stats_increment_locks else [])
    | Bad_frame \<Rightarrow> stats_increment_locks | _ \<Rightarrow> [])"
  have "steady e (lock_rank d) [] True body" by (cases r) (auto simp: body_def intro!: steady)
  moreover have "disciplined e (lock_rank d) [] False (locked LifecycleMutex [Enter]) [] True"
    "disciplined e (lock_rank d) [] True (locked LifecycleMutex [Leave]) [] False"
    by (simp_all add: disciplined_locked)
  ultimately have "steady e (lock_rank d) [] False
      (locked LifecycleMutex [Enter] @ body @ locked LifecycleMutex [Leave])"
    by (blast intro: disciplined_append)
  with False show ?thesis by (simp only: raspike_prot_receive_locks_def body_def if_False)
qed

lemma steady_init:
  assumes "e \<Longrightarrow> c = Busy"
  shows "steady e (lock_rank d) [] b (raspike_prot_init_locks c)"
proof -
  have "steady e (lock_rank d) [LifecycleMutex] b (case c of Busy \<Rightarrow> [] | _ \<Rightarrow> [ResetReceivers])"
    using assms by (cases c) auto
  then show ?thesis by (cases c) (auto simp: raspike_prot_init_locks_def intro!: steady)
qed

lemma steady_com_change [steady]: "steady e (lock_rank d) [] b (com_change_locks c)"
  by (auto simp: com_change_locks_def wait_port_cmd_change_locks_def
    split: option.splits send_case.splits intro!: steady)

lemma steady_shutdown:
  assumes d: "3 < d"
  shows "steady True (lock_rank d) [] False (raspike_prot_shutdown_locks has_desc)"
proof -
  let ?enter = "[Lock LifecycleMutex, AwaitReceivers, Lock SendMutex, Unlock LifecycleMutex]"
    and ?mid = "reset_port_state_locks True @ (if has_desc then rp_usb_flush_locks else [])"
  have "disciplined True (lock_rank d) [] False ?enter [SendMutex] False" by simp
  moreover have "steady True (lock_rank d) [SendMutex] False ?mid"
    using d by (auto simp: rp_usb_flush_locks_def intro!: steady)
  moreover have "disciplined True (lock_rank d) [SendMutex] False [Unlock SendMutex] [] False" by simp
  moreover have "steady True (lock_rank d) [] False (section_of StatusMutex)" by (auto intro!: steady)
  ultimately have "steady True (lock_rank d) [] False (?enter @ ?mid @ [Unlock SendMutex] @ section_of StatusMutex)"
    by (blast intro: disciplined_append)
  then show ?thesis by (simp add: raspike_prot_shutdown_locks_def)
qed

lemma steady_get_device: "d < 1 \<Longrightarrow> steady e (lock_rank d) [] False (get_device_locks port request)"
  by (auto simp: get_device_locks_def split: option.splits intro!: steady)

fun is_shutdown :: "call \<Rightarrow> bool" where
  "is_shutdown (Shutdown x) = True"
| "is_shutdown c = False"

fun is_get_device :: "call \<Rightarrow> bool" where
  "is_get_device (Get_device p x) = True"
| "is_get_device c = False"

text \<open>An initialisation that is not refused as busy.\<close>

fun opens_link :: "call \<Rightarrow> bool" where
  "opens_link (Init c) \<longleftrightarrow> c \<noteq> Busy"
| "opens_link c = False"

text \<open>Every call but the two that clash keeps to the order whatever the place of the device mutexes, and
  every call but an opening leaves the count of the receivers exact.\<close>

lemma steady_call:
  assumes "is_shutdown c \<Longrightarrow> e \<and> 3 < d" "is_get_device c \<Longrightarrow> d < 1" "e \<Longrightarrow> \<not> opens_link c"
  shows "steady e (lock_rank d) [] False (call_locks c)"
  using assms
  by (cases c) (auto simp: call_locks_def rp_usb_flush_locks_def
      intro!: steady steady_shutdown steady_get_device steady_init)

subsection \<open>Calls that keep to one order\<close>

text \<open>A set of calls with one order that all of them keep: its threads never block each other.\<close>

locale ordered_calls =
  fixes e :: bool and rank :: "lock \<Rightarrow> nat" and allowed :: "call \<Rightarrow> bool"
  assumes allowed_steady: "allowed c \<Longrightarrow> steady e rank [] False (call_locks c)"
begin

lemma start_well:
  assumes "list_all (list_all allowed) css"
  shows "well e rank (start css)"
proof -
  have "disciplined e rank [] False (concat (map call_locks cs)) [] False" if "cs \<in> set css" for cs
    using assms that allowed_steady by (intro steady_concat) (auto simp: list_all_iff)
  moreover have "distinct (concat (map (held \<circ> thread_of) css))" "filter (inside \<circ> thread_of) css = []"
    by (induction css) (simp_all add: thread_of_def)
  ultimately show ?thesis
    by (simp add: well_def start_def list_all_iff thread_of_def filter_map)
qed

lemma calls_go_on:
  assumes "list_all (list_all allowed) css" "lock_step\<^sup>*\<^sup>* (start css) st"
  shows "distinct (concat (map held (threads st))) \<and> (e \<longrightarrow> receivers st = int (length (filter inside (threads st)))) \<and>
    (finished st \<or> (\<exists>st'. lock_step st st'))"
  using well_steps [OF assms(2) start_well [OF assms(1)]] well_progress [of e rank st] stuck_iff [of st]
  by (auto simp: well_def)

end

text \<open>While the link is in use the device mutexes come first; where devices are no longer asked for
  they come last, and the link may be shut down. Where nobody opens the link the receivers are
  counted exactly.\<close>

interpretation use: ordered_calls False "lock_rank 0" "\<lambda>c. \<not> is_shutdown c"
  by unfold_locales (auto intro!: steady_call)

interpretation count: ordered_calls True "lock_rank 0" "\<lambda>c. \<not> is_shutdown c \<and> \<not> opens_link c"
  by unfold_locales (auto intro!: steady_call)

interpretation close: ordered_calls True "lock_rank 4" "\<lambda>c. \<not> is_get_device c \<and> \<not> opens_link c"
  by unfold_locales (auto intro!: steady_call)

text \<open>C16. Any number of threads that make any calls in any order never block each other, as long as none
  shuts the link down, or else none asks for a device and none opens the link: whatever the
  interleaving, no mutex has two holders, and as long as not every thread has finished its calls
  one of them can go on. If nobody opens the link the receivers counted are those inside
  \<open>raspike_prot_receive\<close> (an opening sets the count to 0).\<close>

theorem calls_never_block:
  assumes "list_all (list_all (\<lambda>c. \<not> is_shutdown c)) css \<or>
      list_all (list_all (\<lambda>c. \<not> is_get_device c \<and> \<not> opens_link c)) css"
    and "lock_step\<^sup>*\<^sup>* (start css) st"
  shows "distinct (concat (map held (threads st))) \<and>
    (list_all (list_all (\<lambda>c. \<not> opens_link c)) css \<longrightarrow> receivers st = int (length (filter inside (threads st)))) \<and>
    (finished st \<or> (\<exists>st'. lock_step st st'))"
  using assms(1)
proof
  assume use: "list_all (list_all (\<lambda>c. \<not> is_shutdown c)) css"
  then have "list_all (list_all (\<lambda>c. \<not> is_shutdown c \<and> \<not> opens_link c)) css"
    if "list_all (list_all (\<lambda>c. \<not> opens_link c)) css"
    using that by (simp add: list_all_iff)
  with use.calls_go_on [OF use assms(2)] count.calls_go_on [OF _ assms(2)] show ?thesis by blast
next
  assume "list_all (list_all (\<lambda>c. \<not> is_get_device c \<and> \<not> opens_link c)) css"
  from close.calls_go_on [OF this assms(2)] show ?thesis by simp
qed

text \<open>A device is asked for while another thread receives and a third opens the link; and a shutdown beside
  a receiver and a sender.\<close>

theorem calls_never_block_witness:
  "(\<exists>st'. lock_step (start [[Get_device 0 (Some ([Waited False 1 False], False))], [Receive Nothing_read],
      [Init (Handshake True [Sent False] True)]]) st') \<and>
    (\<exists>st'. lock_step (start [[Shutdown True], [Receive Nothing_read], [Send (Sent True) True]]) st')"
proof
  let ?use = "[[Get_device 0 (Some ([Waited False 1 False], False))], [Receive Nothing_read],
    [Init (Handshake True [Sent False] True)]]"
  have "\<not> finished (start ?use)"
    by (simp add: finished_def start_def thread_of_def call_locks_def raspike_prot_receive_locks_def locked_def)
  with calls_never_block [of ?use "start ?use"] show "\<exists>st'. lock_step (start ?use) st'" by simp
  let ?close = "[[Shutdown True], [Receive Nothing_read], [Send (Sent True) True]]"
  have "\<not> finished (start ?close)"
    by (simp add: finished_def start_def thread_of_def call_locks_def raspike_prot_receive_locks_def locked_def)
  with calls_never_block [of ?close "start ?close"] show "\<exists>st'. lock_step (start ?close) st'" by simp
qed

text \<open>C17. The link must not be shut down while another thread asks for a device: that thread has the
  device locked and needs the send mutex for its request, the shutdown has the send mutex and
  needs the device. Both wait for ever, for every port, whatever the rest of their calls.\<close>

theorem shutdown_deadlock:
  assumes "port < 6"
  shows "\<exists>st. lock_step\<^sup>*\<^sup>*
      (start [[Get_device port (Some (Waited buffered n retry # attempts, timed_out))], [Shutdown has_desc]]) st \<and>
    \<not> finished st \<and> (\<nexists>st'. lock_step st st')"
proof -
  let ?st = "start [[Get_device port (Some (Waited buffered n retry # attempts, timed_out))], [Shutdown has_desc]]"
  let ?is = "replicate 8 0 @ replicate (6 + 4 * port) 1"
  have "\<exists>st. run ?is ?st = Some st \<and> \<not> finished st \<and> stuck st"
  proof -
    consider "port = 0" | "port = 1" | "port = 2" | "port = 3" | "port = 4" | "port = 5"
      using assms by fastforce
    then show ?thesis
      by cases (simp_all add: eval_nat_numeral start_def thread_of_def call_locks_def locked_def get_device_locks_def
        raspike_request_locks_def next_sequence_locks_def attempt_locks_def send_frame_locks_def
        raspike_prot_shutdown_locks_def reset_port_state_locks_def finished_def stuck_def upt_rec)
  qed
  then obtain st where "run ?is ?st = Some st" "\<not> finished st" "stuck st" by blast
  then show ?thesis using run_sound stuck_iff by blast
qed

theorem shutdown_deadlock_witness:
  "\<exists>st. lock_step\<^sup>*\<^sup>*
      (start [[Get_device 2 (Some ([Waited False 0 False], False))], [Shutdown True]]) st \<and>
    \<not> finished st \<and> (\<nexists>st'. lock_step st st')"
  by (rule shutdown_deadlock) simp

end
