(* ===== verification/Ieee.thy ===== *)
theory Ieee
  imports Devices
begin

section \<open>Floating-point arithmetic\<close>

text \<open>
  The operations on \<^verbatim>\<open>float\<close> and \<^verbatim>\<open>double\<close> the sample program computes with, on the bits of IEEE 754:
  every operation rounds its exact result to the nearest value, to the even one of two. A format has
  \<open>mb\<close> bits of mantissa and \<open>eb\<close> bits of exponent. The magnitude of a finite number is a whole number of
  units, the unit being the smallest positive number of the format, so sums are exact in these
  units, and the bits of a number are those of its units shifted to the width of the mantissa plus
  the shift in the place of the exponent. A result that is not a number is the quiet NaN.
\<close>

datatype ieee = NaN | Infinite bool | Finite bool int

definition ieee_of :: "nat \<Rightarrow> nat \<Rightarrow> int \<Rightarrow> ieee" where
  "ieee_of mb eb bits =
     (let fraction = bits mod 2 ^ mb;
          exponent = bits div 2 ^ mb mod 2 ^ eb;
          negative = odd (bits div 2 ^ (mb + eb)) in
      if exponent = 2 ^ eb - 1 then (if fraction = 0 then Infinite negative else NaN)
      else Finite negative
        (if exponent = 0 then fraction else (2 ^ mb + fraction) * 2 ^ nat (exponent - 1)))"

function bit_length :: "int \<Rightarrow> nat" where
  "bit_length n = (if n \<le> 0 then 0 else Suc (bit_length (n div 2)))"
  by pat_completeness auto
termination
  by (relation "measure nat") auto

declare bit_length.simps [simp del]

definition round_half_even :: "int \<Rightarrow> int \<Rightarrow> int" where
  "round_half_even a b =
     (let q = a div b; r = a mod b in if b < 2 * r \<or> (2 * r = b \<and> odd q) then q + 1 else q)"

text \<open>The bits of \<open>num / den\<close> units, without the sign; what is too large is infinite.\<close>

definition ieee_round :: "nat \<Rightarrow> nat \<Rightarrow> int \<Rightarrow> int \<Rightarrow> int" where
  "ieee_round mb eb num den =
     (let shift = bit_length (num div den) - (mb + 1)
      in min ((2 ^ eb - 1) * 2 ^ mb) (int shift * 2 ^ mb + round_half_even num (den * 2 ^ shift)))"

definition ieee_pack :: "nat \<Rightarrow> nat \<Rightarrow> bool \<Rightarrow> int \<Rightarrow> int \<Rightarrow> int" where
  "ieee_pack mb eb negative num den = of_bool negative * 2 ^ (mb + eb) + ieee_round mb eb num den"

definition ieee_nan :: "nat \<Rightarrow> nat \<Rightarrow> int" where
  "ieee_nan mb eb = (2 ^ eb - 1) * 2 ^ mb + 2 ^ (mb - 1)"

definition ieee_infinite :: "nat \<Rightarrow> nat \<Rightarrow> bool \<Rightarrow> int" where
  "ieee_infinite mb eb negative = of_bool negative * 2 ^ (mb + eb) + (2 ^ eb - 1) * 2 ^ mb"

text \<open>The units in one.\<close>

definition ieee_one :: "nat \<Rightarrow> nat \<Rightarrow> int" where
  "ieee_one mb eb = 2 ^ (2 ^ (eb - 1) + mb - 2)"

subsection \<open>The operations\<close>

definition signed_units :: "bool \<Rightarrow> int \<Rightarrow> int" where
  "signed_units negative n = (if negative then - n else n)"

definition ieee_add :: "nat \<Rightarrow> nat \<Rightarrow> ieee \<Rightarrow> ieee \<Rightarrow> int" where
  "ieee_add mb eb x y =
     (case (x, y) of
        (Finite a n, Finite b m) \<Rightarrow>
          let v = signed_units a n + signed_units b m
          in ieee_pack mb eb (v < 0 \<or> (v = 0 \<and> a \<and> b)) \<bar>v\<bar> 1
      | (Infinite a, Infinite b) \<Rightarrow> if a = b then ieee_infinite mb eb a else ieee_nan mb eb
      | (Infinite a, Finite b m) \<Rightarrow> ieee_infinite mb eb a
      | (Finite a n, Infinite b) \<Rightarrow> ieee_infinite mb eb b
      | _ \<Rightarrow> ieee_nan mb eb)"

definition ieee_mul :: "nat \<Rightarrow> nat \<Rightarrow> ieee \<Rightarrow> ieee \<Rightarrow> int" where
  "ieee_mul mb eb x y =
     (case (x, y) of
        (Finite a n, Finite b m) \<Rightarrow> ieee_pack mb eb (a \<noteq> b) (n * m) (ieee_one mb eb)
      | (Infinite a, Infinite b) \<Rightarrow> ieee_infinite mb eb (a \<noteq> b)
      | (Infinite a, Finite b m) \<Rightarrow> if m = 0 then ieee_nan mb eb else ieee_infinite mb eb (a \<noteq> b)
      | (Finite a n, Infinite b) \<Rightarrow> if n = 0 then ieee_nan mb eb else ieee_infinite mb eb (a \<noteq> b)
      | _ \<Rightarrow> ieee_nan mb eb)"

definition ieee_div :: "nat \<Rightarrow> nat \<Rightarrow> ieee \<Rightarrow> ieee \<Rightarrow> int" where
  "ieee_div mb eb x y =
     (case (x, y) of
        (Finite a n, Finite b m) \<Rightarrow>
          if m = 0 then (if n = 0 then ieee_nan mb eb else ieee_infinite mb eb (a \<noteq> b))
          else ieee_pack mb eb (a \<noteq> b) (n * ieee_one mb eb) m
      | (Infinite a, Finite b m) \<Rightarrow> ieee_infinite mb eb (a \<noteq> b)
      | (Finite a n, Infinite b) \<Rightarrow> ieee_pack mb eb (a \<noteq> b) 0 1
      | _ \<Rightarrow> ieee_nan mb eb)"

subsection \<open>\<^verbatim>\<open>float\<close> and \<^verbatim>\<open>double\<close>\<close>

type_synonym double_bits = "64 word"

abbreviation float_value :: "float_bits \<Rightarrow> ieee" where
  "float_value x \<equiv> ieee_of 23 8 (uint x)"

abbreviation double_value :: "double_bits \<Rightarrow> ieee" where
  "double_value x \<equiv> ieee_of 52 11 (uint x)"

definition float_neg :: "float_bits \<Rightarrow> float_bits" where
  "float_neg x = x XOR 0x80000000"

definition float_abs :: "float_bits \<Rightarrow> float_bits" where
  "float_abs x = x AND 0x7FFFFFFF"

definition float_add :: "float_bits \<Rightarrow> float_bits \<Rightarrow> float_bits" where
  "float_add x y = word_of_int (ieee_add 23 8 (float_value x) (float_value y))"

definition float_sub :: "float_bits \<Rightarrow> float_bits \<Rightarrow> float_bits" where
  "float_sub x y = float_add x (float_neg y)"

definition float_mul :: "float_bits \<Rightarrow> float_bits \<Rightarrow> float_bits" where
  "float_mul x y = word_of_int (ieee_mul 23 8 (float_value x) (float_value y))"

definition float_div :: "float_bits \<Rightarrow> float_bits \<Rightarrow> float_bits" where
  "float_div x y = word_of_int (ieee_div 23 8 (float_value x) (float_value y))"

definition double_add :: "double_bits \<Rightarrow> double_bits \<Rightarrow> double_bits" where
  "double_add x y = word_of_int (ieee_add 52 11 (double_value x) (double_value y))"

definition double_mul :: "double_bits \<Rightarrow> double_bits \<Rightarrow> double_bits" where
  "double_mul x y = word_of_int (ieee_mul 52 11 (double_value x) (double_value y))"

text \<open>Conversions: from a decimal literal \<open>num / den\<close> and from an \<^verbatim>\<open>int\<close>, between the formats, and to
  an \<^verbatim>\<open>int\<close>, towards zero, which C leaves undefined for what does not fit.\<close>

definition double_literal :: "int \<Rightarrow> int \<Rightarrow> double_bits" where
  "double_literal num den = word_of_int (ieee_pack 52 11 False (num * ieee_one 52 11) den)"

definition float_of_int :: "int \<Rightarrow> float_bits" where
  "float_of_int i = word_of_int (ieee_pack 23 8 (i < 0) (\<bar>i\<bar> * ieee_one 23 8) 1)"

definition float_to_double :: "float_bits \<Rightarrow> double_bits" where
  "float_to_double x =
     word_of_int (case float_value x of
        NaN \<Rightarrow> ieee_nan 52 11
      | Infinite a \<Rightarrow> ieee_infinite 52 11 a
      | Finite a n \<Rightarrow> ieee_pack 52 11 a (n * ieee_one 52 11) (ieee_one 23 8))"

definition double_to_float :: "double_bits \<Rightarrow> float_bits" where
  "double_to_float x =
     word_of_int (case double_value x of
        NaN \<Rightarrow> ieee_nan 23 8
      | Infinite a \<Rightarrow> ieee_infinite 23 8 a
      | Finite a n \<Rightarrow> ieee_pack 23 8 a (n * ieee_one 23 8) (ieee_one 52 11))"

definition float_to_int :: "float_bits \<Rightarrow> int option" where
  "float_to_int x =
     (case float_value x of
        Finite a n \<Rightarrow>
          let i = signed_units a (n div ieee_one 23 8)
          in if - (2 ^ 31) \<le> i \<and> i < 2 ^ 31 then Some i else None
      | _ \<Rightarrow> None)"

text \<open>The other comparisons; \<open>float_ge\<close> is in \<open>Devices\<close>.\<close>

definition float_gt :: "float_bits \<Rightarrow> float_bits \<Rightarrow> bool" where
  "float_gt x y \<longleftrightarrow> \<not> float_is_nan x \<and> \<not> float_is_nan y \<and> float_order y < float_order x"

subsection \<open>The parts of a float\<close>

text \<open>The magnitude of a comparison is the exponent and the fraction, the sign is the top bit.\<close>

lemma magnitude:
  fixes x :: float_bits
  shows "uint (x AND 0x7FFFFFFF) = uint x mod 2 ^ 31"
proof -
  have "0x7FFFFFFF = (mask 31 :: float_bits)" by (simp add: mask_eq_exp_minus_1)
  then have "x AND 0x7FFFFFFF = take_bit 31 x" by (simp add: take_bit_eq_mask)
  then have "uint (x AND 0x7FFFFFFF) = take_bit 31 (uint x)" by (simp only: unsigned_take_bit_eq)
  then show ?thesis by (simp only: take_bit_eq_mod)
qed

lemma split_magnitude:
  "u mod 2 ^ 31 = 2 ^ 23 * (u div 2 ^ 23 mod 2 ^ 8) + u mod 2 ^ 23" for u :: int
  using zmod_zmult2_eq [of "2 ^ 8" u "2 ^ 23"] by simp

lemma sign_bit: "odd (uint x div 2 ^ (23 + 8)) \<longleftrightarrow> bit x 31" for x :: float_bits
proof -
  have "bit (uint x) 31 \<longleftrightarrow> bit x 31" by (simp add: bit_uint_iff)
  then show ?thesis unfolding bit_iff_odd [of "uint x"] by simp
qed

text \<open>What is not a number has no integer.\<close>

lemma nan_to_int: "float_is_nan x \<Longrightarrow> float_to_int x = None"
proof -
  define e where "e = uint x div 2 ^ 23 mod 2 ^ 8"
  define f where "f = uint x mod 2 ^ 23"
  assume "float_is_nan x"
  then have "0x7F800000 < uint (x AND 0x7FFFFFFF)" by (simp add: float_is_nan_def word_less_def)
  then have "0x7F800000 < 2 ^ 23 * e + f"
    using magnitude [of x] split_magnitude [of "uint x"] by (simp add: e_def f_def)
  moreover have "e < 2 ^ 8" "f < 2 ^ 23" by (simp_all add: e_def f_def)
  ultimately have "e = 2 ^ 8 - 1" "f \<noteq> 0" by auto
  then have "float_value x = NaN"
    unfolding ieee_of_def Let_def e_def [symmetric] f_def [symmetric] by simp
  then show ?thesis by (simp add: float_to_int_def)
qed

lemma div_between: "0 < d \<Longrightarrow> a * d \<le> x \<Longrightarrow> x < (b + 1) * d \<Longrightarrow> a \<le> x div d \<and> x div d \<le> b"
  for a b d x :: int
proof -
  assume d: "0 < d" "a * d \<le> x" "x < (b + 1) * d"
  have "x div d < b + 1"
  proof (rule ccontr)
    assume "\<not> x div d < b + 1"
    then have "(b + 1) * d \<le> x div d * d" using d(1) by (intro mult_right_mono) auto
    also have "\<dots> \<le> x" using d(1) by (simp add: minus_mod_eq_div_mult [symmetric])
    finally show False using d(3) by simp
  qed
  with zdiv_mono1 [OF d(2,1)] d(1) show ?thesis by simp
qed

end
