(* ===== verification/Sample.thy ===== *)
theory Sample
  imports Library Ieee
begin

section \<open>The sample program (\<^verbatim>\<open>sample/raspike_test/raspike_test.c\<close>)\<close>

text \<open>
  The program that tests a hub with its devices: a thread that receives, and a main thread that opens
  the link and runs one of the tests. What the receiving thread does while the main thread waits or
  sleeps is the schedule. A test returns the lines it prints, in order. A loop that need not end is
  given by the rounds it has made: an endless one, whose code behind it is not reached, is run for any
  number of rounds, one that waits for the hub has a flag whether it has ended in that number. \<open>None\<close>
  is a read through \<^verbatim>\<open>NULL\<close>, or a conversion to \<^verbatim>\<open>int\<close> that C leaves undefined.
\<close>

datatype line =
    Cannot_open string
  | Us_line int bool
  | Rgb_line u16 u16 u16
  | Waiting | Imu_is_ready | Resetting_in_3_seconds | Resetting | Done
  | Imu_line "float_bits list" "float_bits list"
  | Heading_line float_bits

subsection \<open>Sleeping and looping\<close>

text \<open>The other thread runs while this one sleeps.\<close>

definition sleep_for :: "timespec \<Rightarrow> sched \<Rightarrow> rp \<Rightarrow> sched \<times> rp" where
  "sleep_for t sc s = others_run sc (nanosleep t s)"

definition sleep :: "int \<Rightarrow> sched \<Rightarrow> rp \<Rightarrow> sched \<times> rp" where
  "sleep seconds = sleep_for \<lparr>tv_sec = seconds, tv_nsec = 0\<rparr>"

definition usleep :: "int \<Rightarrow> sched \<Rightarrow> rp \<Rightarrow> sched \<times> rp" where
  "usleep us = sleep_for \<lparr>tv_sec = us div 1000000, tv_nsec = us mod 1000000 * 1000\<rparr>"

primrec rounds ::
  "nat \<Rightarrow> (sched \<Rightarrow> rp \<Rightarrow> ('a list \<times> sched \<times> rp) option) \<Rightarrow> sched \<Rightarrow> rp \<Rightarrow>
    ('a list \<times> sched \<times> rp) option" where
  "rounds 0 body sc s = Some ([], sc, s)"
| "rounds (Suc n) body sc s = do {
     (xs, sc1, s1) \<leftarrow> body sc s;
     (ys, sc2, s2) \<leftarrow> rounds n body sc1 s1;
     Some (xs @ ys, sc2, s2)
   }"

definition text_bytes :: "string \<Rightarrow> byte list" where
  "text_bytes cs = map of_char cs"

definition PBIO_PORT_ID_A :: byte where [simp]: "PBIO_PORT_ID_A = 0x41"
definition PBIO_PORT_ID_B :: byte where [simp]: "PBIO_PORT_ID_B = 0x42"
definition PBIO_PORT_ID_C :: byte where [simp]: "PBIO_PORT_ID_C = 0x43"
definition PBIO_PORT_ID_E :: byte where [simp]: "PBIO_PORT_ID_E = 0x45"
definition PBIO_PORT_ID_F :: byte where [simp]: "PBIO_PORT_ID_F = 0x46"
definition PUP_DIRECTION_CLOCKWISE :: u32 where [simp]: "PUP_DIRECTION_CLOCKWISE = 0"
definition PUP_DIRECTION_COUNTERCLOCKWISE :: u32 where [simp]: "PUP_DIRECTION_COUNTERCLOCKWISE = 1"
definition PBIO_COLOR_GREEN :: u32 where [simp]: "PBIO_COLOR_GREEN = 0x26"
definition NOTE_C5 :: u16 where [simp]: "NOTE_C5 = 523"
definition NOTE_A5 :: u16 where [simp]: "NOTE_A5 = 880"

subsection \<open>The tests of the devices\<close>

text \<open>The arguments of \<^verbatim>\<open>printf\<close> are taken in the order they are written in.\<close>

definition ultrasonicsensor_round ::
  "nat option \<Rightarrow> sched \<Rightarrow> rp \<Rightarrow> (line list \<times> sched \<times> rp) option" where
  "ultrasonicsensor_round us sc s = do {
     (distance, sc1, s1) \<leftarrow> pup_ultrasonic_sensor_distance us sc s;
     (presence, sc2, s2) \<leftarrow> pup_ultrasonic_sensor_presence us sc1 s1;
     let (sc3, s3) = sleep 1 sc2 s2;
     Some ([Us_line distance presence], sc3, s3)
   }"

definition ultrasonicsensor_test :: "nat \<Rightarrow> sched \<Rightarrow> rp \<Rightarrow> (line list \<times> sched \<times> rp) option" where
  "ultrasonicsensor_test n sc s =
     (let (us, sc1, s1) = pup_ultrasonic_sensor_get_device PBIO_PORT_ID_F sc s;
          (sc2, s2) = sleep 1 sc1 s1
      in rounds n (ultrasonicsensor_round us) sc2 s2)"

definition motor_round ::
  "int \<Rightarrow> nat option \<Rightarrow> nat option \<Rightarrow> nat option \<Rightarrow> sched \<Rightarrow> rp \<Rightarrow> (line list \<times> sched \<times> rp) option" where
  "motor_round i mot1 mot2 mot3 sc s =
     (let pw = word_of_int (c_mod i 50 + 30);
          (err, s1) = pup_motor_set_power mot1 pw s;
          (err, s2) = pup_motor_set_power mot2 pw s1;
          (err, s3) = pup_motor_set_power mot3 pw s2;
          (sc1, s4) = usleep (10 * 1000) sc s3
      in Some ([], sc1, s4))"

definition motor_test :: "nat \<Rightarrow> sched \<Rightarrow> rp \<Rightarrow> (line list \<times> sched \<times> rp) option" where
  "motor_test n sc s =
     (let (mot1, sc1, s1) = pup_motor_get_device PBIO_PORT_ID_A sc s;
          (mot2, sc2, s2) = pup_motor_get_device PBIO_PORT_ID_C sc1 s1;
          (mot3, sc3, s3) = pup_motor_get_device PBIO_PORT_ID_B sc2 s2;
          (err, sc4, s4) = pup_motor_setup mot1 PUP_DIRECTION_CLOCKWISE True sc3 s3;
          (err, sc5, s5) = pup_motor_setup mot2 PUP_DIRECTION_CLOCKWISE True sc4 s4;
          (err, sc6, s6) = pup_motor_setup mot3 PUP_DIRECTION_CLOCKWISE True sc5 s5
      in rounds n (motor_round 50 mot1 mot2 mot3) sc6 s6)"

definition display_test :: "sched \<Rightarrow> rp \<Rightarrow> sched \<times> rp" where
  "display_test sc s =
     (let (err, s1) = hub_display_number 12 s;
          (sc1, s2) = sleep 3 sc s1;
          (err, s3) = hub_display_char 0x58 s2;
          (sc2, s4) = sleep 2 sc1 s3;
          (err, s5) = hub_display_text (Some (text_bytes ''Ras Pike!'')) 1000 1000 s4;
          (err, s6) = hub_display_text_scroll (Some (text_bytes ''ETRobocon20th'')) 500 s5
      in (sc2, s6))"

definition light_test :: "sched \<Rightarrow> rp \<Rightarrow> sched \<times> rp" where
  "light_test sc s =
     (let hsv = \<lparr>hsv_h = 30, hsv_s = 100, hsv_v = 100\<rparr>;
          (err, s1) = hub_light_on_hsv (Some hsv) s;
          (sc1, s2) = sleep 2 sc s1;
          (err, s3) = hub_light_on_color PBIO_COLOR_GREEN s2;
          (err, s4) = hub_light_off s3
      in (sc1, s4))"

text \<open>The last call shuts the link down; what the receiving thread does then is the rest of the schedule.\<close>

definition speaker_test :: "sched \<Rightarrow> rp \<Rightarrow> (sched \<times> rp) option" where
  "speaker_test sc s =
     (let s1 = hub_speaker_set_volume 50 s;
          s2 = hub_speaker_play_tone NOTE_C5 2000 s1;
          s3 = hub_speaker_play_tone NOTE_A5 SOUND_MANUAL_STOP s2;
          (sc1, s4) = sleep 3 sc s3;
          s5 = hub_speaker_stop s4;
          (err, s6) = hub_light_on_color PBIO_COLOR_GREEN s5;
          (sc2, s7) = sleep 3 sc1 s6
      in map_option (\<lambda>(desc, s8). (sc2\<lparr>s_steps := []\<rparr>, s8)) (hub_system_shutdown (s_steps sc2) s7))"

definition colorsensor_round :: "nat option \<Rightarrow> sched \<Rightarrow> rp \<Rightarrow> (line list \<times> sched \<times> rp) option" where
  "colorsensor_round col sc s = do {
     (rgb, sc1, s1) \<leftarrow> pup_color_sensor_rgb col sc s;
     let (sc2, s2) = sleep 1 sc1 s1;
     Some ([Rgb_line (rgb_r rgb) (rgb_g rgb) (rgb_b rgb)], sc2, s2)
   }"

definition colorsensor_test :: "sched \<Rightarrow> rp \<Rightarrow> (line list \<times> sched \<times> rp) option" where
  "colorsensor_test sc s =
     (let (col, sc1, s1) = pup_color_sensor_get_device PBIO_PORT_ID_E sc s
      in rounds 100 (colorsensor_round col) sc1 s1)"

subsection \<open>The test of the inertial unit, and the program\<close>

text \<open>The wait for the inertial unit: the dots it prints, and whether the unit was ready.\<close>

primrec wait_ready :: "nat \<Rightarrow> sched \<Rightarrow> rp \<Rightarrow> ((line list \<times> bool) \<times> sched \<times> rp) option" where
  "wait_ready 0 sc s = Some (([], False), sc, s)"
| "wait_ready (Suc n) sc s = do {
     (ready, sc1, s1) \<leftarrow> hub_imu_is_ready sc s;
     if ready then Some (([Imu_is_ready], True), sc1, s1)
     else let (sc2, s2) = usleep (100 * 1000) sc1 s1 in do {
       ((out, ready), sc3, s3) \<leftarrow> wait_ready n sc2 s2;
       Some ((Waiting # out, ready), sc3, s3)
     }
   }"

definition imu_start :: "nat \<Rightarrow> sched \<Rightarrow> rp \<Rightarrow> ((line list \<times> bool) \<times> sched \<times> rp) option" where
  "imu_start n sc s = wait_ready n sc (hub_imu_set_tilt (float_of_int 51) s)"

definition imu_round :: "sched \<Rightarrow> rp \<Rightarrow> (line list \<times> sched \<times> rp) option" where
  "imu_round sc s = do {
     (accel, sc1, s1) \<leftarrow> hub_imu_get_acceleration True sc s;
     (angv, sc2, s2) \<leftarrow> hub_imu_get_angular_velocity True sc1 s1;
     (angle, sc3, s3) \<leftarrow> hub_imu_get_heading sc2 s2;
     let (sc4, s4) = sleep 1 sc3 s3;
     Some ([Imu_line (the accel) (the angv), Heading_line angle], sc4, s4)
   }"

definition imu_test :: "nat \<Rightarrow> sched \<Rightarrow> rp \<Rightarrow> ((line list \<times> bool) \<times> sched \<times> rp) option" where
  "imu_test n sc s = do {
     ((out1, ready), sc1, s1) \<leftarrow> imu_start n sc s;
     if \<not> ready then Some ((out1, False), sc1, s1) else do {
       (out2, sc2, s2) \<leftarrow> rounds 10 imu_round sc1 s1;
       let (sc3, s3) = sleep 3 sc2 s2;
       let (sc4, s4) = sleep 1 sc3 (hub_imu_reset_heading s3);
       (out3, sc5, s5) \<leftarrow> rounds 10 imu_round sc4 s4;
       Some ((out1 @ out2 @ [Resetting_in_3_seconds, Resetting] @ out3 @ [Done], True), sc5, s5)
     }
   }"

definition RASPIKE_COM_NAME :: string where
  "RASPIKE_COM_NAME = ''/dev/USB_SPIKE''"

text \<open>\<^verbatim>\<open>main\<close>: the lines, and the exit code of a program that has ended. The thread that receives starts
  after the initialisation, whose result is not looked at.\<close>

definition raspike_test_main ::
  "nat \<times> nat \<times> nat \<Rightarrow> string list \<Rightarrow> nat \<Rightarrow> sched \<Rightarrow> rp \<Rightarrow>
    ((line list \<times> int option) \<times> sched \<times> rp) option" where
  "raspike_test_main expected_version argv n sc s =
     (let p = (if length argv > 1 then argv ! 1 else RASPIKE_COM_NAME);
          (desc, c) = raspike_open_usb_communication (Some p) (rp_com s);
          s1 = s\<lparr>rp_com := c\<rparr> in
      if desc = None then Some (([Cannot_open p], Some (-1)), sc, s1) else do {
        (ret, s2) \<leftarrow> raspike_prot_init expected_version desc s1;
        ((out, ended), sc3, s3) \<leftarrow> imu_test n sc s2;
        Some ((out, if ended then Some 0 else None), sc3, s3)
      })"

subsection \<open>Driving a square\<close>

definition LOOP_DELAY_US :: int where [simp]: "LOOP_DELAY_US = 10000"
definition SQUARE_SIDES :: nat where [simp]: "SQUARE_SIDES = 8"
definition KP :: double_bits where "KP = double_literal 12 10"
definition KI :: double_bits where "KI = double_literal 1 1000"
definition KD :: double_bits where "KD = double_literal 2 100"
definition MAX_POWER :: int where [simp]: "MAX_POWER = 100"
definition BASE_POWER :: int where [simp]: "BASE_POWER = 55"
definition MIN_POWER :: int where [simp]: "MIN_POWER = 30"

text \<open>The correction, with the new integral and the new last error.\<close>

definition pid_control ::
  "float_bits \<Rightarrow> float_bits \<Rightarrow> float_bits \<Rightarrow> float_bits \<Rightarrow> float_bits \<times> float_bits \<times> float_bits" where
  "pid_control target current_heading integral last_error =
     (let error = float_sub target current_heading;
          period = float_div (float_of_int LOOP_DELAY_US) (float_of_int 1000000);
          integral = float_add integral (float_mul error period);
          derivative = float_div (float_sub error last_error) period;
          correction = double_to_float (double_add (double_add
            (double_mul KP (float_to_double error))
            (double_mul KI (float_to_double integral)))
            (double_mul KD (float_to_double derivative)))
      in (correction, integral, error))"

definition clamp :: "float_bits \<Rightarrow> float_bits" where
  "clamp pw =
     (if float_ge pw (float_of_int 0) then
        if float_gt pw (float_of_int MAX_POWER) then float_of_int MAX_POWER
        else if float_gt (float_of_int MIN_POWER) pw then float_of_int MIN_POWER
        else pw
      else
        if float_gt (float_of_int (- MAX_POWER)) pw then float_of_int (- MAX_POWER)
        else if float_gt pw (float_of_int (- MIN_POWER)) then float_of_int (- MIN_POWER)
        else pw)"

text \<open>The powers of the left and of the right wheel for a correction; a conversion that C leaves
  undefined is \<open>None\<close>.\<close>

definition straight_powers :: "float_bits \<Rightarrow> (int \<times> int) option" where
  "straight_powers correction = do {
     left_power \<leftarrow> float_to_int (clamp (float_add (float_of_int BASE_POWER) correction));
     right_power \<leftarrow> float_to_int (clamp (float_sub (float_of_int BASE_POWER) correction));
     Some (left_power, right_power)
   }"

text \<open>A round sets both powers and sleeps.\<close>

definition drive_wheels ::
  "nat option \<Rightarrow> nat option \<Rightarrow> int \<Rightarrow> int \<Rightarrow> sched \<Rightarrow> rp \<Rightarrow> sched \<times> rp" where
  "drive_wheels right left right_power left_power sc s =
     (let (err, s1) = pup_motor_set_power right (word_of_int right_power) s;
          (err, s2) = pup_motor_set_power left (word_of_int left_power) s1
      in usleep LOOP_DELAY_US sc s2)"

definition stop_wheels :: "nat option \<Rightarrow> nat option \<Rightarrow> sched \<Rightarrow> rp \<Rightarrow> sched \<times> rp" where
  "stop_wheels right left sc s =
     (let (err, sc1, s1) = pup_motor_stop right sc s;
          (err, sc2, s2) = pup_motor_stop left sc1 s1
      in (sc2, s2))"

text \<open>\<^verbatim>\<open>(float)clock() / CLOCKS_PER_SEC\<close> for a reading of the processor clock.\<close>

definition CLOCKS_PER_SEC :: int where [simp]: "CLOCKS_PER_SEC = 1000000"

definition clock_seconds :: "int \<Rightarrow> float_bits" where
  "clock_seconds t = float_div (float_of_int t) (float_of_int CLOCKS_PER_SEC)"

text \<open>The readings still to come are an argument, and what is left of them a result; without a reading
  the loop is still running.\<close>

primrec drive_loop ::
  "int list \<Rightarrow> nat option \<Rightarrow> nat option \<Rightarrow> float_bits \<Rightarrow> float_bits \<Rightarrow> float_bits \<Rightarrow> float_bits \<Rightarrow> float_bits \<Rightarrow>
    sched \<Rightarrow> rp \<Rightarrow> ((bool \<times> int list) \<times> sched \<times> rp) option" where
  "drive_loop [] right left duration_sec target time_start integral last_error sc s =
     Some ((False, []), sc, s)"
| "drive_loop (t # clocks) right left duration_sec target time_start integral last_error sc s =
     (if float_gt duration_sec (float_sub (clock_seconds t) time_start) then do {
        (current_heading, sc1, s1) \<leftarrow> hub_imu_get_heading sc s;
        let (correction, integral, last_error) = pid_control target current_heading integral last_error;
        (left_power, right_power) \<leftarrow> straight_powers correction;
        let (sc2, s2) = drive_wheels right left right_power left_power sc1 s1;
        drive_loop clocks right left duration_sec target time_start integral last_error sc2 s2
      } else Some ((True, clocks), sc, s))"

definition drive_straight ::
  "int list \<Rightarrow> nat option \<Rightarrow> nat option \<Rightarrow> float_bits \<Rightarrow> float_bits \<Rightarrow> sched \<Rightarrow> rp \<Rightarrow>
    ((bool \<times> int list) \<times> sched \<times> rp) option" where
  "drive_straight clocks right left duration_sec target sc s =
     (case clocks of [] \<Rightarrow> Some ((False, []), sc, s)
      | t # clocks \<Rightarrow> do {
          ((ended, clocks), sc1, s1) \<leftarrow>
            drive_loop clocks right left duration_sec target (clock_seconds t) 0 0 sc s;
          if \<not> ended then Some ((False, clocks), sc1, s1)
          else let (sc2, s2) = stop_wheels right left sc1 s1 in Some ((True, clocks), sc2, s2)
        })"

text \<open>The normalised error decides when the turn ends; the controller is given the raw headings.\<close>

definition turn_error :: "float_bits \<Rightarrow> float_bits \<Rightarrow> float_bits" where
  "turn_error target current_heading =
     (let error = float_sub target current_heading;
          error = (if float_gt error (float_of_int 180) then float_sub error (float_of_int 360) else error)
      in if float_gt (float_of_int (-180)) error then float_add error (float_of_int 360) else error)"

text \<open>The turn, for a number of rounds: whether it has ended in them.\<close>

primrec turn_loop ::
  "nat \<Rightarrow> nat option \<Rightarrow> nat option \<Rightarrow> float_bits \<Rightarrow> float_bits \<Rightarrow> float_bits \<Rightarrow> sched \<Rightarrow> rp \<Rightarrow>
    (bool \<times> sched \<times> rp) option" where
  "turn_loop 0 right left target integral last_error sc s = Some (False, sc, s)"
| "turn_loop (Suc n) right left target integral last_error sc s = do {
     (current_heading, sc1, s1) \<leftarrow> hub_imu_get_heading sc s;
     if float_gt (float_of_int 1) (float_abs (turn_error target current_heading)) then Some (True, sc1, s1)
     else do {
       let (correction, integral, last_error) = pid_control target current_heading integral last_error;
       right_power \<leftarrow> float_to_int (float_neg (clamp correction));
       left_power \<leftarrow> float_to_int (clamp correction);
       let (sc2, s2) = drive_wheels right left right_power left_power sc1 s1;
       turn_loop n right left target integral last_error sc2 s2
     }
   }"

definition turn_to_heading ::
  "nat \<Rightarrow> nat option \<Rightarrow> nat option \<Rightarrow> float_bits \<Rightarrow> sched \<Rightarrow> rp \<Rightarrow> (bool \<times> sched \<times> rp) option" where
  "turn_to_heading n right left target sc s = turn_loop n right left target 0 0 sc s"

text \<open>The sides that are left, every turn for at most \<open>n\<close> rounds; the heading is the one last read.\<close>

primrec square_sides ::
  "nat \<Rightarrow> nat \<Rightarrow> int list \<Rightarrow> nat option \<Rightarrow> nat option \<Rightarrow> float_bits \<Rightarrow> sched \<Rightarrow> rp \<Rightarrow>
    ((line list \<times> bool) \<times> sched \<times> rp) option" where
  "square_sides 0 n clocks right left angle sc s = Some (([], True), sc, s)"
| "square_sides (Suc sides) n clocks right left angle sc s = do {
     ((ended, clocks), sc1, s1) \<leftarrow> drive_straight clocks right left (float_of_int 3) angle sc s;
     if \<not> ended then Some (([], False), sc1, s1) else do {
       (before, sc2, s2) \<leftarrow> hub_imu_get_heading sc1 s1;
       (ended, sc3, s3) \<leftarrow> turn_to_heading n right left (float_add before (float_of_int 90)) sc2 s2;
       if \<not> ended then Some (([Heading_line before], False), sc3, s3) else do {
         (turned, sc4, s4) \<leftarrow> hub_imu_get_heading sc3 s3;
         ((out, ended), sc5, s5) \<leftarrow> square_sides sides n clocks right left turned sc4 s4;
         Some ((Heading_line before # Heading_line turned # out, ended), sc5, s5)
       }
     }
   }"

definition imu_run_test ::
  "nat \<Rightarrow> int list \<Rightarrow> sched \<Rightarrow> rp \<Rightarrow> ((line list \<times> bool) \<times> sched \<times> rp) option" where
  "imu_run_test n clocks sc s = do {
     ((out1, ready), sc1, s1) \<leftarrow> imu_start n sc s;
     if \<not> ready then Some ((out1, False), sc1, s1) else do {
       let (right, sc2, s2) = pup_motor_get_device PBIO_PORT_ID_A sc1 s1;
       let (left, sc3, s3) = pup_motor_get_device PBIO_PORT_ID_B sc2 s2;
       let (err, sc4, s4) = pup_motor_setup right PUP_DIRECTION_CLOCKWISE True sc3 s3;
       let (err, sc5, s5) = pup_motor_setup left PUP_DIRECTION_COUNTERCLOCKWISE True sc4 s4;
       (angle, sc6, s6) \<leftarrow> hub_imu_get_heading sc5 s5;
       ((out2, ended), sc7, s7) \<leftarrow> square_sides SQUARE_SIDES n clocks right left angle sc6 s6;
       if \<not> ended then Some ((out1 @ Heading_line angle # out2, False), sc7, s7)
       else let (sc8, s8) = stop_wheels right left sc7 s7
            in Some ((out1 @ Heading_line angle # out2 @ [Done], True), sc8, s8)
     }
   }"

end
