(* ===== verification/Sample_Properties.thy ===== *)
theory Sample_Properties
  imports Sample
begin

section \<open>Properties of the sample program\<close>

text \<open>
  The tests follow no null pointer and keep the library's invariant whatever the hub does; the program
  does not look at the result of the initialisation and waits for ever when that failed; the powers of
  the square are bounded.
\<close>

subsection \<open>The tests keep the library's invariant\<close>

lemma safe_bind:
  assumes "safe up P x" "\<And>v sc s. others_ok up P sc \<Longrightarrow> sound up P s \<Longrightarrow> safe up P (f (v, sc, s))"
  shows "safe up P (Option.bind x f)"
  using assms by (auto simp: safe_def)

text \<open>The same for the steps of a sequence: a call that needs no schedule, one that has a result besides it,
  one that has none, and one that gives out a device.\<close>

definition fine :: "bool \<Rightarrow> nat set \<Rightarrow> sched \<times> rp \<Rightarrow> bool" where
  "fine up P x \<longleftrightarrow> others_ok up P (fst x) \<and> sound up P (snd x)"

lemma fine_pair [simp]: "fine up P (sc, s) = (others_ok up P sc \<and> sound up P s)"
  by (simp add: fine_def)

lemma safe_fine [simp]: "safe up P (Some (v, x)) = fine up P x"
  by (cases x) simp

lemma safe_case:
  "sound up P (snd x) \<Longrightarrow> (\<And>v s. sound up P s \<Longrightarrow> safe up P (f v s)) \<Longrightarrow>
    safe up P (case x of (v :: pbio_error, s) \<Rightarrow> f v s)"
  "fine up P (snd y) \<Longrightarrow> (\<And>v sc s. others_ok up P sc \<Longrightarrow> sound up P s \<Longrightarrow> safe up P (g v sc s)) \<Longrightarrow>
    safe up P (case y of (v :: pbio_error, sc, s) \<Rightarrow> g v sc s)"
  "fine up P z \<Longrightarrow> (\<And>sc s. others_ok up P sc \<Longrightarrow> sound up P s \<Longrightarrow> safe up P (h sc s)) \<Longrightarrow>
    safe up P (case z of (sc, s) \<Rightarrow> h sc s)"
  by (cases x, simp) (cases y, simp, cases z, simp)

lemma fine_case:
  "sound up P (snd x) \<Longrightarrow> (\<And>v s. sound up P s \<Longrightarrow> fine up P (f v s)) \<Longrightarrow>
    fine up P (case x of (v :: pbio_error, s) \<Rightarrow> f v s)"
  "fine up P (snd y) \<Longrightarrow> (\<And>v sc s. others_ok up P sc \<Longrightarrow> sound up P s \<Longrightarrow> fine up P (g v sc s)) \<Longrightarrow>
    fine up P (case y of (v :: pbio_error, sc, s) \<Rightarrow> g v sc s)"
  "fine up P z \<Longrightarrow> (\<And>sc s. others_ok up P sc \<Longrightarrow> sound up P s \<Longrightarrow> fine up P (h sc s)) \<Longrightarrow>
    fine up P (case z of (sc, s) \<Rightarrow> h sc s)"
  by (cases x, simp) (cases y, simp, cases z, simp)

lemma sleep_for_fine:
  assumes "others_ok up P sc" "sound up P s"
  shows "fine up P (sleep_for t sc s)"
proof -
  have "sound up P (nanosleep t s)" using sound_com [OF nanosleep_step assms(2)] .
  with others_run_sound [OF prod.collapse [symmetric] assms(1)] show ?thesis
    unfolding sleep_for_def fine_def by blast
qed

lemma sleep_fine: "others_ok up P sc \<Longrightarrow> sound up P s \<Longrightarrow> fine up P (sleep n sc s)"
  "others_ok up P sc \<Longrightarrow> sound up P s \<Longrightarrow> fine up P (usleep n sc s)"
  by (simp_all add: sleep_def usleep_def sleep_for_fine)

lemma rounds_safe:
  assumes "\<And>sc s. others_ok up P sc \<Longrightarrow> sound up P s \<Longrightarrow> safe up P (body sc s)"
  shows "others_ok up P sc \<Longrightarrow> sound up P s \<Longrightarrow> safe up P (rounds n body sc s)"
proof (induction n arbitrary: sc s)
  case (Suc n)
  then show ?case by (auto intro!: safe_bind [OF assms] safe_bind [OF Suc.IH])
qed simp

lemma motor_fine:
  assumes "others_ok up P sc" "sound up P s"
  shows "fine up P (snd (pup_motor_setup m d r sc s))" "fine up P (snd (pup_motor_stop m sc s))"
proof -
  have "fine up P (snd (motor_request m cmd data n t sc s))" for cmd data n t
    using motor_request_sound [OF _ assms] by (cases "motor_request m cmd data n t sc s") auto
  then show "fine up P (snd (pup_motor_setup m d r sc s))" "fine up P (snd (pup_motor_stop m sc s))"
    by (simp_all add: pup_motor_setup_def pup_motor_stop_def Let_def)
qed

text \<open>A device that was given out is that of a port.\<close>

lemma device_case:
  assumes "ty \<noteq> 0" "others_ok up P sc" "sound up P s"
    and "\<And>d sc s. handle_ok d \<Longrightarrow> others_ok up P sc \<Longrightarrow> sound up P s \<Longrightarrow> safe up P (f d sc s)"
  shows "safe up P (case GET_DEVICE_COMMON ty port sc s of (d, sc, s) \<Rightarrow> f d sc s)"
  using get_device_sound [OF _ assms(1-3)] assms(4)
  by (cases "GET_DEVICE_COMMON ty port sc s") (auto simp: handle_ok_def)

lemmas device_rules =
  device_case [OF device_types(1), folded pup_motor_get_device_def]
  device_case [OF device_types(2), folded pup_color_sensor_get_device_def]
  device_case [OF device_types(3), folded pup_ultrasonic_sensor_get_device_def]

lemma sensor_safe:
  assumes "others_ok up P sc" "sound up P s"
  shows "handle_ok d \<Longrightarrow> safe up P (pup_ultrasonic_sensor_distance d sc s)"
    "handle_ok d \<Longrightarrow> safe up P (pup_ultrasonic_sensor_presence d sc s)"
    "handle_ok d \<Longrightarrow> safe up P (pup_color_sensor_rgb d sc s)"
    "safe up P (hub_imu_is_ready sc s)" "safe up P (hub_imu_get_heading sc s)"
    "safe up P (hub_imu_get_acceleration b sc s)" "safe up P (hub_imu_get_angular_velocity b sc s)"
  by (simp_all add: assms get_and_ret_safe [OF assms] delayed_safe [OF assms] from_snapshot_safe [OF assms]
      pup_ultrasonic_sensor_distance_def pup_ultrasonic_sensor_presence_def
      pup_color_sensor_rgb_def hub_imu_is_ready_def hub_imu_get_heading_def
      hub_imu_get_acceleration_def hub_imu_get_angular_velocity_def)

lemmas test_rules = safe_bind device_rules safe_case sensor_safe sleep_fine motor_fine set_power_sound

lemma ultrasonicsensor_test_safe:
  assumes "others_ok up P sc" "sound up P s"
  shows "safe up P (ultrasonicsensor_test n sc s)"
proof -
  have "safe up P (ultrasonicsensor_round d sc s)" if "handle_ok d" "others_ok up P sc" "sound up P s" for d sc s
    using that unfolding ultrasonicsensor_round_def Let_def by (auto intro!: test_rules)
  then show ?thesis
    using assms unfolding ultrasonicsensor_test_def Let_def by (auto intro!: test_rules rounds_safe)
qed

lemma colorsensor_test_safe:
  assumes "others_ok up P sc" "sound up P s"
  shows "safe up P (colorsensor_test sc s)"
proof -
  have "safe up P (colorsensor_round d sc s)" if "handle_ok d" "others_ok up P sc" "sound up P s" for d sc s
    using that unfolding colorsensor_round_def Let_def by (auto intro!: test_rules)
  then show ?thesis
    using assms unfolding colorsensor_test_def Let_def by (auto intro!: test_rules rounds_safe)
qed

lemma motor_test_safe:
  assumes "others_ok up P sc" "sound up P s"
  shows "safe up P (motor_test n sc s)"
proof -
  have "safe up P (motor_round i m1 m2 m3 sc s)" if "others_ok up P sc" "sound up P s" for i m1 m2 m3 sc s
    using that unfolding motor_round_def Let_def by (auto intro!: test_rules)
  then show ?thesis
    using assms unfolding motor_test_def Let_def by (auto intro!: test_rules rounds_safe)
qed

lemma hub_sound:
  assumes "sound up P s"
  shows "sound up P (snd (hub_display_number n s))" "sound up P (snd (hub_display_char c s))"
    "sound up P (snd (hub_light_on_color col s))" "sound up P (snd (hub_light_off s))"
    "sound up P (hub_speaker_set_volume vol s)" "sound up P (hub_speaker_stop s)"
    "sound up P (hub_imu_set_tilt angle s)" "sound up P (hub_imu_reset_heading s)"
  by (simp_all add: hub_command_sound_snd [OF assms] hub_display_number_def hub_display_char_def
      hub_light_on_color_def hub_light_off_def hub_speaker_set_volume_def hub_speaker_stop_def
      hub_imu_set_tilt_def hub_imu_reset_heading_def Let_def)

lemmas hub_rules = fine_case test_rules hub_sound hub_texts_sound tone_sound

lemma display_test_fine:
  assumes "others_ok up P sc" "sound up P s"
  shows "fine up P (display_test sc s)" "fine up P (light_test sc s)"
  using assms unfolding display_test_def light_test_def Let_def by (auto intro!: hub_rules)

lemma speaker_test_closes:
  assumes "others_ok up P sc" "sound up P s"
  shows "\<exists>sc' s'. speaker_test sc s = Some (sc', s') \<and> sound False P s'"
proof -
  have shutdown: "\<exists>desc s'. hub_system_shutdown others s = Some (desc, s') \<and> sound False P s'"
    if "sound up P s" for others s
  proof -
    obtain r s1 where cmd: "send_hub_command RP_CMD_ID_SHT_DWN None 0 s = (r, s1)"
      by (cases "send_hub_command RP_CMD_ID_SHT_DWN None 0 s")
    from prot_shutdown_sound [OF hub_command_sound [OF this that], of others] cmd show ?thesis
      by (auto simp: hub_system_shutdown_def)
  qed
  let ?s3 = "hub_speaker_play_tone NOTE_A5 SOUND_MANUAL_STOP
    (hub_speaker_play_tone NOTE_C5 2000 (hub_speaker_set_volume 50 s))"
  obtain sc1 s4 where s4: "sleep 3 sc ?s3 = (sc1, s4)" by (cases "sleep 3 sc ?s3")
  have "fine up P (sleep 3 sc ?s3)" using assms by (auto intro!: hub_rules)
  with s4 have i4: "others_ok up P sc1" "sound up P s4" by simp_all
  obtain e s6 where s6: "hub_light_on_color PBIO_COLOR_GREEN (hub_speaker_stop s4) = (e, s6)"
    by (cases "hub_light_on_color PBIO_COLOR_GREEN (hub_speaker_stop s4)")
  have i6: "sound up P s6" using hub_sound(3) [OF hub_sound(6) [OF i4(2)]] s6 by (metis snd_conv)
  obtain sc2 s7 where s7: "sleep 3 sc1 s6 = (sc2, s7)" by (cases "sleep 3 sc1 s6")
  have "sound up P s7" using sleep_fine(1) [OF i4(1) i6, of 3] s7 by simp
  from shutdown [OF this, of "s_steps sc2"] s4 s6 s7 show ?thesis
    by (auto simp: speaker_test_def Let_def simp del: NOTE_A5_def NOTE_C5_def PBIO_COLOR_GREEN_def
        SOUND_MANUAL_STOP_def)
qed

lemma wait_ready_safe: "others_ok up P sc \<Longrightarrow> sound up P s \<Longrightarrow> safe up P (wait_ready n sc s)"
proof (induction n arbitrary: sc s)
  case (Suc n)
  from Suc.prems show ?case by (auto intro!: test_rules safe_bind [OF Suc.IH] Suc.IH)
qed simp

lemma imu_test_safe:
  assumes "others_ok up P sc" "sound up P s"
  shows "safe up P (imu_test n sc s)"
proof -
  have "safe up P (imu_round sc s)" if "others_ok up P sc" "sound up P s" for sc s
    using that unfolding imu_round_def Let_def by (auto intro!: test_rules)
  with assms show ?thesis
    unfolding imu_test_def imu_start_def Let_def
    by (auto intro!: test_rules rounds_safe wait_ready_safe hub_sound)
qed

subsection \<open>The program\<close>

lemma others_ok_up: "others_ok False P sc \<Longrightarrow> others_ok up P sc"
proof -
  have "other_step False P f \<Longrightarrow> other_step up P f" for f
    by (induction rule: other_step.induct) (blast intro: other_step.intros)+
  then show "others_ok False P sc \<Longrightarrow> others_ok up P sc"
    unfolding others_ok_def by (rule sched_of_mono)
qed

text \<open>After the device was opened only the state of the system has changed.\<close>

lemma open_sound:
  assumes "raspike_open_usb_communication name (rp_com s) = (desc, c)" "sound up P s"
  shows "sound up P (s\<lparr>rp_com := c\<rparr>)"
proof -
  have "\<exists>w. c = (rp_com s)\<lparr>com_os := w\<rparr>"
    using assms(1) by (auto simp: raspike_open_usb_communication_def Let_def split: prod.splits if_splits
        intro: exI [of _ "com_os (rp_com s)"])
  with sound_com [OF com_step_os [OF refl] assms(2)] show ?thesis by auto
qed

text \<open>A wait on a closed link only prints dots.\<close>

lemma wait_closed:
  assumes "others_ok False P sc" "sound False P s"
  shows "\<exists>sc' s'. wait_ready n sc s = Some ((replicate n Waiting, False), sc', s')"
  using assms
proof (induction n arbitrary: sc s)
  case (Suc n)
  obtain sc2 s2 where sleep: "usleep (100 * 1000) sc s = (sc2, s2)" by (cases "usleep (100 * 1000) sc s")
  with sleep_fine(2) [OF Suc.prems, of "100 * 1000"] Suc.IH [of sc2 s2] closed_status [OF _ Suc.prems(2)]
  show ?case by (auto simp: hub_imu_is_ready_def from_snapshot_def read_status_snapshot_def)
qed simp

lemma wait_ready_lines:
  "wait_ready n sc s = Some ((out, seen), sc', s') \<Longrightarrow>
    (if seen then \<exists>k < n. out = replicate k Waiting @ [Imu_is_ready] else out = replicate n Waiting)"
proof (induction n arbitrary: sc s out)
  case (Suc n)
  then show ?case
    by (fastforce simp: Let_def split: bind_splits if_splits prod.splits
        intro: exI [of _ 0] exI [of _ "Suc k" for k])
qed simp

lemma rounds_length:
  assumes "\<And>sc s xs sc' s'. body sc s = Some (xs, sc', s') \<Longrightarrow> length xs = k"
  shows "rounds n body sc s = Some (xs, sc', s') \<Longrightarrow> length xs = n * k"
  by (induction n arbitrary: sc s xs) (auto split: bind_splits dest!: assms)

lemma imu_round_length: "imu_round sc s = Some (xs, sc', s') \<Longrightarrow> length xs = 2"
  by (auto simp: imu_round_def Let_def split: bind_splits prod.splits)

lemma imu_test_lines:
  assumes "imu_test n sc s = Some ((out, ended), sc', s')"
  shows "if ended then \<exists>k < n. \<exists>before after_reset. out = replicate k Waiting @ Imu_is_ready # before @
      [Resetting_in_3_seconds, Resetting] @ after_reset @ [Done] \<and> length before = 20 \<and> length after_reset = 20
    else out = replicate n Waiting"
proof -
  obtain out1 seen sc1 s1 where wait: "imu_start n sc s = Some ((out1, seen), sc1, s1)"
    using assms by (auto simp: imu_test_def split: bind_splits)
  note lines = wait_ready_lines [OF wait [unfolded imu_start_def]]
  show ?thesis
  proof (cases seen)
    case False
    with assms wait lines show ?thesis by (auto simp: imu_test_def)
  next
    case True
    with assms wait obtain out2 out3 sc2 s2 sc4 s4 sc5 s5 where r:
      "rounds 10 imu_round sc1 s1 = Some (out2, sc2, s2)" "rounds 10 imu_round sc4 s4 = Some (out3, sc5, s5)"
      and out: "out = out1 @ out2 @ [Resetting_in_3_seconds, Resetting] @ out3 @ [Done]" and ended
      by (auto simp: imu_test_def Let_def split: bind_splits prod.splits)
    have "length out2 = 20" "length out3 = 20"
      using rounds_length [OF imu_round_length r(1)] rounds_length [OF imu_round_length r(2)] by simp_all
    moreover obtain k where "k < n" "out1 = replicate k Waiting @ [Imu_is_ready]" using lines True by auto
    ultimately show ?thesis using out \<open>ended\<close> by (simp only: if_True) (intro exI [of _ k] conjI exI [of _ out2] exI [of _ out3], simp_all)
  qed
qed

text \<open>C35. Run from the start, with any arguments, on any machine and with any hub, the program ends with code
  -1 because the device cannot be opened, or it is still waiting for the inertial unit after any number
  of rounds and has printed as many dots, or it has printed the two times ten readings of the inertial
  unit and ended with code 0 and the link up. It never follows a null pointer. (The README announces
  the test of the colour sensor instead, with lines \<^verbatim>\<open>[RGB]\<close>.)\<close>

theorem sample_main_outcome:
  assumes "others_ok False {} sc"
  shows "\<exists>out code sc' s'. raspike_test_main v argv n sc (initial_rp w) = Some ((out, code), sc', s') \<and>
    (code = Some (-1) \<and> out = [Cannot_open (if length argv > 1 then argv ! 1 else RASPIKE_COM_NAME)] \<or>
     code = None \<and> out = replicate n Waiting \<or>
     code = Some 0 \<and> linked s' \<and> (\<exists>k < n. \<exists>before after_reset.
       out = replicate k Waiting @ Imu_is_ready # before @ [Resetting_in_3_seconds, Resetting] @
         after_reset @ [Done] \<and> length before = 20 \<and> length after_reset = 20))"
proof -
  let ?s = "initial_rp w"
  let ?p = "if length argv > 1 then argv ! 1 else RASPIKE_COM_NAME"
  have start: "sound False {} ?s" by (rule initial_sound)
  obtain desc c where op: "raspike_open_usb_communication (Some ?p) (rp_com ?s) = (desc, c)"
    by (cases "raspike_open_usb_communication (Some ?p) (rp_com ?s)")
  show ?thesis
  proof (cases "desc = None")
    case True
    with op show ?thesis by (auto simp: raspike_test_main_def Let_def)
  next
    case False
    obtain ret s2 where init: "raspike_prot_init v desc (?s\<lparr>rp_com := c\<rparr>) = Some (ret, s2)"
      using prot_init_returns by blast
    from prot_init_sound [OF this open_sound [OF op start]] obtain up where up: "sound up {} s2" by blast
    from imu_test_safe [OF others_ok_up [OF assms] this, of n] obtain out ended sc' s'
      where test: "imu_test n sc s2 = Some ((out, ended), sc', s')" "sound up {} s'"
      by (auto simp: safe_def)
    have main: "raspike_test_main v argv n sc ?s = Some ((out, if ended then Some 0 else None), sc', s')"
      using op init test(1) False by (auto simp: raspike_test_main_def Let_def)
    show ?thesis
    proof (cases ended)
      case True
      have up
      proof (rule ccontr)
        assume "\<not> up"
        then have "sound False {} (hub_imu_set_tilt (float_of_int 51) s2)" using hub_sound(7) up by simp
        from wait_closed [OF assms this, of n] test(1) True show False
          by (auto simp: imu_test_def imu_start_def)
      qed
      moreover from imu_test_lines [OF test(1)] True obtain k before after_reset where "k < n"
        "out = replicate k Waiting @ Imu_is_ready # before @ [Resetting_in_3_seconds, Resetting] @ after_reset @ [Done]"
        "length before = 20" "length after_reset = 20"
        by auto
      ultimately show ?thesis using main True sound_linked [OF test(2)] by (intro exI conjI) auto
    next
      case False
      with imu_test_lines [OF test(1)] main show ?thesis by auto
    qed
  qed
qed

text \<open>A program without a hub, whose other thread receives.\<close>

theorem sample_main_outcome_witness:
  "\<exists>out code sc' s'. raspike_test_main (0, 8, 4) [''raspike_test'', ''tty''] 3
      \<lparr>s_steps = replicate 4 receiver_round, s_waits = []\<rparr> (initial_rp idle_os) = Some ((out, code), sc', s') \<and>
    (code = Some (-1) \<and> out = [Cannot_open ''tty''] \<or> code = None \<and> out = replicate 3 Waiting \<or> code = Some 0)"
proof -
  let ?sc = "\<lparr>s_steps = replicate 4 receiver_round, s_waits = []\<rparr>"
  have "others_ok False {} ?sc" by (simp add: others_ok_def sched_of_def waits_of_def other_step.intros)
  from sample_main_outcome [OF this, of "(0, 8, 4)" "[''raspike_test'', ''tty'']" 3 idle_os] show ?thesis by auto
qed

text \<open>A machine with a device and a hub that sends the negotiation of firmware 0.8.4.\<close>

definition demo_machine :: os where
  "demo_machine = (demo_os demo_negotiation [WriteCount 2])\<lparr>os_opens := [Inr 3], os_tcgets := [Inr
     \<lparr>c_iflag = 0xFFFFFFFF, c_oflag = 5, c_cflag = 0xFFFFFFFF, c_lflag = 0x8A3B, c_ispeed = 13,
      c_ospeed = 13, c_vmin = 1, c_vtime = 2\<rparr>]\<rparr>"

lemma demo_opens: "\<exists>t. raspike_open_usb_communication (Some name) (initial_com demo_machine) =
    (Some demo_desc, (initial_com demo_machine)\<lparr>com_os := (demo_os demo_negotiation [WriteCount 2])\<lparr>os_tty := t\<rparr>\<rparr>)"
  by (simp add: raspike_open_usb_communication_def initial_com_def demo_machine_def demo_os_def idle_os_def
     sys_open_def sys_tcgetattr_def sys_tcsetattr_def sys_tcflush_input_def sys_calloc_def demo_desc_def Let_def
     del: RP_SEND_BUFFER_SIZE_def)

lemma demo_refused:
  "map_option fst (raspike_prot_init (0, 8, 5) (Some demo_desc) ((initial_rp idle_os)
     \<lparr>rp_com := \<lparr>com_os = (demo_os demo_negotiation [WriteCount 2])\<lparr>os_tty := t\<rparr>, fg_send_buffer = buf,
       fg_send_buffer_size = 0, fg_send_mode = RASPIKE_USB_MODE_NORMAL\<rparr>\<rparr>)) = Some (- EPROTONOSUPPORT)"
  by code_simp

text \<open>C36. The program does not look at the result of the initialisation: when that failed, because the hub
  did not answer or has another firmware, the program waits for the inertial unit for ever, in
  whatever rounds the receiving thread runs meanwhile.\<close>

theorem sample_main_ignores_failure:
  assumes "raspike_open_usb_communication (Some (if length argv > 1 then argv ! 1 else RASPIKE_COM_NAME))
      (rp_com (initial_rp w)) = (Some desc, c)"
    and "raspike_prot_init v (Some desc) ((initial_rp w)\<lparr>rp_com := c\<rparr>) = Some (ret, s2)" "ret < 0"
    and "others_ok False {} sc"
  shows "\<exists>sc' s'. raspike_test_main v argv n sc (initial_rp w) = Some ((replicate n Waiting, None), sc', s')"
proof -
  let ?s = "initial_rp w"
  have start: "sound False {} (?s\<lparr>rp_com := c\<rparr>)" by (rule open_sound [OF assms(1) initial_sound])
  obtain up where up: "sound up {} s2" using prot_init_sound [OF assms(2) start] by blast
  have "\<not> up"
    using prot_init_down [OF assms(2,3) sound_fields(2) [OF start]] up start sound_linked [OF up]
    by (auto simp: closed_def linked_def initial_rp_def)
  then have "sound False {} (hub_imu_set_tilt (float_of_int 51) s2)" using hub_sound(7) up by simp
  from wait_closed [OF assms(4) this, of n] assms(1,2) show ?thesis
    by (auto simp: raspike_test_main_def imu_test_def imu_start_def Let_def)
qed

theorem sample_main_ignores_failure_witness:
  "\<exists>sc' s'. raspike_test_main (0, 8, 5) [''raspike_test''] 1000 \<lparr>s_steps = replicate 9 receiver_round, s_waits = []\<rparr>
    (initial_rp demo_machine) = Some ((replicate 1000 Waiting, None), sc', s')"
proof -
  let ?argv = "[''raspike_test'']"
  let ?name = "if length ?argv > 1 then ?argv ! 1 else RASPIKE_COM_NAME"
  let ?sc = "\<lparr>s_steps = replicate 9 receiver_round, s_waits = []\<rparr>"
  obtain t where open_it: "raspike_open_usb_communication (Some ?name) (rp_com (initial_rp demo_machine)) =
      (Some demo_desc, (initial_com demo_machine)\<lparr>com_os := (demo_os demo_negotiation [WriteCount 2])\<lparr>os_tty := t\<rparr>\<rparr>)"
    using demo_opens [of ?name] by (auto simp: initial_rp_def simp del: RP_SEND_BUFFER_SIZE_def)
  have state: "(initial_rp demo_machine)\<lparr>rp_com := (initial_com demo_machine)
        \<lparr>com_os := (demo_os demo_negotiation [WriteCount 2])\<lparr>os_tty := t\<rparr>\<rparr>\<rparr> = (initial_rp idle_os)
      \<lparr>rp_com := \<lparr>com_os = (demo_os demo_negotiation [WriteCount 2])\<lparr>os_tty := t\<rparr>,
        fg_send_buffer = replicate RP_SEND_BUFFER_SIZE 0, fg_send_buffer_size = 0,
        fg_send_mode = RASPIKE_USB_MODE_NORMAL\<rparr>\<rparr>"
    by (simp add: initial_rp_def initial_com_def del: RP_SEND_BUFFER_SIZE_def)
  obtain s2 where init: "raspike_prot_init (0, 8, 5) (Some demo_desc) ((initial_rp demo_machine)
      \<lparr>rp_com := (initial_com demo_machine)\<lparr>com_os := (demo_os demo_negotiation [WriteCount 2])\<lparr>os_tty := t\<rparr>\<rparr>\<rparr>) =
      Some (- EPROTONOSUPPORT, s2)"
    using demo_refused [of t "replicate RP_SEND_BUFFER_SIZE 0"] unfolding state by auto
  have "others_ok False {} ?sc" by (simp add: others_ok_def sched_of_def waits_of_def other_step.intros)
  from sample_main_ignores_failure [OF open_it init _ this] show ?thesis by simp
qed

subsection \<open>The square\<close>

lemma float_constants:
  "float_of_int 0 = 0" "float_of_int 100 = 0x42C80000" "float_of_int 30 = 0x41F00000"
  "float_of_int (- 100) = 0xC2C80000" "float_of_int (- 30) = 0xC1F00000"
  "float_to_int 0x42C80000 = Some 100"  "float_to_int 0x41F00000 = Some 30"
  "float_to_int 0xC2C80000 = Some (- 100)" "float_to_int 0xC1F00000 = Some (- 30)"
  by code_simp+

lemma float_to_int_between:
  assumes "0x41F00000 \<le> uint (x AND 0x7FFFFFFF)" "uint (x AND 0x7FFFFFFF) \<le> 0x42C80000"
  shows "\<exists>p. float_to_int x = Some p \<and> (if bit x 31 then - 100 \<le> p \<and> p \<le> - 30 else 30 \<le> p \<and> p \<le> 100)"
proof -
  define e where "e = uint x div 2 ^ 23 mod 2 ^ 8"
  define f where "f = uint x mod 2 ^ 23"
  have f: "0 \<le> f" "f < 2 ^ 23" by (simp_all add: f_def)
  have m: "0x41F00000 \<le> 2 ^ 23 * e + f" "2 ^ 23 * e + f \<le> 0x42C80000"
    using assms magnitude [of x] split_magnitude [of "uint x"] by (simp_all add: e_def f_def)
  then have e: "e \<in> {131, 132, 133}" using f by auto
  define d where "d = (2 :: int) ^ nat (150 - e)"
  have "(2 ^ 23 + f) * 2 ^ nat (e - 1) div 2 ^ 149 = (2 ^ 23 + f) div d"
    using div_mult_mult2 [of "2 ^ nat (e - 1)" "2 ^ 23 + f" d] e by (auto simp: d_def)
  moreover have "30 \<le> (2 ^ 23 + f) div d \<and> (2 ^ 23 + f) div d \<le> 100"
    by (rule div_between) (use m f e in \<open>auto simp: d_def\<close>)
  ultimately have "30 \<le> (2 ^ 23 + f) * 2 ^ nat (e - 1) div 2 ^ 149 \<and>
    (2 ^ 23 + f) * 2 ^ nat (e - 1) div 2 ^ 149 \<le> 100" by simp
  moreover have "float_value x = Finite (bit x 31) ((2 ^ 23 + f) * 2 ^ nat (e - 1))"
    unfolding ieee_of_def Let_def e_def [symmetric] f_def [symmetric] sign_bit using e by auto
  moreover have "ieee_one 23 8 = 2 ^ 149" by (simp add: ieee_one_def)
  ultimately show ?thesis by (auto simp: float_to_int_def signed_units_def)
qed

text \<open>C37. A power of the square is out of the dead zone of the motors and within their range, and keeps its
  direction, zero counting as forward: from 30 to 100 or from -100 to -30. A power that is not a number
  passes the clamp, and its conversion to \<^verbatim>\<open>int\<close> is undefined in C.\<close>

theorem clamp_bounds:
  "if float_is_nan pw then float_to_int (clamp pw) = None
   else \<exists>p. float_to_int (clamp pw) = Some p \<and>
     (if float_ge pw (float_of_int 0) then 30 \<le> p \<and> p \<le> 100 else - 100 \<le> p \<and> p \<le> - 30)"
proof (cases "float_is_nan pw")
  case True
  then have "clamp pw = pw" by (simp add: clamp_def float_ge_def float_gt_def)
  with True nan_to_int show ?thesis by simp
next
  case False
  have order: "float_order 0x42C80000 = 0x42C80000" "float_order 0x41F00000 = 0x41F00000"
    "float_order 0xC2C80000 = - 0x42C80000" "float_order 0xC1F00000 = - 0x41F00000" "float_order 0 = 0"
    "\<not> float_is_nan 0x42C80000" "\<not> float_is_nan 0x41F00000" "\<not> float_is_nan 0xC2C80000"
    "\<not> float_is_nan 0xC1F00000" "\<not> float_is_nan 0"
    by code_simp+
  have size: "0 \<le> uint (pw AND 0x7FFFFFFF)" by simp
  have "float_ge pw 0 \<and> clamp pw \<in> {0x42C80000, 0x41F00000} \<or>
    \<not> float_ge pw 0 \<and> clamp pw \<in> {0xC2C80000, 0xC1F00000} \<or>
    clamp pw = pw \<and> (float_ge pw 0 \<longleftrightarrow> \<not> bit pw 31) \<and>
      0x41F00000 \<le> uint (pw AND 0x7FFFFFFF) \<and> uint (pw AND 0x7FFFFFFF) \<le> 0x42C80000"
    using False size
    by (auto simp: clamp_def float_constants float_ge_def float_gt_def order float_order_def [of pw] split: if_splits)
  then show ?thesis
    using float_to_int_between [of pw] False by (auto simp: float_constants split: if_splits)
qed

end
