(* ===== verification/Interrupts.thy ===== *)
theory Interrupts
  imports Request_Properties
begin

section \<open>Requests cut off by a shutdown or a new session\<close>

text \<open>
  \<^verbatim>\<open>raspike_prot_shutdown\<close> may run while other threads have requests under way, and
  \<^verbatim>\<open>process_hello_payload\<close> runs in the receiving thread. Both end the waiting requests through
  \<^verbatim>\<open>reset_port_state\<close>. The theory holds the shutdown as the sections the other threads see, its wait
  for the receivers, which enter and leave in sections of their own, the steps that a request must
  bear when the link can go away beside it, a whole shutdown among them, and what it then returns.
\<close>

subsection \<open>The sections of a shutdown\<close>

definition unlink_section :: "rp \<Rightarrow> rp" where
  "unlink_section s = s\<lparr>fgDesc := None\<rparr>"

text \<open>One round of the loop of \<^verbatim>\<open>reset_port_state\<close>.\<close>

definition reset_slot :: "int \<Rightarrow> bool \<Rightarrow> nat \<Rightarrow> rp \<Rightarrow> rp" where
  "reset_slot error clear_devices j s =
     update_device j (\<lambda>dev. let dev' = cancel_pending error (fgSessionId s) dev
       in if clear_devices then dev'\<lparr>device := zero_device\<rparr> else dev') s"

definition close_section :: "com_desc option \<Rightarrow> rp \<Rightarrow> rp" where
  "close_section desc s =
     (if desc = None then s
      else let (_, c1) = raspike_com_flush desc (rp_com s); (_, _, c2) = raspike_com_close desc c1
           in s\<lparr>rp_com := c2\<rparr>)"

definition free_section :: "rp \<Rightarrow> rp" where
  "free_section s = s\<lparr>fgStatus := None\<rparr>"

definition forget_section :: "rp \<Rightarrow> rp" where
  "forget_section s = s\<lparr>fgHandshakeComplete := False, fgUseProtocolV2 := False, fgSessionId := 0\<rparr>"

definition shutdown_sections :: "com_desc option \<Rightarrow> (rp \<Rightarrow> rp) list" where
  "shutdown_sections desc =
     unlink_section # map (reset_slot (- ENOTCONN) True) [0 ..< RP_PORT_NUMBER] @
     [close_section desc, free_section, forget_section]"

lemma reset_slot_middle:
  "length before = j \<Longrightarrow> gPortDevices s = before @ dev # after \<Longrightarrow>
    reset_slot e clear j s = s\<lparr>gPortDevices :=
      before @ (if clear then (cancel_pending e (fgSessionId s) dev)\<lparr>device := zero_device\<rparr>
                else cancel_pending e (fgSessionId s) dev) # after\<rparr>"
  by (simp add: reset_slot_def update_device_def nth_append list_update_append Let_def)

lemma reset_slots_take:
  assumes "n \<le> length (gPortDevices s)"
  shows "fold (reset_slot e clear) [0 ..< n] s =
    s\<lparr>gPortDevices := take n (gPortDevices (reset_port_state e clear s)) @ drop n (gPortDevices s)\<rparr>"
  using assms
proof (induction n)
  case (Suc n)
  let ?d = "gPortDevices s" and ?r = "gPortDevices (reset_port_state e clear s)"
  let ?s = "s\<lparr>gPortDevices := take n ?r @ drop n ?d\<rparr>"
  have split: "take (Suc n) ?r = take n ?r @ [?r ! n]" "drop n ?d = ?d ! n # drop (Suc n) ?d"
    "length (take n ?r) = n"
    using Suc.prems by (simp_all add: take_Suc_conv_app_nth Cons_nth_drop_Suc reset_port_state_def)
  have "fold (reset_slot e clear) [0 ..< Suc n] s = reset_slot e clear n ?s" using Suc by simp
  also have "\<dots> = s\<lparr>gPortDevices := take (Suc n) ?r @ drop (Suc n) ?d\<rparr>"
    using reset_slot_middle [OF split(3), of ?s "?d ! n" "drop (Suc n) ?d" e clear] Suc.prems
    by (simp add: split(1) split(2)) (simp add: reset_port_state_def Let_def)
  finally show ?case .
qed (simp add: reset_port_state_def)

lemma reset_slots: "fold (reset_slot e clear) [0 ..< length (gPortDevices s)] s = reset_port_state e clear s"
  by (subst reset_slots_take) (simp_all add: reset_port_state_def)

text \<open>Once the receivers have left, the shutdown is its sections, one after the other.\<close>

lemma shutdown_is_sections:
  assumes "await_receivers others (s\<lparr>fgStopCommunication := True\<rparr>) = Some s1" "length (gPortDevices s1) = RP_PORT_NUMBER"
  shows "\<exists>desc'. raspike_prot_shutdown others s =
    Some (0, desc', fold (\<lambda>f. f) (shutdown_sections (fgDesc s1)) s1)"
proof -
  have "fold (reset_slot (- ENOTCONN) True) [0 ..< RP_PORT_NUMBER] (unlink_section s1) =
      reset_port_state (- ENOTCONN) True (s1\<lparr>fgDesc := None\<rparr>)"
    using reset_slots [of "- ENOTCONN" True "unlink_section s1"] assms(2) by (simp add: unlink_section_def)
  then have "fold (\<lambda>f. f) (shutdown_sections (fgDesc s1)) s1 =
      forget_section (free_section (close_section (fgDesc s1) (reset_port_state (- ENOTCONN) True (s1\<lparr>fgDesc := None\<rparr>))))"
    by (simp add: shutdown_sections_def fold_map comp_def del: upt_Suc RP_PORT_NUMBER_def)
  then show ?thesis
    using assms(1) by (simp add: raspike_prot_shutdown_def close_section_def free_section_def forget_section_def
        Let_def split: prod.splits)
qed

subsection \<open>The wait for the receivers\<close>

text \<open>What the other threads do while a shutdown waits: one of the receivers inside leaves, another thread
  comes to \<^verbatim>\<open>raspike_prot_receive\<close> and tries to count itself, or something else happens, the
  reading of the receivers inside among it.\<close>

datatype drain_event = Leaves | Enters | Other "rp \<Rightarrow> rp"

primrec drain_step :: "drain_event \<Rightarrow> rp \<Rightarrow> rp" where
  "drain_step Leaves s = receive_leave s"
| "drain_step Enters s = (case receive_enter s of None \<Rightarrow> s | Some s1 \<Rightarrow> s1)"
| "drain_step (Other f) s = f s"

definition harmless :: "drain_event \<Rightarrow> bool" where
  "harmless e \<longleftrightarrow> (\<forall>f s. e = Other f \<longrightarrow>
     fgActiveReceivers (f s) = fgActiveReceivers s \<and> fgStopCommunication (f s) = fgStopCommunication s)"

text \<open>Nobody enters once the stop flag is set.\<close>

lemma drain_step_receivers:
  assumes "harmless e" "fgStopCommunication s"
  shows "fgStopCommunication (drain_step e s)"
    "fgActiveReceivers (drain_step e s) = fgActiveReceivers s - (if e = Leaves then 1 else 0)"
  using assms by (cases e; simp add: harmless_def receive_leave_def receive_enter_def)+

lemma await_receivers_drained:
  assumes "list_all harmless es" "fgStopCommunication s"
  shows "await_receivers (map drain_step es) s = None \<longleftrightarrow> int (count_list es Leaves) < fgActiveReceivers s"
  using assms
proof (induction es arbitrary: s)
  case (Cons e es)
  note step = drain_step_receivers [of e s]
  show ?case
    using Cons step by (subst await_receivers.simps) (auto simp: list_all_iff)
qed (simp add: await_receivers.simps)

text \<open>C27. A shutdown waits for the receivers inside and for nobody else: it returns, with the link closed,
  all devices free and no request waiting, exactly if as many of them leave as were inside when it
  was called. Meanwhile others come to \<^verbatim>\<open>raspike_prot_receive\<close>, in any number and at any time, and are
  turned away, and anything else happens that neither counts receivers nor touches the stop flag.\<close>

theorem shutdown_waits_for_receivers:
  assumes "list_all harmless es"
  shows "if fgActiveReceivers s \<le> int (count_list es Leaves)
    then \<exists>desc' s'. raspike_prot_shutdown (map drain_step es) s = Some (0, desc', s') \<and> closed s' \<and>
      idle_ports s' \<and> \<not> fgUseProtocolV2 s' \<and> fgSessionId s' = 0
    else raspike_prot_shutdown (map drain_step es) s = None"
proof (cases "await_receivers (map drain_step es) (s\<lparr>fgStopCommunication := True\<rparr>)")
  case None
  with await_receivers_drained [OF assms, of "s\<lparr>fgStopCommunication := True\<rparr>"] show ?thesis
    by (simp add: raspike_prot_shutdown_def)
next
  case (Some s1)
  then have "raspike_prot_shutdown (map drain_step es) s \<noteq> None"
    by (simp add: raspike_prot_shutdown_def Let_def case_prod_unfold)
  then obtain r desc' s' where call: "raspike_prot_shutdown (map drain_step es) s = Some (r, desc', s')"
    by (cases "raspike_prot_shutdown (map drain_step es) s") auto
  with await_receivers_drained [OF assms, of "s\<lparr>fgStopCommunication := True\<rparr>"] Some
    prot_shutdown_closes [OF call] show ?thesis by simp
qed

theorem shutdown_waits_for_receivers_witness:
  "(\<exists>desc' s'. raspike_prot_shutdown (map drain_step [Enters, Leaves, Other (\<lambda>s. snd (next_sequence s)), Leaves])
      ((demo_link [] [])\<lparr>fgActiveReceivers := 2\<rparr>) = Some (0, desc', s') \<and> closed s') \<and>
    raspike_prot_shutdown (map drain_step [Enters, Leaves]) ((demo_link [] [])\<lparr>fgActiveReceivers := 2\<rparr>) = None"
proof -
  have "list_all harmless [Enters, Leaves, Other (\<lambda>s. snd (next_sequence s)), Leaves]"
    "list_all harmless [Enters, Leaves]"
    by (simp_all add: harmless_def next_sequence_def Let_def)
  from this [THEN shutdown_waits_for_receivers, of "(demo_link [] [])\<lparr>fgActiveReceivers := 2\<rparr>"]
  show ?thesis by auto
qed

subsection \<open>What a request must bear\<close>

text \<open>
  Beside a request on port \<open>i\<close>, when the link may go away: messages are dispatched while the link is
  up, the slots are reset with an error, the other threads use the slots of other ports and what a
  driver keeps of a device, and they do anything at all to what is not a slot. These are the steps
  of \<open>beside\<close> on a link that is up, all the sections of a shutdown, and those of a later
  initialisation, any number of them at one point, in any order; a whole shutdown is among them.
\<close>

inductive around :: "v2_message set \<Rightarrow> nat \<Rightarrow> (rp \<Rightarrow> rp) \<Rightarrow> bool" for ms i where
  receive: "m \<in> ms \<Longrightarrow> around ms i (\<lambda>s. if linked s then hub_step m s else s)"
| reset: "e < 0 \<Longrightarrow> around ms i (reset_slot e clear j)"
| slot: "j \<noteq> i \<Longrightarrow> around ms i (update_device j g)"
| driver: "around ms i (update_device j (\<lambda>dev. dev\<lparr>device := d (device dev)\<rparr>))"
| elsewhere: "(\<And>s. gPortDevices (g s) = gPortDevices s) \<Longrightarrow> around ms i g"
| andthen: "around ms i f \<Longrightarrow> around ms i g \<Longrightarrow> around ms i (\<lambda>s. g (f s))"
| choice: "(\<And>s. around ms i (h s)) \<Longrightarrow> around ms i (\<lambda>s. h s s)"

interpretation around_steps: closed_steps "around ms i" for ms i
  by unfold_locales (auto intro: around.intros)

lemma section_around:
  "around ms i unlink_section" "around ms i (close_section desc)" "around ms i free_section" "around ms i forget_section"
  by (rule around.elsewhere, simp add: unlink_section_def close_section_def free_section_def
      forget_section_def split: prod.splits)+

lemma stop_around: "around ms i (\<lambda>s. s\<lparr>fgStopCommunication := True\<rparr>)"
  by (rule around.elsewhere) simp

lemma await_around:
  "list_all (around ms i) others \<Longrightarrow> await_receivers others s = Some s' \<Longrightarrow> \<exists>f. around ms i f \<and> s' = f s"
proof (induction others arbitrary: s)
  case Nil
  then have "s' = id s" by (simp add: await_receivers.simps split: if_splits)
  with around_steps.doing_nothing show ?case by blast
next
  case (Cons f others)
  show ?case
  proof (cases "fgActiveReceivers s > 0")
    case True
    with Cons.prems(2) have "await_receivers others (f s) = Some s'" by (simp add: await_receivers.simps)
    with Cons obtain g where "around ms i g" "s' = g (f s)" by (auto dest: Cons.IH)
    with around.andthen [of ms i f g] Cons.prems(1) show ?thesis by auto
  next
    case False
    with Cons.prems(2) have "s' = id s" by (simp add: await_receivers.simps)
    with around_steps.doing_nothing show ?thesis by blast
  qed
qed

lemma reset_around: "around ms i (reset_port_state (- ENOTCONN) True)"
proof (rule around_steps.pointwise)
  fix s :: rp
  have "list_all (around ms i) (map (reset_slot (- ENOTCONN) True) [0 ..< length (gPortDevices s)])"
    by (auto simp: list_all_iff intro: around.reset)
  from around_steps.folded [OF this] show "\<exists>g. around ms i g \<and> reset_port_state (- ENOTCONN) True s = g s"
    using reset_slots [of "- ENOTCONN" True s] by (auto simp: fold_map comp_def)
qed

text \<open>A whole shutdown, with what the others do while it waits for the receivers, is one of the steps.\<close>

lemma shutdown_around:
  assumes "list_all (around ms i) others"
  shows "around ms i (\<lambda>s. case raspike_prot_shutdown others s of None \<Rightarrow> s | Some (r, desc', s') \<Rightarrow> s')"
proof (rule around_steps.pointwise)
  fix s :: rp
  show "\<exists>g. around ms i g \<and> (case raspike_prot_shutdown others s of None \<Rightarrow> s | Some (r, desc', s') \<Rightarrow> s') = g s"
  proof (cases "await_receivers others (s\<lparr>fgStopCommunication := True\<rparr>)")
    case None
    then have "(case raspike_prot_shutdown others s of None \<Rightarrow> s | Some (r, desc', s') \<Rightarrow> s') = id s"
      by (simp add: raspike_prot_shutdown_def)
    with around_steps.doing_nothing show ?thesis by blast
  next
    case (Some s1)
    from await_around [OF assms this] obtain f where f: "around ms i f" "s1 = f (s\<lparr>fgStopCommunication := True\<rparr>)"
      by blast
    let ?fs = "[\<lambda>s. s\<lparr>fgStopCommunication := True\<rparr>, f, unlink_section, reset_port_state (- ENOTCONN) True,
      close_section (fgDesc s1), free_section, forget_section]"
    have "list_all (around ms i) ?fs" by (simp add: f(1) stop_around section_around reset_around)
    moreover have "(case raspike_prot_shutdown others s of None \<Rightarrow> s | Some (r, desc', s') \<Rightarrow> s') = fold (\<lambda>f. f) ?fs s"
      using Some f(2) by (simp add: raspike_prot_shutdown_def unlink_section_def close_section_def
          free_section_def forget_section_def Let_def split: prod.splits)
    ultimately show ?thesis using around_steps.folded by blast
  qed
qed

definition ports_there :: "rp \<Rightarrow> bool" where
  "ports_there s \<longleftrightarrow> length (gPortDevices s) = RP_PORT_NUMBER"

definition around_inv :: "v2_message set \<Rightarrow> nat \<Rightarrow> u32 \<Rightarrow> rp \<Rightarrow> bool" where
  "around_inv ms i q s \<longleftrightarrow> ports_there s \<and> i < RP_PORT_NUMBER \<and> slot_ok ms i q (gPortDevices s ! i)"

lemma request_inv_around: "request_inv ms i q s \<longleftrightarrow> linked s \<and> around_inv ms i q s"
  by (auto simp: request_inv_def around_inv_def ports_there_def linked_def)

lemma reset_slot_nth:
  "j < length (gPortDevices s) \<Longrightarrow> gPortDevices (reset_slot e clear j s) ! k = (if k = j
    then (if clear then (cancel_pending e (fgSessionId s) (gPortDevices s ! j))\<lparr>device := zero_device\<rparr>
          else cancel_pending e (fgSessionId s) (gPortDevices s ! j))
    else gPortDevices s ! k)"
  by (simp add: reset_slot_def update_device_def Let_def)

lemma slot_ok_device [simp]: "slot_ok ms i q (dev\<lparr>device := d\<rparr>) = slot_ok ms i q dev"
  by (simp add: slot_ok_def answers_def)

lemma around_ports: "around ms i f \<Longrightarrow> ports_there s \<Longrightarrow> ports_there (f s)"
proof (induction arbitrary: s rule: around.induct)
  case (receive m)
  have "ports_there (hub_step m s)" if "linked s"
    using hub_like_linked [of "{m}" "hub_step m", OF _ that] by (simp add: hub_like_def ports_there_def linked_def)
  then show ?case using receive by simp
qed (simp_all add: ports_there_def reset_slot_def update_device_def)

lemma around_inv_slots:
  assumes "around_inv ms i q s" "ports_there s'" "slot_ok ms i q (gPortDevices s ! i) \<Longrightarrow> slot_ok ms i q (gPortDevices s' ! i)"
  shows "around_inv ms i q s'"
  using assms by (simp add: around_inv_def)

lemma reset_slot_ok:
  assumes "around_inv ms i q s" "e < 0"
  shows "around_inv ms i q (reset_slot e clear j s)"
proof (rule around_inv_slots [OF assms(1)])
  show "ports_there (reset_slot e clear j s)"
    using assms(1) by (simp add: around_inv_def ports_there_def reset_slot_def update_device_def)
  assume ok: "slot_ok ms i q (gPortDevices s ! i)"
  show "slot_ok ms i q (gPortDevices (reset_slot e clear j s) ! i)"
  proof (cases "j < length (gPortDevices s)")
    case True
    with ok slot_ok_cancel [OF ok assms(2)] show ?thesis
      by (cases "j = i") (simp_all add: reset_slot_nth)
  next
    case False
    with ok show ?thesis by (simp add: reset_slot_def update_device_def list_update_beyond)
  qed
qed

lemma around_slot: "around ms i f \<Longrightarrow> around_inv ms i q s \<Longrightarrow> around_inv ms i q (f s)"
proof (induction arbitrary: s rule: around.induct)
  case (receive m)
  have "request_inv ms i q (hub_step m s)" if "linked s"
    using hub_step_slot [of ms i q s "hub_step m"] receive that by (auto simp: request_inv_around hub_like_def)
  then show ?case using receive(2) by (simp add: request_inv_around)
next
  case (reset e clear j)
  then show ?case by (rule reset_slot_ok [rotated])
next
  case (driver j d)
  then show ?case
    by (cases "j = i") (simp_all add: around_inv_def ports_there_def update_device_def)
qed (simp_all add: around_inv_def ports_there_def update_device_def)

lemma around_inv_same: "gPortDevices s' = gPortDevices s \<Longrightarrow> around_inv ms i q s' = around_inv ms i q s"
  by (simp add: around_inv_def ports_there_def)

lemma ports_there_same: "gPortDevices s' = gPortDevices s \<Longrightarrow> ports_there s' = ports_there s"
  by (simp add: ports_there_def)

lemma same_ports:
  "send_frame port cmd buf n q fl now s = (r, s') \<Longrightarrow> gPortDevices s' = gPortDevices s"
  "gPortDevices (s\<lparr>rp_com := c\<rparr>) = gPortDevices s"
  "gPortDevices (stats_increment k s) = gPortDevices s"
  "gPortDevices (snd (next_sequence s)) = gPortDevices s"
  using counts_only_ports [OF send_frame_counts] next_sequence_fields(7) [OF prod.collapse [symmetric]]
  by (simp_all add: stats_increment_def)

interpretation away_link: request_context ports_there "around ms i" for ms i
  by unfold_locales (erule (1) around_ports,
      simp_all add: ports_there_same [OF same_ports(1)] ports_there_same [OF same_ports(4)]
        ports_there_same [OF same_ports(3)] ports_there_same [OF same_ports(2)])

interpretation away_slot: request_context "around_inv ms i q" "around ms i" for ms i q
  by unfold_locales (erule (1) around_slot,
      simp_all add: around_inv_same [OF same_ports(1)] around_inv_same [OF same_ports(4)]
        around_inv_same [OF same_ports(3)] around_inv_same [OF same_ports(2)])

interpretation away_phases: request_phases ports_there "around_inv ms i q" "around ms i" i q for ms i q
  by unfold_locales (simp add: around_inv_def ports_there_def update_device_def slot_ok_def)

text \<open>C3. Even when the link is shut down, and perhaps opened again, beside a request: at each of the points
  where it waits for a mutex or its answer there may be any number of steps, a whole shutdown among
  them (\<open>shutdown_around\<close>). A result that is not an error is the value of an acknowledgement that was
  received, for the request's own port, command and sequence number, and of the session that holds
  at its end, if there is one. A request that is cut off never returns what it did not get.\<close>

theorem request_bears_shutdown:
  assumes "raspike_request port cmd data n t sc s = (r, sc', s')" "0 \<le> r" "getDevice port = Some i"
    and "length (gPortDevices s) = RP_PORT_NUMBER" "sched_of (around ms i) sc"
    and "fgNextSequence (snd (others_run sc s)) = q" "q \<noteq> 0" "cmd \<noteq> 0"
  shows "\<exists>m \<in> ms. m_cmd m = RP_CMD_ID_ACK \<and> getDevice (m_port m) = Some i \<and>
    length (m_payload m) = 8 \<and> m_sequence m = q \<and> (fgUseProtocolV2 s' \<longrightarrow> m_session m = fgSessionId s') \<and>
    sint (rp_v2_get_u32 (m_payload m) 0) = int (unat cmd) \<and>
    sint (rp_v2_get_u32 (m_payload m) 4) = r"
proof -
  from assms(1,2) have port: "raspike_is_valid_port port" by (auto simp: raspike_request_def split: if_splits)
  have there: "ports_there s" using assms(4) by (simp add: ports_there_def)
  show ?thesis
  proof (rule away_phases.request_ends [OF assms(1) port assms(3,6) there assms(5)])
    fix completed result s6
    assume fin: "request_finish cmd q i completed result s6 = (r, s')"
      and s6: "result < 0" "around_inv ms i q s6"
    then show ?thesis
      using request_finish_result [OF fin s6(1) assms(2) _ assms(7)] assms(8) by (simp add: around_inv_def)
  qed
qed

theorem request_bears_shutdown_witness:
  "\<exists>m \<in> {demo_answer}. m_sequence m = 1 \<and> sint (rp_v2_get_u32 (m_payload m) 4) = sint (1 :: i32)"
proof -
  let ?s = "demo_link [] (replicate 1 (WriteCount 256))"
  let ?f = "\<lambda>s. if linked s then hub_step demo_answer s else s"
  let ?sc = "\<lparr>s_steps = [], s_waits = [(?f, 0)]\<rparr>"
  have port: "getDevice 1 = Some 1" "raspike_is_valid_port 1" "good_payload None 0" "RP_CMD_ID_MOT_RST \<noteq> 0"
    by code_simp+
  have "ack_for 1 RP_CMD_ID_MOT_RST (fgNextSequence ?s) (fgSessionId ?s) 1 demo_answer"
    using port(1) by (simp add: ack_for_def demo_answer_def demo_message_def)
  moreover have "sends 1 ?s" by (rule demo_link_sends_frames) simp
  ultimately obtain sc' s' where call:
    "raspike_request 1 RP_CMD_ID_MOT_RST None 0 2000 ?sc ?s = (sint (1 :: i32), sc', s')"
    using port request_answered_by [OF demo_link_linked, of "[]" "replicate 1 (WriteCount 256)" None 0 1 1
        ?sc ?f "[]" RP_CMD_ID_MOT_RST 1 demo_answer 2000] by auto
  have "sched_of (around {demo_answer} 1) ?sc" by (simp add: sched_of_def waits_of_def around.receive)
  moreover have "fgNextSequence (snd (others_run ?sc ?s)) = 1" by (simp add: others_run_def)
  ultimately show ?thesis
    using request_bears_shutdown [OF call _ port(1), of "{demo_answer}" 1] port(4) by auto
qed

subsection \<open>What a request that is cut off returns\<close>

text \<open>A whole shutdown that other threads see between two steps of a caller.\<close>

definition shutdown_step :: "rp \<Rightarrow> rp" where
  "shutdown_step s = (case raspike_prot_shutdown [] s of None \<Rightarrow> s | Some (r, desc', s') \<Rightarrow> s')"

definition opens_session :: "v2_message \<Rightarrow> u32 \<Rightarrow> bool" where
  "opens_session m old \<longleftrightarrow> m_cmd m = RP_CMD_ID_LINK_HELLO \<and> length (m_payload m) = RP_V2_HELLO_PAYLOAD_SIZE \<and>
     m_payload m ! 0 = RP_V2_VERSION \<and> rp_v2_get_u32 (m_payload m) 4 \<notin> {0, old}"

lemma shutdown_step_props:
  assumes "fgActiveReceivers s \<le> 0"
  shows "gPortDevices (shutdown_step s) = gPortDevices (reset_port_state (- ENOTCONN) True s)"
    "fgLinkStats (shutdown_step s) = fgLinkStats s" "closed (shutdown_step s)"
    "\<not> fgUseProtocolV2 (shutdown_step s)"
proof -
  have "await_receivers [] (s\<lparr>fgStopCommunication := True\<rparr>) = Some (s\<lparr>fgStopCommunication := True\<rparr>)"
    using assms by (simp add: await_receivers.simps)
  then have "\<exists>r desc'. raspike_prot_shutdown [] s = Some (r, desc', shutdown_step s) \<and>
      gPortDevices (shutdown_step s) = gPortDevices (reset_port_state (- ENOTCONN) True s) \<and>
      fgLinkStats (shutdown_step s) = fgLinkStats s"
    by (simp add: shutdown_step_def raspike_prot_shutdown_def Let_def reset_port_state_def split: prod.splits)
  then show "gPortDevices (shutdown_step s) = gPortDevices (reset_port_state (- ENOTCONN) True s)"
    "fgLinkStats (shutdown_step s) = fgLinkStats s" "closed (shutdown_step s)"
    "\<not> fgUseProtocolV2 (shutdown_step s)"
    using prot_shutdown_closes by blast+
qed

lemma new_session_props:
  assumes "opens_session m (fgSessionId s)"
  shows "\<exists>s0. fgSessionId s0 = rp_v2_get_u32 (m_payload m) 4 \<and> gPortDevices s0 = gPortDevices s \<and>
      gPortDevices (hub_step m s) = gPortDevices (reset_port_state (- ESTALE) False s0)"
    "fgLinkStats (hub_step m s) = fgLinkStats s"
  using assms
  by (auto simp: opens_session_def hub_step_def dispatch_message_def process_command_def process_hello_payload_def
      Let_def reset_port_state_def intro!: exI [of _ "s\<lparr>fgSessionId := rp_v2_get_u32 (m_payload m) 4\<rparr>"])

lemma reset_port_slot:
  assumes "i < length (gPortDevices s)"
  shows "\<not> pending (gPortDevices (reset_port_state e clear s) ! i)"
    "pending (gPortDevices s ! i) \<Longrightarrow> ack_cmd (gPortDevices (reset_port_state e clear s) ! i) = -1 \<and>
      ack_data (gPortDevices (reset_port_state e clear s) ! i) = e"
    "\<not> pending (gPortDevices s ! i) \<Longrightarrow> ack_cmd (gPortDevices (reset_port_state e clear s) ! i) = 0"
  using assms by (simp_all add: reset_port_state_def cancel_pending_def Let_def)

lemma finish_canceled:
  assumes "ack_cmd (gPortDevices s ! i) = -1" "ack_data (gPortDevices s ! i) = e" "i < length (gPortDevices s)"
  shows "\<exists>s'. request_finish cmd q i True result s = (e, s') \<and> \<not> pending (gPortDevices s' ! i) \<and>
    fgLinkStats s' = fgLinkStats s \<and> closed s' = closed s \<and> fgSessionId s' = fgSessionId s"
  using assms by (simp add: request_finish_def update_device_def closed_def Let_def)

text \<open>C9. A request whose link is shut down while it waits returns \<open>-ENOTCONN\<close>, and one that meets a
  new session returns \<open>-ESTALE\<close>: after its one frame, without a retry and without a time-out, and it
  leaves nothing waiting on its port.\<close>

theorem request_cut_off:
  assumes "linked s" "sends 1 s" "good_payload data n" "0 \<le> n" "n \<le> 240"
    and "getDevice port = Some i" "raspike_is_valid_port port" "s_steps sc = []" "s_waits sc = (f, 0) # rest"
    and "f = shutdown_step \<and> fgActiveReceivers s \<le> 0 \<and> e = ENOTCONN \<or>
      f = hub_step m \<and> opens_session m (fgSessionId s) \<and> e = ESTALE"
  shows "\<exists>s'. raspike_request port cmd data n t sc s = (- e, sc\<lparr>s_waits := rest\<rparr>, s') \<and>
    \<not> pending (gPortDevices s' ! i) \<and> fgLinkStats s' = tx_frames_update (\<lambda>n. n + 1) (fgLinkStats s) \<and>
    (f = shutdown_step \<longrightarrow> e = ENOTCONN \<longrightarrow> closed s')"
proof -
  obtain s5 where s5: "linked s5" "pending (gPortDevices s5 ! i)" "fgSessionId s5 = fgSessionId s"
      "fgActiveReceivers s5 = fgActiveReceivers s" "fgLinkStats s5 = tx_frames_update (\<lambda>n. n + 1) (fgLinkStats s)"
    and run: "\<not> pending (gPortDevices (f s5) ! i) \<Longrightarrow> raspike_request port cmd data n t sc s =
      (let (r, s7) = request_finish cmd (fgNextSequence s) i True (- ETIMEDOUT) (f s5)
       in (r, sc\<lparr>s_waits := rest\<rparr>, s7))"
    by (rule request_ended [OF assms(1-9), of cmd t]) (rule that)
  have i: "i < length (gPortDevices s5)" using getDevice_bound [OF assms(6)] s5(1) by (simp add: linked_def)
  have "\<exists>s0. gPortDevices s0 = gPortDevices s5 \<and> (\<exists>clear. gPortDevices (f s5) =
      gPortDevices (reset_port_state (- e) clear s0)) \<and> fgLinkStats (f s5) = fgLinkStats s5 \<and>
      (e = ENOTCONN \<longrightarrow> closed (f s5))"
    using assms(10)
  proof
    assume "f = shutdown_step \<and> fgActiveReceivers s \<le> 0 \<and> e = ENOTCONN"
    then show ?thesis using shutdown_step_props [of s5] s5(4) by auto
  next
    assume "f = hub_step m \<and> opens_session m (fgSessionId s) \<and> e = ESTALE"
    then show ?thesis using new_session_props [of m s5] s5(3) by auto
  qed
  then obtain s0 clear where reset: "gPortDevices s0 = gPortDevices s5"
    "gPortDevices (f s5) = gPortDevices (reset_port_state (- e) clear s0)" "fgLinkStats (f s5) = fgLinkStats s5"
    "e = ENOTCONN \<longrightarrow> closed (f s5)" by blast
  have slot: "\<not> pending (gPortDevices (f s5) ! i)" "ack_cmd (gPortDevices (f s5) ! i) = -1"
    "ack_data (gPortDevices (f s5) ! i) = - e" "i < length (gPortDevices (f s5))"
    using reset_port_slot [of i s0 "- e" clear] i s5(2) reset(1,2) by (simp_all add: reset_port_state_def)
  from finish_canceled [OF slot(2-4), of cmd "fgNextSequence s" "- ETIMEDOUT"] run [OF slot(1)] reset(3,4) s5(5)
  show ?thesis by auto
qed

theorem request_cut_off_witness:
  "\<exists>s'. raspike_request 1 RP_CMD_ID_MOT_RST None 0 2000 \<lparr>s_steps = [], s_waits = [(shutdown_step, 0)]\<rparr>
      (demo_link [] (replicate 1 (WriteCount 256))) =
      (- ENOTCONN, \<lparr>s_steps = [], s_waits = [(shutdown_step, 0)]\<rparr>\<lparr>s_waits := []\<rparr>, s') \<and> closed s'"
proof -
  let ?s = "demo_link [] (replicate 1 (WriteCount 256))"
  have port: "getDevice 1 = Some 1" "raspike_is_valid_port 1" "good_payload None 0" "fgActiveReceivers ?s \<le> 0"
    by code_simp+
  have "sends 1 ?s" by (rule demo_link_sends_frames) simp
  from request_cut_off [OF demo_link_linked this port(3) _ _ port(1,2), of "\<lparr>s_steps = [], s_waits = [(shutdown_step, 0)]\<rparr>"
      shutdown_step "[]" ENOTCONN demo_answer RP_CMD_ID_MOT_RST 2000] port(4)
  show ?thesis by auto
qed

lemma answered_slot:
  assumes "linked s" "pending (gPortDevices s ! i)" "i < RP_PORT_NUMBER"
    and "ack_for i cmd (pending_sequence (gPortDevices s ! i)) (fgSessionId s) v m \<or> opens_session m (fgSessionId s)"
  shows "\<not> pending (gPortDevices (hub_step m s) ! i)" "i < length (gPortDevices (hub_step m s))"
    "fgActiveReceivers (hub_step m s) = fgActiveReceivers s" "fgLinkStats (hub_step m s) = fgLinkStats s"
proof -
  have len: "length (gPortDevices s) = 7" using assms(1) by (simp add: linked_def)
  from assms(4) have "\<not> pending (gPortDevices (hub_step m s) ! i) \<and> i < length (gPortDevices (hub_step m s)) \<and>
    fgActiveReceivers (hub_step m s) = fgActiveReceivers s \<and> fgLinkStats (hub_step m s) = fgLinkStats s"
  proof
    assume "ack_for i cmd (pending_sequence (gPortDevices s ! i)) (fgSessionId s) v m"
    from ack_step [OF this assms(1,3,2) refl] show ?thesis using len assms(3) by (simp add: update_device_def)
  next
    assume new: "opens_session m (fgSessionId s)"
    then have "fgActiveReceivers (hub_step m s) = fgActiveReceivers s"
      by (auto simp: opens_session_def hub_step_def dispatch_message_def process_command_def
          process_hello_payload_def reset_port_state_def Let_def)
    moreover obtain s0 where "gPortDevices s0 = gPortDevices s"
      "gPortDevices (hub_step m s) = gPortDevices (reset_port_state (- ESTALE) False s0)"
      using new_session_props(1) [OF new] by blast
    moreover from this have "length (gPortDevices (hub_step m s)) = 7" using len by (simp add: reset_port_state_def)
    ultimately show ?thesis
      using reset_port_slot(1) [of i s0] new_session_props(2) [OF new] len assms(3) by simp
  qed
  then show "\<not> pending (gPortDevices (hub_step m s) ! i)" "i < length (gPortDevices (hub_step m s))"
    "fgActiveReceivers (hub_step m s) = fgActiveReceivers s" "fgLinkStats (hub_step m s) = fgLinkStats s"
    by blast+
qed

text \<open>C10. A request that was answered, but whose link is shut down before its thread has read the
  answer: \<^verbatim>\<open>reset_port_state\<close> clears the slot although nobody waits in it, so the answer is
  lost, the result is \<open>-ETIMEDOUT\<close> and a time-out is counted, though none has passed. The
  same becomes of a request that a new session has just canceled.\<close>

theorem request_answer_lost:
  assumes "linked s" "sends 1 s" "good_payload data n" "0 \<le> n" "n \<le> 240"
    and "getDevice port = Some i" "raspike_is_valid_port port"
    and "s_steps sc = []" "s_waits sc = (\<lambda>s. shutdown_step (hub_step m s), 0) # rest"
    and "ack_for i cmd (fgNextSequence s) (fgSessionId s) v m \<or> opens_session m (fgSessionId s)"
    and "fgActiveReceivers s \<le> 0" "cmd \<noteq> 0"
  shows "\<exists>s'. raspike_request port cmd data n t sc s = (- ETIMEDOUT, sc\<lparr>s_waits := rest\<rparr>, s') \<and>
    closed s' \<and> request_timeouts (fgLinkStats s') = request_timeouts (fgLinkStats s) + 1"
proof -
  let ?f = "\<lambda>s. shutdown_step (hub_step m s)"
  obtain s5 where s5: "linked s5" "pending (gPortDevices s5 ! i)"
      "pending_sequence (gPortDevices s5 ! i) = fgNextSequence s" "fgSessionId s5 = fgSessionId s"
      "fgActiveReceivers s5 = fgActiveReceivers s" "fgLinkStats s5 = tx_frames_update (\<lambda>n. n + 1) (fgLinkStats s)"
    and run: "\<not> pending (gPortDevices (?f s5) ! i) \<Longrightarrow> raspike_request port cmd data n t sc s =
      (let (r, s7) = request_finish cmd (fgNextSequence s) i True (- ETIMEDOUT) (?f s5)
       in (r, sc\<lparr>s_waits := rest\<rparr>, s7))"
    by (rule request_ended [OF assms(1-9), of cmd t]) (rule that)
  note i7 = getDevice_bound [OF assms(6)]
  have i: "i < length (gPortDevices s5)" using i7 s5(1) by (simp add: linked_def)
  let ?s = "hub_step m s5"
  have ended: "\<not> pending (gPortDevices ?s ! i)" "i < length (gPortDevices ?s)" "fgActiveReceivers ?s \<le> 0"
    "fgLinkStats ?s = fgLinkStats s5"
    using answered_slot [OF s5(1,2) i7] assms(10,11) s5(3-5) by simp_all
  note down = shutdown_step_props [OF ended(3)] reset_port_slot [OF ended(2)]
  have "int (unat cmd) \<noteq> 0" using assms(12) by (metis of_nat_eq_0_iff unat_eq_zero)
  with down ended run s5(6) show ?thesis
    by (simp add: request_finish_def update_device_def stats_increment_def closed_def Let_def)
qed

theorem request_answer_lost_witness:
  "let sc = \<lparr>s_steps = [], s_waits = [(\<lambda>s. shutdown_step (hub_step demo_answer s), 0)]\<rparr> in
    \<exists>s'. raspike_request 1 RP_CMD_ID_MOT_RST None 0 2000 sc (demo_link [] (replicate 1 (WriteCount 256))) =
      (- ETIMEDOUT, sc\<lparr>s_waits := []\<rparr>, s') \<and> closed s'"
proof -
  let ?s = "demo_link [] (replicate 1 (WriteCount 256))"
  let ?sc = "\<lparr>s_steps = [], s_waits = [(\<lambda>s. shutdown_step (hub_step demo_answer s), 0)]\<rparr>"
  have port: "getDevice 1 = Some 1" "raspike_is_valid_port 1" "good_payload None 0" "fgActiveReceivers ?s \<le> 0"
    "RP_CMD_ID_MOT_RST \<noteq> 0" by code_simp+
  have "ack_for 1 RP_CMD_ID_MOT_RST (fgNextSequence ?s) (fgSessionId ?s) 1 demo_answer"
    using port(1) by (simp add: ack_for_def demo_answer_def demo_message_def)
  moreover have "sends 1 ?s" by (rule demo_link_sends_frames) simp
  ultimately show ?thesis
    using request_answer_lost [OF demo_link_linked _ port(3) _ _ port(1,2), of "[]" "replicate 1 (WriteCount 256)"
        ?sc demo_answer "[]" RP_CMD_ID_MOT_RST 1 2000] port(4,5) unfolding Let_def by auto
qed

end
