(* ===== verification/Defects.thy ===== *)
theory Defects
  imports Interrupts Devices
begin

section \<open>Shortcomings of the code, each shown by what it does\<close>

text \<open>
  Behaviours of the code that its callers do not expect. Each is a statement on the same definitions
  as the properties, for every state in which it can happen; \<open>shutdown_step\<close> is a whole shutdown by
  another thread at a point where the caller waits for a mutex or a condition.
\<close>

subsection \<open>Status pointers that a shutdown takes away\<close>

lemma shutdown_step_status: "fgActiveReceivers s \<le> 0 \<Longrightarrow> fgStatus (shutdown_step s) = None"
  using shutdown_step_props(3) by (simp add: closed_def)

text \<open>The sensor macros test the pointer before they take the mutex for the copy.\<close>

lemma sensor_read_after_shutdown:
  assumes "fgStatus s \<noteq> None" "raspike_is_valid_port (pdev_port i s)" "fgActiveReceivers s \<le> 0"
    and "s_steps sc = shutdown_step # rest"
  shows "GET_AND_RET_SENSOR_COMMON n index (Some i) sc s = None"
  using assms shutdown_step_status
  by (simp add: GET_AND_RET_SENSOR_COMMON_def others_run_def port_bytes_def Let_def)

text \<open>The wait for a mode reads through the pointer again after the wait.\<close>

lemma mode_wait_after_shutdown:
  assumes "fgStatus s = Some st" "ps_cmd (ports st ! unat port) \<noteq> cmd" "port < RP_DEVICE_PORT_COUNT"
    and "fgActiveReceivers s \<le> 0" "s_steps sc = []" "s_waits sc = (shutdown_step, 0) # rest"
  shows "raspike_wait_port_cmd_change port cmd sc s = None"
proof -
  obtain d s1 where dl: "on_os (deadline_after_ms CLOCK_REALTIME 1000) s = (d, s1)"
    by (cases "on_os (deadline_after_ms CLOCK_REALTIME 1000) s")
  then have "fgStatus s1 = Some st" "fgActiveReceivers s1 \<le> 0"
    using same_but_com_fields(1,9) [OF on_os_same [OF dl]] assms(1,4) by simp_all
  then have "wait_port_loop port cmd d (s_waits sc) s1 = None"
    using assms(2,6) shutdown_step_status [of s1] by (simp add: wait_port_loop.simps)
  then show ?thesis
    using assms(1,3) dl others_run_quiet [OF assms(5)]
    by (simp add: raspike_wait_port_cmd_change_def not_le [symmetric])
qed

subsection \<open>Handles kept over a shutdown\<close>

text \<open>Initialisation and shutdown zero the devices (\<open>idle_ports\<close>), so a handle from before acts on port A.\<close>

lemma stale_handle_moves_port_A:
  assumes "idle_ports s" "linked s" "sends 1 s" "i < RP_PORT_NUMBER"
  shows "\<exists>s'. pup_motor_set_speed (Some i) v s = (PBIO_SUCCESS, s') \<and>
    wire_out s' = wire_out s @ v2_frame_bytes (message_of 0 RP_CMD_ID_MOT_SPD (Some (le32 v)) 4
      (fgNextSequence s) 0 (fgSessionId s))"
proof -
  define s1 where "s1 = set_device i (\<lambda>dev. dev\<lparr>pd_cmd := RP_CMD_ID_MOT_SPD\<rparr>) s"
  have len: "i < length (gPortDevices s)" using assms(2,4) by (simp add: linked_def)
  then have "device (gPortDevices s ! i) = zero_device" using assms(1) by (simp add: idle_ports_def)
  then have port: "pdev_port i s1 = 0"
    using len by (simp add: s1_def pdev_port_def set_device_def update_device_def zero_device_def)
  obtain s2 where seq: "next_sequence s1 = (fgNextSequence s, s2)" "sends (Suc 0) s2" "wire_out s2 = wire_out s"
    "fgSessionId s2 = fgSessionId s"
    using assms(3) by (auto simp: next_sequence_def Let_def s1_def set_device_def One_nat_def update_device_def
        wire_out_def sends_def normal_mode_def)
  have good: "good_payload (Some (le32 v)) 4" "raspike_is_valid_port 0"
    by (simp_all add: good_payload_def raspike_is_valid_port_def bytes_at_def)
  from send_frame_open [OF seq(2) good(1) _ _ good(2), of RP_CMD_ID_MOT_SPD "fgNextSequence s" 0 False] obtain c where
    "send_frame 0 RP_CMD_ID_MOT_SPD (Some (le32 v)) 4 (fgNextSequence s) 0 False s2 =
      (20, stats_increment tx_frames_update (s2\<lparr>rp_com := c\<rparr>))"
    "on_line c = wire_out s2 @ v2_frame_bytes (message_of 0 RP_CMD_ID_MOT_SPD (Some (le32 v)) 4
      (fgNextSequence s) 0 (fgSessionId s2))"
    by auto
  then have "\<exists>s'. sent_to_pbio (raspike_prot_send (pdev_port i s1) RP_CMD_ID_MOT_SPD (Some (le32 v)) 4 s1) =
      (PBIO_SUCCESS, s') \<and> wire_out s' = wire_out s @ v2_frame_bytes
      (message_of 0 RP_CMD_ID_MOT_SPD (Some (le32 v)) 4 (fgNextSequence s) 0 (fgSessionId s))"
    using seq port by (simp add: raspike_prot_send_def sent_to_pbio_def stats_increment_def wire_out_def)
  then show ?thesis by (simp add: pup_motor_set_speed_def s1_def Let_def)
qed

subsection \<open>An answer to another command\<close>

text \<open>An acknowledgement with the right number and session, but of another command, ends the wait; the
  request then fails as if nobody had answered, at once, and counts a time-out.\<close>

lemma other_command_times_out:
  assumes "linked s" "sends 1 s" "good_payload data n" "0 \<le> n" "n \<le> 240"
    and "getDevice port = Some i" "raspike_is_valid_port port"
    and "s_steps sc = []" "s_waits sc = (hub_step m, 0) # rest"
    and "ack_for i other (fgNextSequence s) (fgSessionId s) v m" "other \<noteq> cmd"
  shows "\<exists>s'. raspike_request port cmd data n t sc s = (- ETIMEDOUT, sc\<lparr>s_waits := rest\<rparr>, s') \<and>
    now_of s' = now_of s \<and> request_timeouts (fgLinkStats s') = request_timeouts (fgLinkStats s) + 1"
proof -
  obtain s5 where s5: "linked s5" "pending (gPortDevices s5 ! i)"
      "pending_sequence (gPortDevices s5 ! i) = fgNextSequence s" "fgSessionId s5 = fgSessionId s"
      "now_of s5 = now_of s" "fgLinkStats s5 = tx_frames_update (\<lambda>n. n + 1) (fgLinkStats s)"
    and run: "\<not> pending (gPortDevices (hub_step m s5) ! i) \<Longrightarrow> raspike_request port cmd data n t sc s =
      (let (r, s7) = request_finish cmd (fgNextSequence s) i True (- ETIMEDOUT) (hub_step m s5)
       in (r, sc\<lparr>s_waits := rest\<rparr>, s7))"
    by (rule request_ended [OF assms(1-9), of cmd t]) (rule that)
  have "i < length (gPortDevices s5)" using getDevice_bound [OF assms(6)] s5(1) by (simp add: linked_def)
  moreover have "hub_step m s5 = update_device i (\<lambda>dev. dev\<lparr>ack_cmd := int (unat other), ack_data := sint v,
      ack_sequence := fgNextSequence s, ack_session := fgSessionId s5, pending := False\<rparr>) s5"
    using assms(10) s5 getDevice_bound [OF assms(6)] by (intro ack_step) simp_all
  moreover have "int (unat other) \<noteq> -1" using of_nat_0_le_iff [of "unat other"] by linarith
  moreover have "int (unat other) \<noteq> int (unat cmd)" using assms(11) by (metis of_nat_eq_iff word_unat_eq_iff)
  ultimately show ?thesis
    using run s5 by (simp add: request_finish_def update_device_def stats_increment_def Let_def)
qed

subsection \<open>Sends that overtake\<close>

text \<open>In normal mode a send does not look at the buffer, so what was buffered before leaves after it.\<close>

lemma send_overtakes_buffer:
  assumes "raspike_com_send desc (Some bs) (int (length bs)) c = (r, c1)" "0 \<le> r"
    and "fg_send_mode c \<noteq> RASPIKE_USB_MODE_BUFFERED" "flush_buffer_locked desc c1 = (r2, c2)" "0 \<le> r2"
  shows "on_line c2 = on_line c @ bs @ queued c"
proof -
  obtain t w where wr: "write_all_fd (Some bs) (length bs) t (com_os c) = (r, w)" "c1 = c\<lparr>com_os := w\<rparr>"
    using assms(1-3) by (auto simp: raspike_com_send_def rp_usb_send_def split: if_splits prod.splits)
  from write_all_fd_props [OF wr(1)] assms(2) have "on_line c1 = on_line c @ bs" "queued c1 = queued c"
    by (auto simp: wr(2) on_line_def queued_def)
  with flush_buffer_locked_props [OF assms(4)] assms(5) show ?thesis by simp
qed

subsection \<open>Positive error numbers\<close>

lemma getters_fail_positive:
  "0 < fst (raspike_runtime_get_telemetry False s)" "0 < fst (raspike_link_get_stats False s)"
  "rt_sequence (fgRuntimeTelemetry s) = 0 \<Longrightarrow> 0 < fst (raspike_runtime_get_telemetry True s)"
  by (simp_all add: raspike_runtime_get_telemetry_def raspike_link_get_stats_def)

end
