(* ===== verification/Line_Test.thy ===== *)
theory Line_Test
  imports Com
begin

section \<open>The line test (\<^verbatim>\<open>src/test.c\<close>)\<close>

text \<open>
  A program of its own over the bare device: when the other side has sent a 1 it sends the numbers
  from 0 to 97 round and round, one a second, waits for each to come back plus one, and prints how
  long that took. Its loops do not end by themselves: the start and every answer are awaited for a
  number of reads with a flag whether they came, the endless loop is run for a number of rounds.
  On this terminal a read that finds nothing returns at once.
\<close>

datatype test_line =
    Not_found int | Opened int | Lflag u32 | Start | Echo_ok | Echo_other byte byte | Spend int

text \<open>The code behind the \<^verbatim>\<open>return\<close> of \<^verbatim>\<open>command_read\<close> is not reached. A buffer is its first byte.\<close>

definition command_read :: "byte \<Rightarrow> os \<Rightarrow> int \<times> byte \<times> os" where
  "command_read buf w =
     (let (n, bs, w1) = sys_read 1 w in (n, case bs of [] \<Rightarrow> buf | b # rest \<Rightarrow> b, w1))"

primrec wait_start :: "nat \<Rightarrow> byte \<Rightarrow> os \<Rightarrow> bool \<times> byte \<times> os" where
  "wait_start 0 buf w = (False, buf, w)"
| "wait_start (Suc n) buf w =
     (let (len, buf1, w1) = command_read buf w in
      if buf1 = 1 then (True, buf1, w1) else wait_start n buf1 w1)"

primrec await_echo :: "nat \<Rightarrow> byte \<Rightarrow> byte \<Rightarrow> os \<Rightarrow> test_line list \<times> bool \<times> byte \<times> os" where
  "await_echo 0 c buf w = ([], False, buf, w)"
| "await_echo (Suc n) c buf w =
     (let (len, buf1, w1) = command_read buf w in
      if len > 0 then
        if int (unat buf1) = int (unat c) + 1 then ([Echo_ok], True, buf1, w1)
        else let (out, came, buf2, w2) = await_echo n c buf1 w1 in (Echo_other c buf1 # out, came, buf2, w2)
      else await_echo n c buf1 w1)"

text \<open>The difference with the borrow of a second.\<close>

definition spend_ms :: "timespec \<Rightarrow> timespec \<Rightarrow> int" where
  "spend_ms before now =
     (let now' = (if tv_nsec now < tv_nsec before
                  then now\<lparr>tv_nsec := tv_nsec now + 1000000000, tv_sec := tv_sec now - 1\<rparr> else now)
      in c_int ((tv_sec now' - tv_sec before) * 1000 + c_div (tv_nsec now' - tv_nsec before) 1000000))"

definition echo_round :: "nat \<Rightarrow> byte \<Rightarrow> byte \<Rightarrow> os \<Rightarrow> test_line list \<times> bool \<times> byte \<times> byte \<times> os" where
  "echo_round n c buf w =
     (let (_, _, w1) = sys_nanosleep \<lparr>tv_sec = 1, tv_nsec = 0\<rparr> w;
          (before, w2) = clock_gettime CLOCK_MONOTONIC_RAW w1;
          (err, w3) = sys_write [c] w2;
          (out, came, buf1, w4) = await_echo n c buf w3 in
      if \<not> came then (out, False, c, buf1, w4)
      else let (now, w5) = clock_gettime CLOCK_MONOTONIC_RAW w4
           in (out @ [Spend (spend_ms before now)], True, (c + 1) mod 98, buf1, w5))"

primrec echo_rounds ::
  "nat \<Rightarrow> nat \<Rightarrow> byte \<Rightarrow> byte \<Rightarrow> os \<Rightarrow> test_line list \<times> bool \<times> byte \<times> byte \<times> os" where
  "echo_rounds 0 n c buf w = ([], True, c, buf, w)"
| "echo_rounds (Suc k) n c buf w =
     (let (out, came, c1, buf1, w1) = echo_round n c buf w in
      if \<not> came then (out, False, c1, buf1, w1)
      else let (out2, came2, r) = echo_rounds k n c1 buf1 w1 in (out @ out2, came2, r))"

definition test_tio :: termios where
  "test_tio = \<lparr>c_iflag = 0, c_oflag = 0, c_cflag = of_nat B115200 OR CS8 OR CLOCAL OR CREAD,
     c_lflag = 0, c_ispeed = 0, c_ospeed = 0, c_vmin = 0, c_vtime = 0\<rparr>"

text \<open>The first result is the exit status of a program that has ended.\<close>

definition line_test_main :: "nat \<Rightarrow> nat \<Rightarrow> os \<Rightarrow> int option \<times> test_line list \<times> os" where
  "line_test_main k n w =
     (let (device_fd, w1) = sys_open w in
      if device_fd < 0 then (Some (-1), [Not_found (os_errno w1)], w1)
      else let (_, w2) = sys_tcflush_input w1;
               (_, w3) = sys_tcsetattr test_tio w2;
               out = [Opened device_fd, Lflag (c_lflag test_tio)];
               (started, buf, w4) = wait_start n 0 w3 in
      if \<not> started then (None, out, w4)
      else let (out2, came, c, buf1, w5) = echo_rounds k n 0 buf w4 in (None, out @ [Start] @ out2, w5))"

subsection \<open>The time it prints\<close>

lemma ms_split: "(s * 10 ^ 9 + n) div 10 ^ 6 = s * 1000 + n div (10 ^ 6 :: int)"
proof -
  have "s * 10 ^ 9 + n = n + (s * 1000) * 10 ^ 6" by simp
  then show ?thesis by (simp only: div_mult_self1) simp
qed

lemma spend_ms_parts:
  assumes "0 \<le> n" "n < 10 ^ 9" "0 \<le> m" "m < 10 ^ 9" "0 \<le> (s - r) * 10 ^ 9 + (n - m)"
    and "((s - r) * 10 ^ 9 + (n - m)) div 10 ^ 6 < 2 ^ 31"
  shows "spend_ms \<lparr>tv_sec = r, tv_nsec = m\<rparr> \<lparr>tv_sec = s, tv_nsec = n\<rparr> = ((s - r) * 10 ^ 9 + (n - m)) div 10 ^ 6"
proof -
  let ?d = "((s - r) * 10 ^ 9 + (n - m)) div 10 ^ 6"
  have small: "c_int ?d = ?d" using assms(5,6) by (intro c_int_small) (simp_all add: pos_imp_zdiv_nonneg_iff)
  show ?thesis
  proof (cases "n < m")
    case True
    have "(s - r) * 10 ^ 9 + (n - m) = (s - 1 - r) * 10 ^ 9 + (n + 10 ^ 9 - m)" by (simp add: algebra_simps)
    then have "?d = (s - 1 - r) * 1000 + c_div (n + 10 ^ 9 - m) (10 ^ 6)"
      using assms(1,4) by (simp only: ms_split) (simp add: c_div_nonneg)
    with True small show ?thesis by (simp add: spend_ms_def)
  next
    case False
    then have "?d = (s - r) * 1000 + c_div (n - m) (10 ^ 6)" by (simp only: ms_split) (simp add: c_div_nonneg)
    with False small show ?thesis by (simp add: spend_ms_def)
  qed
qed

lemma spend_ms_exact:
  assumes "a \<le> b" "(b - a) div 10 ^ 6 < 2 ^ 31"
  shows "spend_ms (timespec_of a) (timespec_of b) = (b - a) div 10 ^ 6"
proof -
  let ?N = "10 ^ 9 :: int"
  have diff: "(b div ?N - a div ?N) * ?N + (b mod ?N - a mod ?N) = b - a"
    by (simp only: left_diff_distrib) (use div_mult_mod_eq [of a ?N] div_mult_mod_eq [of b ?N] in linarith)
  have "0 < ?N" by simp
  then show ?thesis
    using spend_ms_parts [of "b mod ?N" "a mod ?N" "b div ?N" "a div ?N"] assms
    unfolding timespec_of_def diff by (simp only: pos_mod_sign pos_mod_bound diff_ge_0_iff_ge)
qed

subsection \<open>A device that answers\<close>

definition spend_line :: "nat \<times> nat \<Rightarrow> test_line list" where
  "spend_line p = [Echo_ok, Spend (int (snd p) div 10 ^ 6)]"

text \<open>What is left of the system's answers when \<open>ps\<close> holds the clock's next pairs of ticks and the
  device will answer the numbers from \<open>c\<close> on.\<close>

definition echoes :: "nat \<Rightarrow> (nat \<times> nat) list \<Rightarrow> os \<Rightarrow> bool" where
  "echoes c ps w \<longleftrightarrow> os_sleeps w = [] \<and> os_ticks w = concat (map (\<lambda>(t, u). [t, u]) ps) \<and>
     os_writes w = replicate (length ps) (WriteCount 1) \<and>
     os_reads w = map (\<lambda>j. ReadBytes [of_nat (Suc ((c + j) mod 98))]) [0 ..< length ps]"

lemma number_echo:
  assumes "c < 98"
  shows "int (unat (of_nat (Suc c) :: byte)) = int (unat (of_nat c :: byte)) + 1"
    "(of_nat c + 1 :: byte) mod 98 = of_nat (Suc c mod 98)"
proof -
  have unat: "unat (of_nat n :: byte) = n" if "n < 256" for n
    using that by (simp add: unat_of_nat)
  then show "int (unat (of_nat (Suc c) :: byte)) = int (unat (of_nat c :: byte)) + 1" using assms by (simp del: of_nat_Suc)
  have "unat ((of_nat (Suc c) :: byte) mod 98) = Suc c mod 98"
    using unat [of "Suc c"] assms by (simp add: unat_mod del: of_nat_Suc)
  then have "unat ((of_nat (Suc c) :: byte) mod 98) = unat (of_nat (Suc c mod 98) :: byte)"
    using unat [of "Suc c mod 98"] by simp
  then show "(of_nat c + 1 :: byte) mod 98 = of_nat (Suc c mod 98)"
    by (simp only: word_unat_eq_iff [symmetric] of_nat_Suc) (simp add: add.commute)
qed

lemma echo_round_ok:
  assumes "echoes c ((t, u) # ps) w" "c < 98" "int u div 10 ^ 6 < 2 ^ 31"
  shows "\<exists>buf' w'. echo_round (Suc n) (of_nat c) buf w = (spend_line (t, u), True, of_nat (Suc c mod 98), buf', w') \<and>
    echoes (Suc c mod 98) ps w' \<and> os_tx w' = os_tx w @ [of_nat c]"
proof -
  have w: "os_sleeps w = []" "os_ticks w = t # u # concat (map (\<lambda>(t, u). [t, u]) ps)"
    "os_writes w = WriteCount 1 # replicate (length ps) (WriteCount 1)"
    "os_reads w = ReadBytes [of_nat (Suc c)] # map (\<lambda>j. ReadBytes [of_nat (Suc ((Suc c mod 98 + j) mod 98))]) [0 ..< length ps]"
    using assms(1,2) by (simp_all add: echoes_def map_upt_Suc mod_add_left_eq del: upt_Suc of_nat_Suc)
  let ?a = "os_now w + 10 ^ 9 + int t"
  have spend: "spend_ms (timespec_of ?a) (timespec_of (?a + int u)) = int u div 10 ^ 6"
    using spend_ms_exact [of ?a "?a + int u"] assms(3) by simp
  let ?w = "w\<lparr>os_now := ?a + int u, os_ticks := concat (map (\<lambda>(t, u). [t, u]) ps),
    os_writes := replicate (length ps) (WriteCount 1), os_tx := os_tx w @ [of_nat c],
    os_reads := map (\<lambda>j. ReadBytes [of_nat (Suc ((Suc c mod 98 + j) mod 98))]) [0 ..< length ps]\<rparr>"
  have "echo_round (Suc n) (of_nat c) buf w = (spend_line (t, u), True, of_nat (Suc c mod 98), of_nat (Suc c), ?w)"
    using w number_echo [OF assms(2)] spend
    by (simp add: echo_round_def sys_nanosleep_def clock_gettime_def tick_def sys_write_def command_read_def
        sys_read_def spend_line_def Let_def del: of_nat_Suc)
  moreover have "echoes (Suc c mod 98) ps ?w" using w(1) by (simp add: echoes_def)
  ultimately show ?thesis by simp
qed

lemma echo_rounds_ok:
  assumes "echoes c ps w" "c < 98" "\<forall>p \<in> set ps. int (snd p) div 10 ^ 6 < 2 ^ 31"
  shows "\<exists>r. echo_rounds (length ps) (Suc n) (of_nat c) buf w = (concat (map spend_line ps), True, r) \<and>
    os_tx (snd (snd r)) = os_tx w @ map (\<lambda>j. of_nat ((c + j) mod 98)) [0 ..< length ps]"
  using assms
proof (induction ps arbitrary: c buf w)
  case (Cons p ps)
  obtain t u where p: "p = (t, u)" by (cases p)
  from echo_round_ok [of c t u ps w n buf] Cons.prems obtain buf' w' where
    first: "echo_round (Suc n) (of_nat c) buf w = (spend_line p, True, of_nat (Suc c mod 98), buf', w')"
      "echoes (Suc c mod 98) ps w'" "os_tx w' = os_tx w @ [of_nat c]"
    by (auto simp: p)
  from Cons.IH [OF first(2), of buf'] Cons.prems(3) obtain r where
    "echo_rounds (length ps) (Suc n) (of_nat (Suc c mod 98)) buf' w' = (concat (map spend_line ps), True, r)"
    "os_tx (snd (snd r)) = os_tx w' @ map (\<lambda>j. of_nat ((Suc c mod 98 + j) mod 98)) [0 ..< length ps]"
    by auto
  then show ?case
    using first(1,3) Cons.prems(2)
    by (intro exI [of _ r]) (simp add: map_upt_Suc mod_add_left_eq del: upt_Suc echo_rounds.simps(1))
qed simp

text \<open>C38. Against a device that starts with a 1 and answers every number with the next one, the program
  sends the numbers modulo 98, one a round, accepts every answer, and prints for every round the
  milliseconds between its two readings of the clock.\<close>

theorem line_test_echo:
  assumes "os_opens w = Inr fd # opens" "os_flushes w = []" "os_reads w = ReadBytes [1] # answers"
    and "echoes 0 ps (w\<lparr>os_reads := answers\<rparr>)" "\<forall>p \<in> set ps. int (snd p) div 10 ^ 6 < 2 ^ 31"
  shows "\<exists>w'. line_test_main (length ps) (Suc n) w =
      (None, [Opened (int fd), Lflag 0, Start] @ concat (map spend_line ps), w') \<and>
    os_tx w' = os_tx w @ map (\<lambda>j. of_nat (j mod 98)) [0 ..< length ps]"
proof -
  obtain set w3 where tcset: "sys_tcsetattr test_tio (w\<lparr>os_opens := opens\<rparr>) = (set, w3)"
    by (cases "sys_tcsetattr test_tio (w\<lparr>os_opens := opens\<rparr>)")
  have w3: "os_reads w3 = ReadBytes [1] # answers" "os_tx w3 = os_tx w" "os_sleeps w3 = os_sleeps w"
    "os_ticks w3 = os_ticks w" "os_writes w3 = os_writes w"
    using assms(3) tcset by (auto simp: sys_tcsetattr_def split: list.splits if_splits)
  have start: "wait_start (Suc n) 0 w3 = (True, 1, w3\<lparr>os_reads := answers\<rparr>)"
    by (simp add: command_read_def sys_read_def w3(1))
  have "echoes 0 ps (w3\<lparr>os_reads := answers\<rparr>)" using assms(4) w3 by (simp add: echoes_def)
  from echo_rounds_ok [OF this _ assms(5), of n 1] obtain c buf w' where
    "echo_rounds (length ps) (Suc n) 0 1 (w3\<lparr>os_reads := answers\<rparr>) = (concat (map spend_line ps), True, c, buf, w')"
    "os_tx w' = os_tx w3 @ map (\<lambda>j. of_nat (j mod 98)) [0 ..< length ps]"
    by auto
  then show ?thesis
    using start w3(2) assms(1,2) tcset
    by (simp add: line_test_main_def sys_open_def sys_tcflush_input_def test_tio_def Let_def del: wait_start.simps)
qed


theorem line_test_echo_witness:
  "\<exists>w'. line_test_main 2 1 (idle_os\<lparr>os_opens := [Inr 3], os_ticks := [5, 2000000, 7, 3500000],
        os_writes := replicate 2 (WriteCount 1), os_reads := [ReadBytes [1], ReadBytes [1], ReadBytes [2]]\<rparr>) =
      (None, [Opened 3, Lflag 0, Start, Echo_ok, Spend 2, Echo_ok, Spend 3], w') \<and> os_tx w' = [0, 1]"
proof -
  let ?ps = "[(5, 2000000), (7, 3500000)] :: (nat \<times> nat) list"
  let ?w = "idle_os\<lparr>os_opens := [Inr 3], os_ticks := [5, 2000000, 7, 3500000],
        os_writes := replicate 2 (WriteCount 1), os_reads := [ReadBytes [1], ReadBytes [1], ReadBytes [2]]\<rparr>"
  have "echoes 0 ?ps (?w\<lparr>os_reads := [ReadBytes [1], ReadBytes [2]]\<rparr>)"
    by (simp add: echoes_def idle_os_def numeral_2_eq_2 upt_rec)
  from line_test_echo [OF _ _ _ this, of 3 "[]" 0] show ?thesis
    by (simp add: idle_os_def spend_line_def One_nat_def numeral_2_eq_2 upt_rec)
qed

end
