(* ===== verification/Spec2Isabelle.thy ===== *)
theory Spec2Isabelle
  imports Format_Properties Crc_Reference Library Concurrency Sample_Properties Defects Line_Test
begin

text \<open>
  \<^bold>\<open>The program.\<close> RasPike-ART lets a program on a Raspberry Pi drive a LEGO SPIKE hub over a
  USB serial line. The client library is the C code under \<^verbatim>\<open>src/src\<close>:
  \<^verbatim>\<open>raspike_com.c\<close> owns the serial device and a send buffer; \<^verbatim>\<open>raspike_protocol.c\<close>
  opens the link (handshake, hello, session), sends frames, receives and dispatches them, and
  answers requests; \<^verbatim>\<open>raspike_protocol_com.h\<close> fixes the bytes both sides exchange;
  \<^verbatim>\<open>raspike_internal.h\<close> holds the state of a port and the macros of the drivers; and
  \<^verbatim>\<open>raspike_motor.c\<close>, \<^verbatim>\<open>raspike_color.c\<close>, \<^verbatim>\<open>raspike_ultrasonicsensor.c\<close>,
  \<^verbatim>\<open>raspike_forcesensor.c\<close> and \<^verbatim>\<open>raspike_hub.c\<close> are the drivers. One thread of the program
  loops in \<^verbatim>\<open>raspike_prot_receive\<close>; any others call drivers, whose requests wait on a condition
  until the receiving thread dispatches the acknowledgement.

  \<^bold>\<open>The theories.\<close>
  \<^item> \<open>Prelude\<close>: words of the width of the C types, \<open>errno\<close> values, C division and conversion,
    \<open>peek\<close> and \<open>poke\<close> for \<^verbatim>\<open>memcpy\<close>; the collections \<open>frame\<close> and \<open>wire\<close>.
  \<^item> \<open>Posix\<close>: the system calls over a state \<open>os\<close> that holds the clock and the answers still to be
    given. Nothing is assumed of the answers but their documented shape, so a theorem over all
    states is one over all behaviours of the device and the system in which the answers come to an
    end: finitely many bytes, signals and failures, and then silence. A sleep lasts as long as asked
    or longer.
  \<^item> \<open>Interfaces\<close>: the locales \<open>byte_source\<close>, \<open>exact_source\<close>, \<open>line_queue\<close>, \<open>stream_code\<close>; interpreted in
    \<open>Com\<close> (the reads and the send buffer), \<open>Link\<close> (the receiving of the link) and \<open>Frames\<close> (both kinds
    of frame). \<open>request_context\<close> and \<open>status_context\<close> of \<open>Request\<close> are what a request keeps of an
    invariant that the steps of the other threads keep; \<open>request_phases\<close> is a whole request by one
    invariant before its slot is opened and one after. \<open>closed_steps\<close> is a class of steps of the other
    threads that is closed under composition. They are interpreted on the invariants and steps of
    \<open>Request\<close>, \<open>Request_Properties\<close>, \<open>Interrupts\<close> and \<open>Library\<close>.
  \<^item> \<open>Wire\<close>, \<open>Payloads\<close>, \<open>Crc\<close>: \<^verbatim>\<open>raspike_protocol_com.h\<close>. Floats are the 32 bits they are.
  \<^item> \<open>Com\<close>: \<^verbatim>\<open>raspike_com.c\<close>, function by function; the record \<open>com\<close> is its static variables.
  \<^item> \<open>Link\<close>: the static variables of \<^verbatim>\<open>raspike_protocol.c\<close> as the record \<open>rp\<close>, statistics, deadlines,
    sequence numbers, \<^verbatim>\<open>reset_port_state\<close>.
  \<^item> \<open>Frames\<close>: \<^verbatim>\<open>send_legacy_frame\<close>, \<^verbatim>\<open>send_v2_frame\<close>, \<^verbatim>\<open>send_frame\<close>, and the layout of a
    frame as a function on messages that the buffer code is proved to compute.
  \<^item> \<open>Handshake\<close>: \<^verbatim>\<open>raspike_prot_init\<close> with all it calls, and \<^verbatim>\<open>raspike_prot_shutdown\<close>.
  \<^item> \<open>Receive\<close>: \<^verbatim>\<open>raspike_prot_receive\<close>, the two readers of frames and \<^verbatim>\<open>process_command\<close>.
  \<^item> \<open>Request\<close>: \<^verbatim>\<open>raspike_request\<close>, the waits for a port mode, the drive and runtime calls.
  \<^item> \<open>Devices\<close>, \<open>Hub\<close>: the macros and all functions of the drivers.
  \<^item> \<open>Library\<close>: the whole interface as one type of calls, and the states any sequence of calls reaches.
  \<^item> \<open>Ieee\<close>, \<open>Sample\<close>: \<^verbatim>\<open>sample/raspike_test/raspike_test.c\<close>, the floating-point operations it computes
    with and all its tests, over the functions of the library.
  \<^item> \<open>Crc_Reference\<close>: polynomials over two elements as lists of bits, and their long division.
  \<^item> \<open>Interrupts\<close>: the shutdown as the sections other threads see, and the steps of a link that may go
    away (\<open>around\<close>).
  \<^item> \<open>Defects\<close>: states and schedules in which the code does what its callers do not expect.
  \<^item> \<open>Line_Test\<close>: \<^verbatim>\<open>src/test.c\<close>, a program that echoes bytes over the bare device.
  \<^item> \<open>Concurrency\<close>: the mutexes, for every call the order in which it takes them, and a step relation
    over any number of threads.
  \<^item> \<open>Instances\<close>: the concrete links the instances of the properties run on.

  \<^bold>\<open>State and errors.\<close> Every operation takes the state and returns it with its result. An \<open>int\<close>
  result is the C result, errors negated. A pointer that may be \<^verbatim>\<open>NULL\<close> is an option, a device handle the
  index of its port. An \<open>option\<close> around a result is \<open>None\<close> where the C code follows \<^verbatim>\<open>NULL\<close>
  (\<^verbatim>\<open>fgStatus\<close> after a failed start); that it does not happen on a link that is up is part of the
  properties (\<open>linked\<close>, \<open>receive_keeps_link\<close>).

  \<^bold>\<open>Threads.\<close> In the theories of the data a section under a mutex is one step. A request waits
  for other threads, so \<open>raspike_request\<close> takes a schedule: what the others do at each of its
  mutexes, waits and sleeps. The properties hold for every schedule whose steps are those of \<open>beside\<close>
  (dispatches of messages, receivers that enter and leave, requests and drivers on other ports, time,
  a reset) or, in \<open>Library\<close>, of \<open>other_step\<close> (whole receives, dispatches and all drivers); a few fix
  the schedule to dispatches. Each of these classes is closed under doing one step after the other
  and under letting the step depend on the state found, so at one point of a call there may be any
  number of sections of other threads, whole requests of theirs included. None of them opens
  or shuts down the link. That is in \<open>Interrupts\<close>, whose steps \<open>around\<close> may do anything to what is not
  the request's slot and include whole shutdowns; \<open>Defects\<close> shows the calls that do not bear one.
  Between two such points a call is one step: a receive (but for its entry and its end, which the
  shutdown of \<open>Interrupts\<close> sees), an initialisation, a send and a tone have no steps of others inside.
  \<open>Concurrency\<close> is the other half: the order of the mutexes alone, with all interleavings of all
  calls.

  \<^bold>\<open>The lemmas.\<close>
  \<^item> \<open>Format_Properties\<close>: identifiers differ, structures and frames survive the line, a stream of frames
    has one reading, a send puts one frame on the line or into the queue, in each mode, or is refused,
    sequence numbers do not repeat.
  \<^item> \<open>Crc_Reference\<close>: the loop of the CRC computes the remainder of the long division of the message by
    the polynomial of CRC-16-CCITT, so it finds every damage within sixteen bits in a row.
  \<^item> \<open>Link_Properties\<close>: what an open configures, what a receive takes, exact deadlines, the send buffer
    as a queue and how a failed flush breaks it; how signals prolong a wait without a bound;
    initialisation returns once the line is silent, succeeds only with an agreed version and session,
    and leaves nothing behind when it fails; shutdown closes the link and cancels every request.
  \<^item> \<open>Dispatch_Properties\<close>: receiving a stream in any chunks is dispatching its messages in order; a
    damaged frame is dropped and the stream stays in step; what ends a request; stale sessions; the
    effect of status, hello and telemetry frames on the saved state.
  \<^item> \<open>Request_Properties\<close>: an answered request returns the answer, an unanswered one resends once and
    fails after twice its time-out exactly, a successful result is that of the matching
    acknowledgement whatever the other threads do on an open link, and a request is itself a step
    beside any request on another port.
  \<^item> \<open>Interrupts\<close>: a shutdown is its sections in order and waits exactly for the receivers inside;
    beside it a request still returns nothing but what it was answered; one that is cut off returns
    the error of what cut it off, unless it had been answered or canceled already, when the answer is
    lost.
  \<^item> \<open>Defects\<close>: a null pointer followed after a shutdown, a stale handle that moves port A, an answer
    that counts as a time-out, a send that overtakes the buffer, positive error numbers.
  \<^item> \<open>Line_Test\<close>: against a device that answers, what the test sends and prints, with the exact times.
  \<^item> \<open>Device_Properties\<close>: devices are exclusive, a mode change is confirmed by the status,
    motors follow telemetry, power is clamped, texts are bounded, tones last at least as long as asked.
  \<^item> \<open>Library\<close>: in every state that calls reach the handles are sound and no further call that uses
    the handles it got follows a null pointer, whatever the device sends and whatever the other threads
    do but open and shut down the link.
  \<^item> \<open>Sample_Properties\<close>: the tests of the sample program follow no null pointer and keep the invariant of
    the library; what its main program prints and returns; it waits for ever when the initialisation
    failed; the powers of its controller are bounded.
  \<^item> \<open>Concurrency\<close>: calls without a shutdown, or without requests for devices and openings of the link,
    never block each other; a shutdown beside a request for a device can block both for ever.

  \<^bold>\<open>Bounds and loops.\<close> The buffers have the sizes of the code: 240 bytes of payload, 256 of
  frame, 4096 of send buffer. The loops over system calls recurse on the answers that are left and on
  the bytes still wanted, so they end; the scan of the handshake ends only when the
  clock says so and is a \<open>partial_function\<close>, whose \<open>None\<close> is not returning; \<open>init_returns\<close> shows that it
  always returns, because every round consumes an answer of the system or passes time: after the last
  answer the clock alone ends it. An endless row of signals is not such a behaviour, and the code need not
  return from it (\<open>interrupts_prolong_receive\<close>). The wait of
  the shutdown for the receivers consumes a list of what they do; without an end it is \<open>None\<close>.
  The endless loops of the sample program and of the line test are run for any number of rounds, its waits have a flag
  whether they ended in that number.

  \<^bold>\<open>Not modelled.\<close> Logging and tracing, which change no state. Memory of a descriptor or status after
  \<^verbatim>\<open>free\<close>: a handle kept across shutdown and initialisation is the index it was, and reads of
  \<^verbatim>\<open>fgStatus\<close> outside its mutex are atomic. The implementation of mutexes and conditions, which is that
  of the system. What the sample program prints is its values, not their text, and its code behind
  an endless loop is not reached. Every floating-point operation is rounded for itself, as C has it without
  contraction, and a NaN is the quiet one. The raw clock of \<^verbatim>\<open>test.c\<close> is the monotonic one, without
  the corrections that make them differ. \<^verbatim>\<open>serialtest.c\<close>, which is built by no build file, includes a
  header that does not exist. The public headers under \<^verbatim>\<open>drivers\<close>, which declare, and
  the headers of libpybricks, which are third-party code; only the types and values the drivers use are
  written out. The hub's own program is in another repository: it is whatever bytes arrive.
\<close>

end
